(* ===== verification/FT_Prelude.thy ===== *)
theory FT_Prelude
  imports Main "HOL-Library.Word"
begin

text \<open>
  Shared base of the development: the machine types the C++ sources use (\<open>uint8_t\<close>,
  \<open>uint16_t\<close>, \<open>uint32_t\<close> and a 64-bit \<open>size_t\<close>), the exceptions the code throws, the
  sequencing of computations that may throw, and the generic facts on lists and words that
  the component theories use.  Nothing in here is specific to one component.
\<close>

unbundle bit_operations_syntax

section \<open>Machine types\<close>

type_synonym byte = "8 word"
type_synonym bytes = "byte list"
type_synonym u16 = "16 word"
type_synonym u32 = "32 word"
type_synonym size_t = "64 word"

text \<open>\<open>UINT64_MAX\<close>, \<open>UINT16_MAX\<close> and \<open>UINT8_MAX\<close> of \<open>cstdint\<close>.\<close>

abbreviation (input) UINT64_MAX :: size_t where "UINT64_MAX \<equiv> - 1"
abbreviation (input) UINT16_MAX :: u16 where "UINT16_MAX \<equiv> - 1"
abbreviation (input) UINT8_MAX :: nat where "UINT8_MAX \<equiv> 255"

section \<open>Errors\<close>

text \<open>
  The \<open>errno\<close> values the sources compare against.  On Linux \<open>EWOULDBLOCK\<close> and \<open>EAGAIN\<close> are
  the same number, so both are \<open>EAGAIN\<close> here.
\<close>

datatype errno = ENONE | EAGAIN | EINTR | EBADF | EOTHER nat

text \<open>
  The exceptions of the sources, by class.  \<open>Undefined\<close> is not an exception: it stands for
  a read outside a buffer and the like, after which C++ promises nothing.
\<close>

datatype ft_exn =
    Runtime_error string
  | Length_error string
  | Invalid_argument string
  | Domain_error string
  | Range_error string
  | System_error errno string
  | Filesystem_error
  | Undefined

type_synonym 'a result = "ft_exn + 'a"

text \<open>Sequencing: the continuation runs only when the first computation did not throw.\<close>

definition rbind :: "'a result \<Rightarrow> ('a \<Rightarrow> 'b result) \<Rightarrow> 'b result" where
  "rbind r f = (case r of Inl e \<Rightarrow> Inl e | Inr x \<Rightarrow> f x)"

lemma rbind_simps [simp]:
  "rbind (Inl e) f = Inl e"
  "rbind (Inr x) f = f x"
  by (simp_all add: rbind_def)

lemma rbind_Inr_iff: "rbind r f = Inr y \<longleftrightarrow> (\<exists>x. r = Inr x \<and> f x = Inr y)"
  by (cases r) simp_all

section \<open>Collections of simplification rules\<close>

named_theorems byte_simps \<open>masks and shifts of the byte-order helpers, as bit masks\<close>
named_theorems wire_simps \<open>parsing what the serializer wrote\<close>
named_theorems path_simps \<open>lexical operations on simple paths\<close>
named_theorems fs_simps \<open>file system and stream operations\<close>

section \<open>Words\<close>

lemma mask_8 [byte_simps]: "(0xff :: 'a::len word) = mask 8"
  by (simp add: mask_eq_exp_minus_1)

lemma mask_u32 [byte_simps]:
  "(0xff000000 :: u32) = push_bit 24 (mask 8)"
  "(0x00ff0000 :: u32) = push_bit 16 (mask 8)"
  "(0x0000ff00 :: u32) = push_bit 8 (mask 8)"
  by (simp_all add: mask_eq_exp_minus_1 push_bit_eq_mult)

lemma mask_u16 [byte_simps]: "(0xff00 :: u16) = push_bit 8 (mask 8)"
  by (simp add: mask_eq_exp_minus_1 push_bit_eq_mult)

lemma unat_ucast_up:
  assumes "LENGTH('a) \<le> LENGTH('b)"
  shows "unat (ucast (w :: 'a::len word) :: 'b::len word) = unat w"
proof -
  have "unat w < 2 ^ LENGTH('b)"
    using assms by (rule less_le_trans [OF unsigned_less power_increasing]) simp
  then show ?thesis by (simp add: unsigned_ucast_eq take_bit_nat_eq_self)
qed

lemma unat_ucast_simps [simp]:
  "unat (ucast (b :: byte) :: u16) = unat b"
  "unat (ucast (b :: byte) :: u32) = unat b"
  "unat (ucast (b :: byte) :: size_t) = unat b"
  "unat (ucast (h :: u16) :: u32) = unat h"
  "unat (ucast (h :: u16) :: size_t) = unat h"
  "unat (ucast (w :: u32) :: size_t) = unat w"
  by (simp_all add: unat_ucast_up)

lemma unat_bounds:
  "unat (b :: byte) < 256"
  "unat (h :: u16) < 2 ^ 16"
  "unat (w :: u32) < 2 ^ 32"
  "unat (s :: size_t) < 2 ^ 64"
  using unsigned_less [of b, where 'a = nat] unsigned_less [of h, where 'a = nat]
    unsigned_less [of w, where 'a = nat] unsigned_less [of s, where 'a = nat]
  by simp_all

lemma unat_of_nat_simps [simp]:
  "n < 256 \<Longrightarrow> unat (word_of_nat n :: byte) = n"
  "n < 2 ^ 16 \<Longrightarrow> unat (word_of_nat n :: u16) = n"
  "n < 2 ^ 32 \<Longrightarrow> unat (word_of_nat n :: u32) = n"
  "n < 2 ^ 64 \<Longrightarrow> unat (word_of_nat n :: size_t) = n"
  by (simp_all add: unat_of_nat)

lemma unat_UINT64_MAX: "unat UINT64_MAX = 2 ^ 64 - 1"
  by (simp add: unsigned_minus_1_eq_mask mask_eq_exp_minus_1)

lemma unat_UINT16_MAX: "unat UINT16_MAX = 65535"
  by (simp add: unsigned_minus_1_eq_mask mask_eq_exp_minus_1)

lemma less_UINT64_MAX: "w \<noteq> UINT64_MAX \<Longrightarrow> unat w < 2 ^ 64 - 1"
  using unat_bounds(4) [of w] word_unat_eq_iff [of w UINT64_MAX]
  by (auto simp: unat_UINT64_MAX)

text \<open>Offsets below \<open>2 ^ 63\<close> are not negative, and a small position survives a 32-bit \<open>int\<close>.\<close>

lemma sint_nonneg:
  assumes "unat (w :: size_t) < 2 ^ 63"
  shows "0 \<le> sint w"
proof -
  have "int (unat w) < int (2 ^ 63)" using assms by (simp only: of_nat_less_iff)
  then have "uint w < 2 ^ 63" by simp
  then have "signed_take_bit 63 (uint w) = uint w"
    by (intro signed_take_bit_int_eq_self) (simp_all add: order_trans [OF _ uint_ge_0])
  then show ?thesis by (simp add: sint_uint)
qed

lemma scast_int32:
  assumes "n < 2 ^ 31"
  shows "scast (word_of_int (int n) :: 32 word) = (word_of_nat n :: size_t)"
proof -
  have "signed_take_bit 31 (int n) = int n"
    using assms by (intro signed_take_bit_int_eq_self) simp_all
  then have "sint (word_of_int (int n) :: 32 word) = int n"
    by (subst signed_of_int) simp
  then show ?thesis by (simp only: scast_eq) simp
qed

lemma and_one_bit: "drop_bit i (b :: byte) AND 1 = 1 \<longleftrightarrow> bit b i"
  by (simp add: bit_iff_odd_drop_bit and_one_eq odd_iff_mod_2_eq_one)

lemma byte_full: "b = 0xFF \<longleftrightarrow> (\<forall>i < 8. bit (b :: byte) i)"
proof
  assume "\<forall>i < 8. bit b i"
  then show "b = 0xFF" by (intro bit_word_eqI) (simp add: mask_8 bit_simps)
qed (simp add: mask_8 bit_simps)

section \<open>Lists\<close>

text \<open>
  Overwriting a run of a byte sequence at a position, as a write into a file does: bytes
  before the position that do not exist yet are zero (a sparse file reads as zeros).  Writing no
  byte changes nothing.
\<close>

definition write_at :: "bytes \<Rightarrow> nat \<Rightarrow> bytes \<Rightarrow> bytes" where
  "write_at xs pos d =
     (if d = [] then xs else take pos xs @ replicate (pos - length xs) 0 @ d @ drop (pos + length d) xs)"

text \<open>Reading up to \<open>n\<close> bytes at a position.\<close>

definition read_at :: "bytes \<Rightarrow> nat \<Rightarrow> nat \<Rightarrow> bytes" where
  "read_at xs pos n = take n (drop pos xs)"

lemma write_at_Nil [simp]: "write_at xs pos [] = xs"
  by (simp add: write_at_def)

lemma length_write_at:
  "length (write_at xs pos d) = (if d = [] then length xs else max (length xs) (pos + length d))"
  by (auto simp: write_at_def)

lemma length_write_at_inside [simp]:
  "pos + length d \<le> length xs \<Longrightarrow> length (write_at xs pos d) = length xs"
  by (simp add: length_write_at)

lemma write_at_inside:
  "pos + length d \<le> length xs \<Longrightarrow> write_at xs pos d = take pos xs @ d @ drop (pos + length d) xs"
  by (simp add: write_at_def)

lemma nth_write_at_new: "k < length d \<Longrightarrow> write_at xs pos d ! (pos + k) = d ! k"
  by (cases "pos \<le> length xs") (auto simp: write_at_def nth_append)

lemma nth_write_at:
  assumes "i < length xs"
  shows "write_at xs pos d ! i =
    (if pos \<le> i \<and> i < pos + length d then d ! (i - pos) else xs ! i)"
  using assms by (auto simp: write_at_def nth_append)

lemma write_at_one: "pos < length xs \<Longrightarrow> write_at xs pos [b] = xs[pos := b]"
  by (rule nth_equalityI) (auto simp: nth_write_at nth_list_update)

lemma write_at_append: "write_at xs (length xs) d = xs @ d"
  by (simp add: write_at_def)

lemma read_at_write_at_same:
  "pos + length d \<le> length xs \<Longrightarrow> read_at (write_at xs pos d) pos (length d) = d"
  by (simp add: read_at_def write_at_inside)

lemma read_at_write_at_other:
  assumes "pos + length d \<le> length xs" and "q + n \<le> pos \<or> pos + length d \<le> q"
    and "q + n \<le> length xs"
  shows "read_at (write_at xs pos d) q n = read_at xs q n"
proof (rule nth_equalityI)
  show "length (read_at (write_at xs pos d) q n) = length (read_at xs q n)"
    using assms(1) by (simp add: read_at_def)
next
  fix i assume "i < length (read_at (write_at xs pos d) q n)"
  then have "i < n" "q + i < length xs" using assms(1) by (auto simp: read_at_def)
  then show "read_at (write_at xs pos d) q n ! i = read_at xs q n ! i"
    using assms by (auto simp: read_at_def nth_write_at)
qed

lemma length_read_at: "length (read_at xs pos n) = min n (length xs - pos)"
  by (auto simp: read_at_def)

text \<open>The first element from a position on that fails a test.\<close>

lemma dropWhile_index:
  assumes "dropWhile P (drop k xs) = y # ys"
  defines "t \<equiv> length (takeWhile P (drop k xs))"
  shows "k + t < length xs" and "xs ! (k + t) = y" and "\<not> P y"
    and "\<And>j. k \<le> j \<Longrightarrow> j < k + t \<Longrightarrow> P (xs ! j)"
proof -
  have split: "drop k xs = takeWhile P (drop k xs) @ y # ys"
    using assms(1) by (metis takeWhile_dropWhile_id)
  show lt: "k + t < length xs"
    using split [THEN arg_cong [of _ _ length]] by (simp add: t_def)
  show "xs ! (k + t) = y"
    using split lt by (metis add_leD1 less_imp_le nth_append_length nth_drop t_def)
  show "\<not> P y" using assms(1) by (metis dropWhile_eq_Cons_conv)
  fix j assume j: "k \<le> j" "j < k + t"
  then have "takeWhile P (drop k xs) ! (j - k) \<in> set (takeWhile P (drop k xs))"
    by (intro nth_mem) (simp add: t_def)
  moreover have "takeWhile P (drop k xs) ! (j - k) = xs ! j"
    using j lt by (subst takeWhile_nth) (simp_all add: t_def)
  ultimately show "P (xs ! j)" by (metis set_takeWhileD)
qed

lemma dropWhile_none:
  assumes "dropWhile P (drop k xs) = []" and "k \<le> j" and "j < length xs"
  shows "P (xs ! j)"
proof -
  have "drop k xs ! (j - k) \<in> set (drop k xs)" using assms(2,3) by (intro nth_mem) simp
  then show ?thesis using assms by (simp add: dropWhile_eq_Nil_conv)
qed

section \<open>Byte strings\<close>

text \<open>
  C++ strings are sequences of bytes; a string literal of the sources is written through
  \<open>ascii\<close>.
\<close>

definition ascii :: "string \<Rightarrow> bytes" where
  "ascii s = map (\<lambda>c. word_of_nat (of_char c)) s"

section \<open>Systems that follow a specification\<close>

text \<open>
  A system moves from state to state by events.  \<open>counted\<close> is the number of events of a run that do
  something, by the predicate \<open>counts\<close>.
\<close>

fun counted :: "('e \<Rightarrow> 's \<Rightarrow> 's) \<Rightarrow> ('e \<Rightarrow> 's \<Rightarrow> bool) \<Rightarrow> 'e list \<Rightarrow> 's \<Rightarrow> nat" where
  "counted step counts [] s = 0"
| "counted step counts (e # es) s = (if counts e s then 1 else 0) + counted step counts es (step e s)"

text \<open>
  A forward simulation with a rank: every admitted event is a step of the specification or none,
  and the rank never grows and becomes smaller with every event that counts.
\<close>

locale ranked_simulation =
  fixes step :: "'e \<Rightarrow> 's \<Rightarrow> 's"
    and admits :: "'e \<Rightarrow> bool"
    and counts :: "'e \<Rightarrow> 's \<Rightarrow> bool"
    and rel :: "'s \<Rightarrow> 'a \<Rightarrow> nat \<Rightarrow> bool"
    and spec :: "'a \<Rightarrow> 'a \<Rightarrow> bool"
  assumes simulates: "rel s a n \<Longrightarrow> admits e \<Longrightarrow>
    \<exists>a' n'. (a' = a \<or> spec a a') \<and> rel (step e s) a' n' \<and> (if counts e s then n' < n else n' \<le> n)"
begin

lemma run_simulates:
  "rel s a n \<Longrightarrow> list_all admits es \<Longrightarrow>
   \<exists>a' n'. rtranclp spec a a' \<and> rel (fold step es s) a' n' \<and> n' + counted step counts es s \<le> n"
proof (induction es arbitrary: s a n)
  case Nil
  then show ?case by auto
next
  case (Cons e es)
  obtain a1 n1 where one: "a1 = a \<or> spec a a1" "rel (step e s) a1 n1" "if counts e s then n1 < n else n1 \<le> n"
    using simulates [OF Cons.prems(1), of e] Cons.prems(2) unfolding list.pred_inject(2) by blast
  obtain a' n' where rest: "rtranclp spec a1 a'" "rel (fold step es (step e s)) a' n'"
    "n' + counted step counts es (step e s) \<le> n1"
    using Cons.IH [OF one(2)] Cons.prems(2) by auto
  have "rtranclp spec a a'" using one(1) rest(1) by (auto intro: converse_rtranclp_into_rtranclp)
  moreover have "n' + counted step counts (e # es) s \<le> n" using one(3) rest(3) by (auto split: if_splits)
  moreover have "rel (fold step (e # es) s) a' n'" using rest(2) by simp
  ultimately show ?case by blast
qed

end

end
