(* ===== verification/FT_Msg.thy ===== *)
theory FT_Msg
  imports FT_Prelude
begin

text \<open>
  The protocol messages of \<open>src/protocol/ft_msg.hpp\<close> and \<open>src/protocol/ft_msg.cpp\<close>: the
  constants, the \<open>Message\<close> class, the big-endian helpers \<open>getU32\<close>, \<open>getU16\<close>, \<open>putU32\<close> and
  \<open>putU16\<close>, the parsing constructor and \<open>serialize\<close>.  An iterator into the received buffer is
  the suffix of the buffer that starts at it; dereferencing past the end is \<open>Undefined\<close>,
  because the sources check no bound.  The lemmas show that parsing inverts serializing and
  the other way round, how long a frame can be, and which buffers are read out of bounds.
\<close>

section \<open>Constants\<close>

definition MAX_MSG_SIZE :: u32 where "MAX_MSG_SIZE = 4096"

definition MAX_MSG_PAYLOAD_SIZE :: size_t where
  "MAX_MSG_PAYLOAD_SIZE = ucast (MAX_MSG_SIZE - 128)"

definition HASH_SIZE :: nat where "HASH_SIZE = 64"

definition CHUNK_HASH_SIZE :: nat where "CHUNK_HASH_SIZE = 32"

definition MAGIC :: u32 where "MAGIC = 0x87FE7700"

definition MSGTYPE_FILE_OFFER :: u32 where "MSGTYPE_FILE_OFFER = MAGIC OR 0x01"
definition MSGTYPE_FILE_CHUNK_REQ :: u32 where "MSGTYPE_FILE_CHUNK_REQ = MAGIC OR 0x02"
definition MSGTYPE_FILE_CHUNK_DATA :: u32 where "MSGTYPE_FILE_CHUNK_DATA = MAGIC OR 0x03"
definition MSGTYPE_FILE_COMPLETE :: u32 where "MSGTYPE_FILE_COMPLETE = MAGIC OR 0x04"
definition MSGTYPE_MAX :: u32 where "MSGTYPE_MAX = MSGTYPE_FILE_COMPLETE + 1"

text \<open>\<open>boost::uuids::uuid::size()\<close>.\<close>

abbreviation (input) UUID_SIZE :: nat where "UUID_SIZE \<equiv> 16"

lemma msgtype_values:
  "MSGTYPE_FILE_OFFER = 0x87FE7701"
  "MSGTYPE_FILE_CHUNK_REQ = 0x87FE7702"
  "MSGTYPE_FILE_CHUNK_DATA = 0x87FE7703"
  "MSGTYPE_FILE_COMPLETE = 0x87FE7704"
  "MSGTYPE_MAX = 0x87FE7705"
  by (simp_all add: MSGTYPE_FILE_OFFER_def MSGTYPE_FILE_CHUNK_REQ_def
      MSGTYPE_FILE_CHUNK_DATA_def MSGTYPE_FILE_COMPLETE_def MSGTYPE_MAX_def MAGIC_def)

lemma msgtype_distinct [simp]:
  "MSGTYPE_FILE_OFFER \<noteq> MSGTYPE_FILE_CHUNK_REQ"
  "MSGTYPE_FILE_CHUNK_REQ \<noteq> MSGTYPE_FILE_OFFER"
  "MSGTYPE_FILE_OFFER \<noteq> MSGTYPE_FILE_CHUNK_DATA"
  "MSGTYPE_FILE_CHUNK_DATA \<noteq> MSGTYPE_FILE_OFFER"
  "MSGTYPE_FILE_OFFER \<noteq> MSGTYPE_FILE_COMPLETE"
  "MSGTYPE_FILE_COMPLETE \<noteq> MSGTYPE_FILE_OFFER"
  "MSGTYPE_FILE_CHUNK_REQ \<noteq> MSGTYPE_FILE_CHUNK_DATA"
  "MSGTYPE_FILE_CHUNK_DATA \<noteq> MSGTYPE_FILE_CHUNK_REQ"
  "MSGTYPE_FILE_CHUNK_REQ \<noteq> MSGTYPE_FILE_COMPLETE"
  "MSGTYPE_FILE_COMPLETE \<noteq> MSGTYPE_FILE_CHUNK_REQ"
  "MSGTYPE_FILE_CHUNK_DATA \<noteq> MSGTYPE_FILE_COMPLETE"
  "MSGTYPE_FILE_COMPLETE \<noteq> MSGTYPE_FILE_CHUNK_DATA"
  by (simp_all add: msgtype_values)

lemma payload_size_value: "MAX_MSG_PAYLOAD_SIZE = 3968"
  by (simp add: MAX_MSG_PAYLOAD_SIZE_def MAX_MSG_SIZE_def)

lemma unat_payload_size [simp]: "unat MAX_MSG_PAYLOAD_SIZE = 3968"
  by (simp add: payload_size_value)

section \<open>The Message class\<close>

record offer_fields =
  offer_file_size :: u32
  offer_file_n_chunks :: u32
  offer_file_hash :: bytes

record chunk_req_fields =
  chunk_idx_first :: u32
  chunk_idx_last :: u32

record chunk_data_fields =
  cdata_idx :: u32
  cdata_data :: bytes
  cdata_hash :: bytes

record message =
  msg_type :: u32
  msg_len :: u16
  seq_number :: u16
  client_uuid :: bytes
  file_name :: bytes
  offer :: offer_fields
  chunk_req :: chunk_req_fields
  chunk_data :: chunk_data_fields

text \<open>
  A new \<open>Message\<close>: strings and vectors are empty.  The scalar members have no initializer in
  the sources; they are zero here and \<open>payload_relevant\<close> below shows that the serializer never
  reads one that was not set for the message's type.
\<close>

definition message_init :: message where
  "message_init =
     \<lparr>msg_type = 0, msg_len = 0, seq_number = 0, client_uuid = replicate UUID_SIZE 0,
      file_name = [],
      offer = \<lparr>offer_file_size = 0, offer_file_n_chunks = 0, offer_file_hash = []\<rparr>,
      chunk_req = \<lparr>chunk_idx_first = 0, chunk_idx_last = 0\<rparr>,
      chunk_data = \<lparr>cdata_idx = 0, cdata_data = [], cdata_hash = []\<rparr>\<rparr>"

section \<open>Byte order helpers\<close>

fun getU32 :: "bytes \<Rightarrow> (u32 \<times> bytes) result" where
  "getU32 (b0 # b1 # b2 # b3 # it) =
     (let ret = 0;
          ret = ret OR (push_bit 24 (ucast b0) AND 0xff000000);
          ret = ret OR (push_bit 16 (ucast b1) AND 0x00ff0000);
          ret = ret OR (push_bit 8 (ucast b2) AND 0x0000ff00);
          ret = ret OR (ucast b3 AND 0x000000ff)
      in Inr (ret, it))"
| "getU32 _ = Inl Undefined"

fun getU16 :: "bytes \<Rightarrow> (u16 \<times> bytes) result" where
  "getU16 (b0 # b1 # it) =
     (let ret = 0;
          ret = ret OR (push_bit 8 (ucast b0) AND 0xff00);
          ret = ret OR (ucast b1 AND 0x00ff)
      in Inr (ret, it))"
| "getU16 _ = Inl Undefined"

definition putU32 :: "u32 \<Rightarrow> bytes" where
  "putU32 val =
     [ucast (drop_bit 24 val AND 0xff), ucast (drop_bit 16 val AND 0xff),
      ucast (drop_bit 8 val AND 0xff), ucast (val AND 0xff)]"

definition putU16 :: "u16 \<Rightarrow> bytes" where
  "putU16 val = [ucast (drop_bit 8 val AND 0xff), ucast (val AND 0xff)]"

text \<open>Reading one byte, and \<open>std::copy_n\<close> followed by \<open>std::advance\<close>.\<close>

fun getU8 :: "bytes \<Rightarrow> (byte \<times> bytes) result" where
  "getU8 (b # it) = Inr (b, it)"
| "getU8 [] = Inl Undefined"

definition copy_n :: "nat \<Rightarrow> bytes \<Rightarrow> (bytes \<times> bytes) result" where
  "copy_n n it = (if n \<le> length it then Inr (take n it, drop n it) else Inl Undefined)"

section \<open>Parsing\<close>

text \<open>The type-dependent part of the constructor (its \<open>switch\<close>).\<close>

definition parse_body :: "message \<Rightarrow> bytes \<Rightarrow> message result" where
  "parse_body m it =
     (if msg_type m = MSGTYPE_FILE_OFFER then
        rbind (getU32 it) (\<lambda>(sz, it).
        rbind (getU32 it) (\<lambda>(nch, it).
        rbind (copy_n HASH_SIZE it) (\<lambda>(h, it).
          Inr (m\<lparr>offer := \<lparr>offer_file_size = sz, offer_file_n_chunks = nch,
                          offer_file_hash = h\<rparr>\<rparr>))))
      else if msg_type m = MSGTYPE_FILE_CHUNK_REQ then
        rbind (getU32 it) (\<lambda>(first, it).
        rbind (getU32 it) (\<lambda>(last, it).
          Inr (m\<lparr>chunk_req := \<lparr>chunk_idx_first = first, chunk_idx_last = last\<rparr>\<rparr>)))
      else if msg_type m = MSGTYPE_FILE_CHUNK_DATA then
        rbind (getU32 it) (\<lambda>(i, it).
        rbind (getU16 it) (\<lambda>(chunk_len, it).
        rbind (copy_n (unat chunk_len) it) (\<lambda>(d, it).
          Inr (m\<lparr>chunk_data := \<lparr>cdata_idx = i, cdata_data = d,
                               cdata_hash = replicate CHUNK_HASH_SIZE 0\<rparr>\<rparr>))))
      else if msg_type m = MSGTYPE_FILE_COMPLETE then Inr m
      else Inl (Runtime_error ''Not supported Msg Type''))"

definition Message_parse :: "bytes \<Rightarrow> message result" where
  "Message_parse buf =
     rbind (getU32 buf) (\<lambda>(ty, it).
     rbind (getU16 it) (\<lambda>(len, it).
     rbind (getU16 it) (\<lambda>(sq, it).
     rbind (copy_n UUID_SIZE it) (\<lambda>(uuid, it).
     rbind (getU8 it) (\<lambda>(file_name_len, it).
     rbind (copy_n (unat file_name_len) it) (\<lambda>(name, it).
       parse_body
         (message_init\<lparr>msg_type := ty, msg_len := len, seq_number := sq,
                       client_uuid := uuid, file_name := name\<rparr>) it))))))"

section \<open>Serializing\<close>

text \<open>The type-dependent fields, then the contents after the length field (\<open>tmpbuf\<close>).\<close>

definition body_fields :: "message \<Rightarrow> bytes result" where
  "body_fields m =
     (if msg_type m = MSGTYPE_FILE_OFFER then
        (if length (offer_file_hash (offer m)) < HASH_SIZE then Inl Undefined
         else Inr (putU32 (offer_file_size (offer m)) @ putU32 (offer_file_n_chunks (offer m)) @
                   take HASH_SIZE (offer_file_hash (offer m))))
      else if msg_type m = MSGTYPE_FILE_CHUNK_REQ then
        Inr (putU32 (chunk_idx_first (chunk_req m)) @ putU32 (chunk_idx_last (chunk_req m)))
      else if msg_type m = MSGTYPE_FILE_CHUNK_DATA then
        (if length (cdata_data (chunk_data m)) > unat MAX_MSG_PAYLOAD_SIZE
            \<or> length (cdata_data (chunk_data m)) = 0
         then Inl (Length_error ''Invalid chunk length'')
         else Inr (putU32 (cdata_idx (chunk_data m)) @
                   putU16 (word_of_nat (length (cdata_data (chunk_data m)))) @
                   cdata_data (chunk_data m)))
      else if msg_type m = MSGTYPE_FILE_COMPLETE then Inr []
      else Inl (Invalid_argument ''Invalid MessageType''))"

definition payload :: "message \<Rightarrow> bytes result" where
  "payload m =
     (let filename_len = (if length (file_name m) < UINT8_MAX then length (file_name m)
                          else UINT8_MAX)
      in rbind (body_fields m) (\<lambda>body.
           Inr (putU16 (seq_number m) @ client_uuid m @ [word_of_nat filename_len] @
                take filename_len (file_name m) @ body)))"

definition serialize :: "message \<Rightarrow> bytes \<Rightarrow> bytes result" where
  "serialize m out =
     rbind (payload m) (\<lambda>tmpbuf.
       Inr (out @ putU32 (msg_type m) @ putU16 (word_of_nat (length tmpbuf)) @ tmpbuf))"

section \<open>The number codecs\<close>

text \<open>
  What the message code relies on in each pair of helpers: reading returns what was written
  and leaves the iterator right behind it, a value always takes the same number of bytes, and
  only what the writer produces is read as that value.
\<close>

locale wire_codec =
  fixes put :: "'v \<Rightarrow> bytes"
    and get :: "bytes \<Rightarrow> ('v \<times> bytes) result"
    and width :: nat
  assumes get_put: "get (put v @ rest) = Inr (v, rest)"
    and put_get: "get bs = Inr (v, rest) \<Longrightarrow> bs = put v @ rest"
    and length_put: "length (put v) = width"
    and get_total: "width \<le> length bs \<Longrightarrow> \<exists>v rest. get bs = Inr (v, rest)"
    and get_fails: "get bs = Inl e \<Longrightarrow> e = Undefined"
begin

lemma put_inj: "put v = put w \<Longrightarrow> v = w"
  using get_put [of v "[]"] get_put [of w "[]"] by simp

lemma get_put_end: "get (put v) = Inr (v, [])"
  using get_put [of v "[]"] by simp

lemma get_consumes: "get bs = Inr (v, rest) \<Longrightarrow> length bs = width + length rest"
  using put_get length_put by fastforce

lemma get_short: "length bs < width \<Longrightarrow> get bs = Inl Undefined"
proof (cases "get bs")
  case (Inr r)
  moreover assume "length bs < width"
  ultimately show ?thesis using get_consumes [of bs "fst r" "snd r"] by simp
qed (simp add: get_fails)

lemma get_Inl_iff: "get bs = Inl e \<longleftrightarrow> e = Undefined \<and> length bs < width"
  using get_short get_total get_fails by (metis Inl_Inr_False not_le)

end

lemma nat_octets:
  fixes n :: nat
  assumes "n < 32"
  obtains "n < 8" | "8 \<le> n" "n < 16" | "16 \<le> n" "n < 24" | "24 \<le> n" "n < 32"
  using assms by fastforce

lemma getU32_putU32: "getU32 (putU32 v @ rest) = Inr (v, rest)"
proof -
  have "(((0 OR push_bit 24 (ucast (ucast (drop_bit 24 v AND mask 8) :: byte)) AND push_bit 24 (mask 8)) OR
      push_bit 16 (ucast (ucast (drop_bit 16 v AND mask 8) :: byte)) AND push_bit 16 (mask 8)) OR
      push_bit 8 (ucast (ucast (drop_bit 8 v AND mask 8) :: byte)) AND push_bit 8 (mask 8)) OR
      (ucast (ucast (v AND mask 8) :: byte) AND mask 8) = v" (is "?w = v")
  proof (rule bit_word_eqI)
    fix n assume "n < LENGTH(32)"
    then have "n < 32" by simp
    then show "bit ?w n = bit v n"
      by (cases rule: nat_octets) (simp_all add: bit_simps less_diff_conv2)
  qed
  then show ?thesis by (simp add: putU32_def Let_def byte_simps)
qed

lemma getU16_putU16: "getU16 (putU16 v @ rest) = Inr (v, rest)"
proof -
  have "(0 OR push_bit 8 (ucast (ucast (drop_bit 8 v AND mask 8) :: byte)) AND push_bit 8 (mask 8)) OR
      (ucast (ucast (v AND mask 8) :: byte) AND mask 8) = v" (is "?w = v")
  proof (rule bit_word_eqI)
    fix n assume "n < LENGTH(16)"
    then show "bit ?w n = bit v n"
      by (cases "n < 8") (simp_all add: bit_simps less_diff_conv2)
  qed
  then show ?thesis by (simp add: putU16_def Let_def byte_simps)
qed

lemma putU32_getU32:
  assumes "getU32 bs = Inr (v, rest)"
  shows "bs = putU32 v @ rest"
proof -
  obtain b0 b1 b2 b3 where bs: "bs = b0 # b1 # b2 # b3 # rest"
    using assms by (cases bs rule: getU32.cases) (auto simp: Let_def)
  have v: "v = (((0 OR push_bit 24 (ucast b0) AND push_bit 24 (mask 8)) OR
      push_bit 16 (ucast b1) AND push_bit 16 (mask 8)) OR
      push_bit 8 (ucast b2) AND push_bit 8 (mask 8)) OR (ucast b3 AND mask 8)"
    using assms by (simp add: bs Let_def byte_simps)
  have "ucast (drop_bit 24 v AND mask 8) = b0" unfolding v
    by (rule bit_word_eqI) (auto simp: bit_simps)
  moreover have "ucast (drop_bit 16 v AND mask 8) = b1" unfolding v
    by (rule bit_word_eqI) (auto simp: bit_simps)
  moreover have "ucast (drop_bit 8 v AND mask 8) = b2" unfolding v
    by (rule bit_word_eqI) (auto simp: bit_simps)
  moreover have "ucast (v AND mask 8) = b3" unfolding v
    by (rule bit_word_eqI) (auto simp: bit_simps)
  ultimately show ?thesis by (simp add: bs putU32_def byte_simps)
qed

lemma putU16_getU16:
  assumes "getU16 bs = Inr (v, rest)"
  shows "bs = putU16 v @ rest"
proof -
  obtain b0 b1 where bs: "bs = b0 # b1 # rest"
    using assms by (cases bs rule: getU16.cases) (auto simp: Let_def)
  have v: "v = (0 OR push_bit 8 (ucast b0) AND push_bit 8 (mask 8)) OR (ucast b1 AND mask 8)"
    using assms by (simp add: bs Let_def byte_simps)
  have "ucast (drop_bit 8 v AND mask 8) = b0" unfolding v
    by (rule bit_word_eqI) (auto simp: bit_simps)
  moreover have "ucast (v AND mask 8) = b1" unfolding v
    by (rule bit_word_eqI) (auto simp: bit_simps)
  ultimately show ?thesis by (simp add: bs putU16_def byte_simps)
qed

interpretation codec32: wire_codec putU32 getU32 4
proof
  show "getU32 bs = Inl e \<Longrightarrow> e = Undefined" for bs e
    by (cases bs rule: getU32.cases) (auto simp: Let_def)
  show "4 \<le> length bs \<Longrightarrow> \<exists>v rest. getU32 bs = Inr (v, rest)" for bs
    by (cases bs rule: getU32.cases) (auto simp: Let_def)
  show "length (putU32 v) = 4" for v by (simp add: putU32_def)
qed (simp_all only: getU32_putU32 putU32_getU32)

interpretation codec16: wire_codec putU16 getU16 2
proof
  show "getU16 bs = Inl e \<Longrightarrow> e = Undefined" for bs e
    by (cases bs rule: getU16.cases) (auto simp: Let_def)
  show "2 \<le> length bs \<Longrightarrow> \<exists>v rest. getU16 bs = Inr (v, rest)" for bs
    by (cases bs rule: getU16.cases) (auto simp: Let_def)
  show "length (putU16 v) = 2" for v by (simp add: putU16_def)
qed (simp_all only: getU16_putU16 putU16_getU16)

interpretation codec8: wire_codec "\<lambda>b. [b]" getU8 1
proof
  show "getU8 bs = Inl e \<Longrightarrow> e = Undefined" for bs e by (cases bs) auto
  show "1 \<le> length bs \<Longrightarrow> \<exists>v rest. getU8 bs = Inr (v, rest)" for bs by (cases bs) auto
  show "getU8 bs = Inr (v, rest) \<Longrightarrow> bs = [v] @ rest" for bs v rest by (cases bs) auto
qed simp_all

lemma copy_n_append [wire_simps]: "length xs = n \<Longrightarrow> copy_n n (xs @ rest) = Inr (xs, rest)"
  by (simp add: copy_n_def)

lemma copy_n_Inr: "copy_n n it = Inr (xs, rest) \<longleftrightarrow> it = xs @ rest \<and> length xs = n"
  by (auto simp: copy_n_def)

lemma copy_n_short: "length it < n \<Longrightarrow> copy_n n it = Inl Undefined"
  by (simp add: copy_n_def)

lemmas put_lengths = codec32.length_put codec16.length_put
lemmas codec_gets = codec32.get_put codec16.get_put codec32.get_put_end codec16.get_put_end
declare codec_gets [wire_simps]

section \<open>What the receiver sees\<close>

text \<open>
  The message that arrives at the other end: the fields of the message's own type, the file
  name cut to 255 bytes, everything else as in a new message.
\<close>

definition typed_fields :: "message \<Rightarrow> message \<Rightarrow> message" where
  "typed_fields m m0 =
     (if msg_type m = MSGTYPE_FILE_OFFER then
        m0\<lparr>offer := (offer m)\<lparr>offer_file_hash := take HASH_SIZE (offer_file_hash (offer m))\<rparr>\<rparr>
      else if msg_type m = MSGTYPE_FILE_CHUNK_REQ then m0\<lparr>chunk_req := chunk_req m\<rparr>
      else if msg_type m = MSGTYPE_FILE_CHUNK_DATA then
        m0\<lparr>chunk_data := (chunk_data m)\<lparr>cdata_hash := replicate CHUNK_HASH_SIZE 0\<rparr>\<rparr>
      else m0)"

definition wire_view :: "message \<Rightarrow> u16 \<Rightarrow> message" where
  "wire_view m len =
     typed_fields m (message_init\<lparr>msg_type := msg_type m, msg_len := len,
       seq_number := seq_number m, client_uuid := client_uuid m,
       file_name := take UINT8_MAX (file_name m)\<rparr>)"

lemma payload_eq:
  "payload m = rbind (body_fields m) (\<lambda>body.
     Inr (putU16 (seq_number m) @ client_uuid m @
          [word_of_nat (length (take UINT8_MAX (file_name m)))] @
          take UINT8_MAX (file_name m) @ body))"
  by (cases "length (file_name m) < UINT8_MAX") (simp_all add: payload_def min_absorb2 min_absorb1)

lemma parse_body_fields:
  assumes "body_fields m = Inr body" and "msg_type m0 = msg_type m"
  shows "parse_body m0 (body @ rest) = Inr (typed_fields m m0)"
  using assms
  by (auto simp: body_fields_def parse_body_def typed_fields_def wire_simps HASH_SIZE_def
      split: if_splits)

lemma body_fields_length:
  "body_fields m = Inr body \<Longrightarrow> length body \<le> 3974"
  by (auto simp: body_fields_def put_lengths HASH_SIZE_def split: if_splits)

lemma payload_length:
  assumes "payload m = Inr p" and "length (client_uuid m) = UUID_SIZE"
  shows "19 \<le> length p" and "length p \<le> 3993 + length (take UINT8_MAX (file_name m))"
    and "length p < 2 ^ 16"
  using assms body_fields_length [of m]
  by (auto simp: payload_eq rbind_Inr_iff put_lengths)

lemma serialize_eq:
  "serialize m out = Inr buf \<longleftrightarrow>
     (\<exists>p. payload m = Inr p \<and> buf = out @ putU32 (msg_type m) @ putU16 (word_of_nat (length p)) @ p)"
  by (auto simp: serialize_def rbind_Inr_iff)

lemma parse_serialize_view:
  assumes "serialize m [] = Inr buf" and "length (client_uuid m) = UUID_SIZE"
  shows "Message_parse (buf @ rest) = Inr (wire_view m (word_of_nat (length buf - 6)))"
proof -
  obtain body where body: "body_fields m = Inr body"
    and buf: "buf = putU32 (msg_type m) @ putU16 (word_of_nat (length buf - 6)) @
      putU16 (seq_number m) @ client_uuid m @
      [word_of_nat (length (take UINT8_MAX (file_name m)))] @ take UINT8_MAX (file_name m) @ body"
    using assms(1) by (auto simp: serialize_eq payload_eq rbind_Inr_iff put_lengths)
  have "length (take UINT8_MAX (file_name m)) < 256" by simp
  then have len: "unat (word_of_nat (length (take UINT8_MAX (file_name m))) :: byte) =
      length (take UINT8_MAX (file_name m))" by (rule unat_of_nat_simps(1))
  show ?thesis
    by (subst buf)
      (simp add: Message_parse_def wire_view_def wire_simps assms(2) len
        parse_body_fields [OF body] del: length_take)
qed

text \<open>Which fields \<open>serialize\<close> reads: only the common ones and those of the message's type.\<close>

lemma payload_relevant:
  assumes "msg_type m = msg_type m'" "seq_number m = seq_number m'"
    "client_uuid m = client_uuid m'" "file_name m = file_name m'"
    and "msg_type m = MSGTYPE_FILE_OFFER \<Longrightarrow> offer m = offer m'"
    and "msg_type m = MSGTYPE_FILE_CHUNK_REQ \<Longrightarrow> chunk_req m = chunk_req m'"
    and "msg_type m = MSGTYPE_FILE_CHUNK_DATA \<Longrightarrow> chunk_data m = chunk_data m'"
  shows "payload m = payload m'"
  using assms by (simp add: payload_def body_fields_def)

section \<open>What a buffer demands\<close>

text \<open>
  How many bytes the parser reads from a buffer: the 25 bytes of the common header, the file
  name, and what the type asks for (a data message carries its own length).
\<close>

definition body_demand :: "u32 \<Rightarrow> bytes \<Rightarrow> nat" where
  "body_demand ty it =
     (if ty = MSGTYPE_FILE_OFFER then 8 + HASH_SIZE
      else if ty = MSGTYPE_FILE_CHUNK_REQ then 8
      else if ty = MSGTYPE_FILE_CHUNK_DATA then
        (case getU16 (drop 4 it) of Inl _ \<Rightarrow> 6 | Inr (n, _) \<Rightarrow> 6 + unat n)
      else 0)"

definition wire_demand :: "bytes \<Rightarrow> nat" where
  "wire_demand buf =
     (if length buf < 25 then 25
      else 25 + unat (buf ! 24) +
        body_demand (case getU32 buf of Inr (ty, _) \<Rightarrow> ty | Inl _ \<Rightarrow> 0)
          (drop (25 + unat (buf ! 24)) buf))"

lemma rbind_Inl_iff: "rbind r f = Inl e \<longleftrightarrow> r = Inl e \<or> (\<exists>x. r = Inr x \<and> f x = Inl e)"
  by (cases r) simp_all

lemma getU32_split:
  obtains "length it < 4" "getU32 it = Inl Undefined"
  | v rest where "it = putU32 v @ rest" "getU32 it = Inr (v, rest)"
  using codec32.get_short codec32.get_total codec32.put_get by (metis not_le)

lemma getU16_split:
  obtains "length it < 2" "getU16 it = Inl Undefined"
  | v rest where "it = putU16 v @ rest" "getU16 it = Inr (v, rest)"
  using codec16.get_short codec16.get_total codec16.put_get by (metis not_le)

lemma parse_body_undefined:
  "parse_body m it = Inl Undefined \<longleftrightarrow> length it < body_demand (msg_type m) it"
proof (cases rule: getU32_split [of it])
  case 1
  then have "getU16 (drop 4 it) = Inl Undefined" by simp
  with 1 show ?thesis by (simp add: parse_body_def body_demand_def HASH_SIZE_def)
next
  case (2 v rest)
  then have drop: "drop 4 it = rest" and len: "length it = 4 + length rest"
    by (simp_all add: codec32.length_put)
  show ?thesis
  proof (cases "msg_type m = MSGTYPE_FILE_CHUNK_DATA")
    case True
    then show ?thesis
      unfolding parse_body_def body_demand_def drop 2(2) len
      by (cases rule: getU16_split [of rest]) (simp_all add: copy_n_def codec16.length_put)
  next
    case False
    then show ?thesis
      unfolding parse_body_def body_demand_def drop 2(2) len
      by (cases rule: getU32_split [of rest])
        (simp_all add: copy_n_def codec32.length_put HASH_SIZE_def)
  qed
qed

text \<open>The common header of a buffer, and the parser past it.\<close>

definition header_bytes :: "u32 \<Rightarrow> u16 \<Rightarrow> u16 \<Rightarrow> bytes \<Rightarrow> byte \<Rightarrow> bytes" where
  "header_bytes ty len sq uuid nl = putU32 ty @ putU16 len @ putU16 sq @ uuid @ [nl]"

lemma header_bytes_length: "length uuid = UUID_SIZE \<Longrightarrow> length (header_bytes ty len sq uuid nl) = 25"
  by (simp add: header_bytes_def put_lengths)

lemma parse_header:
  assumes "length uuid = UUID_SIZE"
  shows "Message_parse (header_bytes ty len sq uuid nl @ it) =
    rbind (copy_n (unat nl) it) (\<lambda>(name, it).
      parse_body (message_init\<lparr>msg_type := ty, msg_len := len, seq_number := sq,
        client_uuid := uuid, file_name := name\<rparr>) it)"
  using assms by (simp add: Message_parse_def header_bytes_def wire_simps)

lemma header_split:
  obtains "length buf < 25" "Message_parse buf = Inl Undefined"
  | ty len sq uuid nl it where "buf = header_bytes ty len sq uuid nl @ it"
      "length uuid = UUID_SIZE"
proof (cases rule: getU32_split [of buf])
  case 1
  then show thesis using that(1) by (simp add: Message_parse_def)
next
  case (2 ty r1)
  note ty = this
  show thesis
  proof (cases rule: getU16_split [of r1])
    case 1
    then show thesis using that(1) ty by (simp add: Message_parse_def put_lengths)
  next
    case (2 len r2)
    note len = this
    show thesis
    proof (cases rule: getU16_split [of r2])
      case 1
      then show thesis using that(1) ty len by (simp add: Message_parse_def put_lengths)
    next
      case (2 sq r3)
      show thesis
      proof (cases "17 \<le> length r3")
        case True
        then have "drop 16 r3 \<noteq> []" by simp
        then obtain nl it where "drop 16 r3 = nl # it" by (meson neq_Nil_conv)
        then have "r3 = take 16 r3 @ nl # it" by (metis append_take_drop_id)
        then have "buf = header_bytes ty len sq (take 16 r3) nl @ it"
          using ty(1) len(1) 2(1) by (simp add: header_bytes_def)
        then show thesis using True that(2) by simp
      next
        case False
        then have "Message_parse buf = Inl Undefined"
          using ty len 2 by (cases "16 \<le> length r3") (simp_all add: Message_parse_def copy_n_def)
        then show thesis using False that(1) ty(1) len(1) 2(1) by (simp add: put_lengths)
      qed
    qed
  qed
qed

lemma parse_undefined_iff: "Message_parse buf = Inl Undefined \<longleftrightarrow> length buf < wire_demand buf"
proof (cases rule: header_split [of buf])
  case 1
  then show ?thesis by (simp add: wire_demand_def)
next
  case (2 ty len sq uuid nl it)
  have at: "buf ! 24 = nl" and rest: "drop 25 buf = it" and ge: "length buf = 25 + length it"
    using 2 header_bytes_length [OF 2(2), of ty len sq nl]
    by (simp_all add: nth_append) (simp add: header_bytes_def nth_append put_lengths)
  have ty: "getU32 buf = Inr (ty, drop 4 buf)"
    by (simp add: 2 header_bytes_def wire_simps put_lengths)
  have "drop (25 + unat nl) buf = drop (unat nl) it"
    using rest by (metis drop_drop add.commute)
  then have dem: "wire_demand buf = 25 + unat nl + body_demand ty (drop (unat nl) it)"
    using ge ty at by (simp add: wire_demand_def)
  show ?thesis
  proof (cases "unat nl \<le> length it")
    case True
    then show ?thesis
      using ge dem
      by (simp add: 2(1) parse_header [OF 2(2)] copy_n_def parse_body_undefined)
        (use True ge in \<open>auto simp: 2(1) dem\<close>)
  next
    case False
    then show ?thesis using ge dem by (simp add: 2(1) parse_header [OF 2(2)] copy_n_def)
  qed
qed

section \<open>Serializing what was parsed\<close>

text \<open>
  The data lengths the serializer accepts.  Only the data message is affected: the parser
  accepts a chunk of any 16-bit length.
\<close>

definition sendable :: "message \<Rightarrow> bool" where
  "sendable m \<longleftrightarrow>
     (msg_type m = MSGTYPE_FILE_CHUNK_DATA \<longrightarrow>
        0 < length (cdata_data (chunk_data m)) \<and> length (cdata_data (chunk_data m)) \<le> 3968)"

lemma parse_body_keeps:
  "parse_body m0 it = Inr m \<Longrightarrow>
     msg_type m = msg_type m0 \<and> msg_len m = msg_len m0 \<and> seq_number m = seq_number m0 \<and>
     client_uuid m = client_uuid m0 \<and> file_name m = file_name m0"
  by (auto simp: parse_body_def rbind_Inr_iff split: if_splits)

lemma copy_n_all: "copy_n (unat (n :: u16)) r = Inr (d, []) \<Longrightarrow> d = r \<and> word_of_nat (length r) = n"
  by (auto simp: copy_n_def split: if_splits)

lemma parse_body_inv:
  assumes "parse_body m0 it = Inr m" and "length it = body_demand (msg_type m0) it"
    and "sendable m"
  shows "body_fields m = Inr it"
proof (cases "msg_type m0 = MSGTYPE_FILE_CHUNK_DATA")
  case True
  obtain i r n d where m: "m = m0\<lparr>chunk_data := \<lparr>cdata_idx = i, cdata_data = d,
      cdata_hash = replicate CHUNK_HASH_SIZE 0\<rparr>\<rparr>"
    and it: "it = putU32 i @ putU16 n @ r" and d: "d = take (unat n) r"
    using assms(1) True
    by (auto simp: parse_body_def rbind_Inr_iff copy_n_def split: if_splits
        dest!: codec32.put_get codec16.put_get)
  have "length r = unat n"
    using assms(2) True by (simp add: it body_demand_def put_lengths wire_simps)
  with d have "d = r" and "word_of_nat (length d) = n" by simp_all
  then show ?thesis
    using assms(3) True by (simp add: m it body_fields_def sendable_def)
next
  case False
  show ?thesis
  proof (cases "msg_type m0 = MSGTYPE_FILE_COMPLETE")
    case True
    then show ?thesis using assms by (simp add: parse_body_def body_fields_def body_demand_def)
  next
    case not_complete: False
    obtain a r b d where "getU32 it = Inr (a, r)" and "getU32 r = Inr (b, d)"
      using assms(1) False not_complete
      by (auto simp: parse_body_def rbind_Inr_iff split: if_splits)
    then have it: "it = putU32 a @ putU32 b @ d" using codec32.put_get by blast
    show ?thesis
    proof (cases "msg_type m0 = MSGTYPE_FILE_OFFER")
      case True
      then have "length d = 64"
        using assms(2) by (simp add: it body_demand_def put_lengths HASH_SIZE_def)
      then have "m = m0\<lparr>offer := \<lparr>offer_file_size = a, offer_file_n_chunks = b,
          offer_file_hash = d\<rparr>\<rparr>"
        using assms(1) True by (simp add: parse_body_def it wire_simps copy_n_def HASH_SIZE_def)
      then show ?thesis using True \<open>length d = 64\<close> by (simp add: it body_fields_def HASH_SIZE_def)
    next
      case not_offer: False
      then have req: "msg_type m0 = MSGTYPE_FILE_CHUNK_REQ"
        using assms(1) False not_complete by (simp add: parse_body_def split: if_splits)
      then have "d = []" using assms(2) by (simp add: it body_demand_def put_lengths)
      then show ?thesis
        using assms(1) req by (auto simp: parse_body_def it wire_simps body_fields_def)
    qed
  qed
qed

lemma serialize_parse_exact:
  assumes parse: "Message_parse buf = Inr m"
    and exact: "length buf = wire_demand buf"
    and len: "length buf = 6 + unat (msg_len m)"
    and "sendable m"
  shows "serialize m [] = Inr buf"
proof (cases rule: header_split [of buf])
  case 1
  with parse show ?thesis by simp
next
  case (2 ty len sq uuid nl it)
  let ?m0 = "\<lambda>name. message_init\<lparr>msg_type := ty, msg_len := len, seq_number := sq,
    client_uuid := uuid, file_name := name\<rparr>"
  obtain name r where it: "it = name @ r" "length name = unat nl"
    and body: "parse_body (?m0 name) r = Inr m"
    using parse by (auto simp: 2(1) parse_header [OF 2(2)] rbind_Inr_iff copy_n_Inr)
  note keeps = parse_body_keeps [OF body]
  have at: "buf ! 24 = nl"
    using 2(2) by (simp add: 2(1) header_bytes_def nth_append put_lengths)
  have ty: "getU32 buf = Inr (ty, drop 4 buf)"
    by (simp add: 2 header_bytes_def wire_simps put_lengths)
  have total: "length buf = 25 + unat nl + length r"
    using it by (simp add: 2(1) header_bytes_length [OF 2(2)])
  moreover have "drop (25 + unat nl) buf = r"
    using it by (simp add: 2(1) header_bytes_length [OF 2(2)])
  ultimately have "wire_demand buf = 25 + unat nl + body_demand ty r"
    using at ty by (simp add: wire_demand_def)
  with exact total have "length r = body_demand (msg_type (?m0 name)) r" by simp
  with body have fields: "body_fields m = Inr r"
    using assms(4) by (rule parse_body_inv)
  have short: "length name < 256" using it(2) unat_bounds(1) [of nl] by simp
  then have "payload m = Inr (putU16 sq @ uuid @ [nl] @ name @ r)"
    using keeps it(2) by (simp add: payload_eq fields)
  moreover have "word_of_nat (length (putU16 sq @ uuid @ [nl] @ name @ r)) = len"
  proof -
    have "length (putU16 sq @ uuid @ [nl] @ name @ r) = unat len"
      using assms(3) keeps 2(2) it by (simp add: 2(1) header_bytes_def put_lengths)
    then show ?thesis by simp
  qed
  ultimately show ?thesis
    using keeps it by (simp add: serialize_eq 2(1) header_bytes_def)
qed

section \<open>Properties of the messages\<close>

text \<open>
  C6.  Parsing a serialized message, whatever follows it in the buffer, gives the message back:
  its type, sequence number, client, file name (cut to 255 bytes) and the fields of its type,
  with the payload length filled in.
\<close>

theorem parse_serialize:
  assumes "serialize m [] = Inr buf" and "length (client_uuid m) = UUID_SIZE"
  shows "Message_parse (buf @ rest) =
    Inr (typed_fields m (message_init\<lparr>msg_type := msg_type m, msg_len := word_of_nat (length buf - 6),
      seq_number := seq_number m, client_uuid := client_uuid m,
      file_name := take UINT8_MAX (file_name m)\<rparr>))"
  using parse_serialize_view [OF assms] by (simp add: wire_view_def)

definition sample_req :: message where
  "sample_req = message_init\<lparr>msg_type := MSGTYPE_FILE_CHUNK_REQ, seq_number := 7, file_name := [97, 98],
     chunk_req := \<lparr>chunk_idx_first = 3, chunk_idx_last = 9\<rparr>\<rparr>"

definition sample_frame :: bytes where
  "sample_frame = [0x87, 0xFE, 0x77, 2, 0, 29, 0, 7] @ replicate 16 0 @ [2, 97, 98, 0, 0, 0, 3, 0, 0, 0, 9]"

lemma sample_serialized: "serialize sample_req [] = Inr sample_frame"
  by (simp add: serialize_def payload_def body_fields_def sample_req_def message_init_def
      sample_frame_def putU32_def putU16_def msgtype_values)

lemma sample_uuid: "length (client_uuid sample_req) = UUID_SIZE"
  by (simp add: sample_req_def message_init_def)

theorem parse_serialize_witness:
  "Message_parse (sample_frame @ [1, 2, 3]) =
    Inr (typed_fields sample_req (message_init\<lparr>msg_type := msg_type sample_req,
      msg_len := word_of_nat (length sample_frame - 6), seq_number := seq_number sample_req,
      client_uuid := client_uuid sample_req, file_name := take UINT8_MAX (file_name sample_req)\<rparr>))"
  by (rule parse_serialize [OF sample_serialized sample_uuid])

text \<open>
  C22.  Conversely, a buffer that is parsed, that is exactly as long as its contents demand and
  as its length field says, and whose data length the serializer accepts, is reproduced byte by
  byte by serializing the parsed message.
\<close>

theorem serialize_parse:
  assumes "Message_parse buf = Inr m" and "length buf = wire_demand buf"
    and "length buf = 6 + unat (msg_len m)" and "sendable m"
  shows "serialize m [] = Inr buf"
  using assms by (rule serialize_parse_exact)

lemma sample_parsed: "Message_parse sample_frame = Inr (wire_view sample_req 29)"
  using parse_serialize_view [OF sample_serialized sample_uuid, of "[]"] by (simp add: sample_frame_def)

theorem serialize_parse_witness: "serialize (wire_view sample_req 29) [] = Inr sample_frame"
proof (rule serialize_parse [OF sample_parsed])
  show "length sample_frame = wire_demand sample_frame"
    by (simp add: wire_demand_def sample_frame_def body_demand_def Let_def nth_append msgtype_values)
  show "length sample_frame = 6 + unat (msg_len (wire_view sample_req 29))"
    by (simp add: sample_frame_def wire_view_def typed_fields_def sample_req_def)
  show "sendable (wire_view sample_req 29)"
    by (simp add: sendable_def wire_view_def typed_fields_def sample_req_def)
qed


text \<open>
  A serialized message has at least 25 bytes and at most 3999 plus the (cut) file name:
  it fits \<open>MAX_MSG_SIZE\<close> when the name has at most 97 bytes, and its 16-bit length field never
  wraps.
\<close>

theorem frame_bounds:
  assumes "serialize m [] = Inr buf" and "length (client_uuid m) = UUID_SIZE"
  shows "25 \<le> length buf \<and> length buf \<le> 3999 + min (length (file_name m)) UINT8_MAX \<and>
    (length (file_name m) \<le> 97 \<longrightarrow> length buf \<le> unat MAX_MSG_SIZE) \<and>
    getU16 (drop 4 buf) = Inr (word_of_nat (length buf - 6), drop 6 buf) \<and> length buf - 6 < 2 ^ 16"
proof -
  obtain p where p: "payload m = Inr p"
    and buf: "buf = putU32 (msg_type m) @ putU16 (word_of_nat (length p)) @ p"
    using assms(1) by (auto simp: serialize_eq)
  note len = payload_length [OF p assms(2)]
  show ?thesis
    using len by (auto simp: buf put_lengths wire_simps MAX_MSG_SIZE_def)
qed

theorem frame_bounds_witness:
  "25 \<le> length sample_frame \<and> length sample_frame \<le> 3999 + min (length (file_name sample_req)) UINT8_MAX \<and>
    length (file_name sample_req) \<le> 97 \<and> length sample_frame \<le> unat MAX_MSG_SIZE \<and>
    getU16 (drop 4 sample_frame) = Inr (word_of_nat (length sample_frame - 6), drop 6 sample_frame) \<and>
    length sample_frame - 6 < 2 ^ 16"
proof -
  have "length (file_name sample_req) \<le> 97" by (simp add: sample_req_def)
  with frame_bounds [OF sample_serialized sample_uuid] show ?thesis by blast
qed

end
