(* ===== verification/FT_Req_Brkr.thy ===== *)
theory FT_Req_Brkr
  imports FT_Msg
begin

text \<open>
  Requests and the request broker of \<open>src/request/ft_req.hpp\<close>, \<open>src/request/ft_req_brkr.hpp\<close>
  and \<open>src/request/ft_req_brkr.cpp\<close>: a queue behind one mutex and one condition variable, and
  worker threads that take requests from its front until the termination flag is set.  The
  threads interleave freely: a step relation has one rule per atomic action of a thread.  The
  invariants show mutual exclusion, that requests are taken in the order they were queued and
  each exactly once, and that no wake-up is lost; after \<open>stopWorkers\<close> every worker ends.
\<close>

section \<open>Requests\<close>

text \<open>A request carries a weak pointer to its connection (here a connection id).\<close>

record request =
  req_connection :: nat
  req_message :: message

text \<open>\<open>getConnection\<close> locks the weak pointer: null once the connection is gone.\<close>

definition getConnection :: "nat set \<Rightarrow> request \<Rightarrow> nat option" where
  "getConnection alive r = (if req_connection r \<in> alive then Some (req_connection r) else None)"

definition getMessage :: "request \<Rightarrow> message" where
  "getMessage r = req_message r"

section \<open>The broker and its threads\<close>

text \<open>
  Where a worker is in \<open>RequestBrokerWorker::run\<close>: about to test the flag of the outer loop,
  acquiring the mutex, inside the critical region, blocked in \<open>wait\<close>, woken and about to
  re-acquire the mutex, handling a request outside the region, finished.
\<close>

datatype worker =
    W_Check | W_Lock | W_Critical | W_Waiting | W_Woken | W_Handling request | W_Done

record broker =
  sm_req_list :: "request list"
  sm_terminate :: bool
  sm_mutex :: "nat option"
  workers :: "worker list"
  taken :: "request list" \<comment> \<open>history of the requests taken from the queue\<close>

text \<open>\<open>notify_all\<close> wakes every thread that waits on the condition variable.\<close>

definition notify_all :: "worker list \<Rightarrow> worker list" where
  "notify_all ws = map (\<lambda>w. if w = W_Waiting then W_Woken else w) ws"

definition queueRequest :: "broker \<Rightarrow> request \<Rightarrow> broker" where
  "queueRequest b r = b\<lparr>sm_req_list := sm_req_list b @ [r], workers := notify_all (workers b)\<rparr>"

text \<open>The constructor: the flag is cleared and \<open>n\<close> threads start at \<open>run\<close>.\<close>

definition startWorkers :: "broker \<Rightarrow> u16 \<Rightarrow> broker" where
  "startWorkers b n =
     b\<lparr>sm_terminate := False, workers := workers b @ replicate (unat n) W_Check\<rparr>"

text \<open>The first half of \<open>stopWorkers\<close>, under the mutex.\<close>

definition signalTerminate :: "broker \<Rightarrow> broker" where
  "signalTerminate b = b\<lparr>sm_terminate := True, workers := notify_all (workers b)\<rparr>"

text \<open>The second half returns when every thread can be joined, and forgets the workers.\<close>

definition joinable :: "broker \<Rightarrow> bool" where
  "joinable b \<longleftrightarrow> (\<forall>w \<in> set (workers b). w = W_Done)"

definition clearWorkers :: "broker \<Rightarrow> broker" where
  "clearWorkers b = b\<lparr>workers := []\<rparr>"

definition set_worker :: "broker \<Rightarrow> nat \<Rightarrow> worker \<Rightarrow> broker" where
  "set_worker b i w = b\<lparr>workers := (workers b)[i := w]\<rparr>"

section \<open>Steps\<close>

text \<open>Which action a worker takes next, in the order of the code of \<open>run\<close>.\<close>

inductive worker_step :: "nat \<Rightarrow> broker \<Rightarrow> broker \<Rightarrow> bool" for i :: nat where
  leave: "i < length (workers b) \<Longrightarrow> workers b ! i = W_Check \<Longrightarrow> sm_terminate b \<Longrightarrow>
    worker_step i b (set_worker b i W_Done)"
| enter: "i < length (workers b) \<Longrightarrow> workers b ! i = W_Check \<Longrightarrow> \<not> sm_terminate b \<Longrightarrow>
    worker_step i b (set_worker b i W_Lock)"
| lock: "i < length (workers b) \<Longrightarrow> workers b ! i = W_Lock \<or> workers b ! i = W_Woken \<Longrightarrow>
    sm_mutex b = None \<Longrightarrow>
    worker_step i b ((set_worker b i W_Critical)\<lparr>sm_mutex := Some i\<rparr>)"
| wait: "i < length (workers b) \<Longrightarrow> workers b ! i = W_Critical \<Longrightarrow> sm_req_list b = [] \<Longrightarrow>
    \<not> sm_terminate b \<Longrightarrow>
    worker_step i b ((set_worker b i W_Waiting)\<lparr>sm_mutex := None\<rparr>)"
| spurious: "i < length (workers b) \<Longrightarrow> workers b ! i = W_Waiting \<Longrightarrow>
    worker_step i b (set_worker b i W_Woken)"
| abandon: "i < length (workers b) \<Longrightarrow> workers b ! i = W_Critical \<Longrightarrow> sm_terminate b \<Longrightarrow>
    worker_step i b ((set_worker b i W_Check)\<lparr>sm_mutex := None\<rparr>)"
| take: "i < length (workers b) \<Longrightarrow> workers b ! i = W_Critical \<Longrightarrow> sm_req_list b = r # rs \<Longrightarrow>
    \<not> sm_terminate b \<Longrightarrow>
    worker_step i b ((set_worker b i (W_Handling r))\<lparr>sm_mutex := None, sm_req_list := rs,
      taken := taken b @ [r]\<rparr>)"
| handled: "i < length (workers b) \<Longrightarrow> workers b ! i = W_Handling r \<Longrightarrow>
    worker_step i b (set_worker b i W_Check)"

inductive_cases worker_stepE: "worker_step i b b'"

definition broker_init :: "u16 \<Rightarrow> broker" where
  "broker_init n =
     startWorkers \<lparr>sm_req_list = [], sm_terminate = False, sm_mutex = None, workers = [], taken = []\<rparr> n"

text \<open>
  The states the broker can reach with \<open>n\<close> workers, and the requests queued so far.  Other
  threads queue requests and signal termination, both while nobody holds the mutex.
\<close>

inductive broker_run :: "u16 \<Rightarrow> request list \<Rightarrow> broker \<Rightarrow> bool" for n :: u16 where
  init: "broker_run n [] (broker_init n)"
| work: "broker_run n qs b \<Longrightarrow> worker_step i b b' \<Longrightarrow> broker_run n qs b'"
| queue: "broker_run n qs b \<Longrightarrow> sm_mutex b = None \<Longrightarrow> broker_run n (qs @ [r]) (queueRequest b r)"
| stop: "broker_run n qs b \<Longrightarrow> sm_mutex b = None \<Longrightarrow> broker_run n qs (signalTerminate b)"

section \<open>Mutual exclusion and wake-ups\<close>

text \<open>
  The mutex is held by exactly the worker inside the critical region; nobody sleeps while
  there is work or the flag is set; a worker ends only because of the flag.
\<close>

definition broker_inv :: "broker \<Rightarrow> bool" where
  "broker_inv b \<longleftrightarrow>
     (\<forall>i. sm_mutex b = Some i \<longleftrightarrow> i < length (workers b) \<and> workers b ! i = W_Critical) \<and>
     (W_Waiting \<in> set (workers b) \<longrightarrow> sm_req_list b = [] \<and> \<not> sm_terminate b) \<and>
     (W_Done \<in> set (workers b) \<longrightarrow> sm_terminate b)"

lemma notify_all_length [simp]: "length (notify_all ws) = length ws"
  by (simp add: notify_all_def)

lemma notify_all_nth:
  "i < length ws \<Longrightarrow> notify_all ws ! i = (if ws ! i = W_Waiting then W_Woken else ws ! i)"
  by (simp add: notify_all_def)

lemma notify_all_set: "set (notify_all ws) \<subseteq> (set ws - {W_Waiting}) \<union> {W_Woken}"
  by (auto simp: notify_all_def)

lemma notify_all_members:
  "W_Waiting \<notin> set (notify_all ws)" "W_Done \<in> set (notify_all ws) \<longleftrightarrow> W_Done \<in> set ws"
  by (auto simp: notify_all_def image_iff)

lemma set_worker_simps [simp]:
  "workers (set_worker b i w) = (workers b)[i := w]" "sm_req_list (set_worker b i w) = sm_req_list b"
  "sm_terminate (set_worker b i w) = sm_terminate b" "sm_mutex (set_worker b i w) = sm_mutex b"
  "taken (set_worker b i w) = taken b"
  by (simp_all add: set_worker_def)

lemma broker_inv_init: "broker_inv (broker_init n)"
  by (auto simp: broker_inv_def broker_init_def startWorkers_def)

lemma broker_inv_queue:
  "broker_inv b \<Longrightarrow> sm_mutex b = None \<Longrightarrow> broker_inv (queueRequest b r)"
  by (auto simp: broker_inv_def queueRequest_def notify_all_members notify_all_nth)

lemma broker_inv_stop:
  "broker_inv b \<Longrightarrow> sm_mutex b = None \<Longrightarrow> broker_inv (signalTerminate b)"
  by (auto simp: broker_inv_def signalTerminate_def notify_all_members notify_all_nth)

lemma update_member: "x \<in> set (xs[i := y]) \<Longrightarrow> x = y \<or> x \<in> set xs"
  using set_update_subset_insert by fastforce

text \<open>One worker moves to \<open>w\<close>; the mutex follows if the move enters or leaves the region.\<close>

lemma broker_inv_move:
  assumes "broker_inv b" and i: "i < length (workers b)"
    and ws: "workers b' = (workers b)[i := w]" and t: "sm_terminate b' = sm_terminate b"
    and mx: "if w = W_Critical then sm_mutex b = None \<and> sm_mutex b' = Some i
      else sm_mutex b' = (if workers b ! i = W_Critical then None else sm_mutex b)"
    and q: "sm_req_list b = [] \<Longrightarrow> sm_req_list b' = []"
    and wait: "w = W_Waiting \<Longrightarrow> sm_req_list b' = [] \<and> \<not> sm_terminate b"
    and ended: "w = W_Done \<Longrightarrow> sm_terminate b"
  shows "broker_inv b'"
  unfolding broker_inv_def
proof (intro conjI allI impI)
  have inv: "\<And>j. sm_mutex b = Some j \<longleftrightarrow> j < length (workers b) \<and> workers b ! j = W_Critical"
    "W_Waiting \<in> set (workers b) \<Longrightarrow> sm_req_list b = [] \<and> \<not> sm_terminate b"
    "W_Done \<in> set (workers b) \<Longrightarrow> sm_terminate b"
    using assms(1) by (simp_all add: broker_inv_def)
  show "sm_mutex b' = Some j \<longleftrightarrow> j < length (workers b') \<and> workers b' ! j = W_Critical" for j
  proof (cases "j = i")
    case True
    then show ?thesis using mx i inv(1) [of i] by (auto simp: ws split: if_splits)
  next
    case False
    then show ?thesis
      using mx i inv(1) [of i] inv(1) [of j] by (auto simp: ws split: if_splits)
  qed
  show "sm_req_list b' = []" "\<not> sm_terminate b'" if "W_Waiting \<in> set (workers b')"
    using that inv(2) q wait by (auto simp: ws t dest!: update_member)
  show "sm_terminate b'" if "W_Done \<in> set (workers b')"
    using that inv(3) ended by (auto simp: ws t dest!: update_member)
qed

lemma broker_inv_work: "worker_step i b b' \<Longrightarrow> broker_inv b \<Longrightarrow> broker_inv b'"
proof (induction rule: worker_step.induct)
  case (leave b)
  then show ?case by - (rule broker_inv_move [of b i _ W_Done]; simp)
next
  case (enter b)
  then show ?case by - (rule broker_inv_move [of b i _ W_Lock]; simp)
next
  case (lock b)
  then show ?case by - (rule broker_inv_move [of b i _ W_Critical]; simp)
next
  case (wait b)
  then show ?case by - (rule broker_inv_move [of b i _ W_Waiting]; simp)
next
  case (spurious b)
  then show ?case by - (rule broker_inv_move [of b i _ W_Woken]; simp)
next
  case (abandon b)
  then show ?case by - (rule broker_inv_move [of b i _ W_Check]; simp)
next
  case (take b r rs)
  then show ?case by - (rule broker_inv_move [of b i _ "W_Handling r"]; simp)
next
  case (handled b r)
  then show ?case by - (rule broker_inv_move [of b i _ W_Check]; simp)
qed

lemma broker_run_inv: "broker_run n qs b \<Longrightarrow> broker_inv b"
  by (induction rule: broker_run.induct)
    (simp_all add: broker_inv_init broker_inv_work broker_inv_queue broker_inv_stop)

lemma worker_step_count: "worker_step i b b' \<Longrightarrow> length (workers b') = length (workers b)"
  by (induction rule: worker_step.induct) simp_all

lemma broker_run_count: "broker_run n qs b \<Longrightarrow> length (workers b) = unat n"
  by (induction rule: broker_run.induct)
    (simp_all add: worker_step_count queueRequest_def signalTerminate_def broker_init_def
      startWorkers_def)

section \<open>The order of the requests\<close>

lemma worker_step_queue:
  "worker_step i b b' \<Longrightarrow> taken b' @ sm_req_list b' = taken b @ sm_req_list b"
  by (induction rule: worker_step.induct) simp_all

lemma broker_run_fifo: "broker_run n qs b \<Longrightarrow> taken b @ sm_req_list b = qs"
  by (induction rule: broker_run.induct)
    (simp_all add: worker_step_queue queueRequest_def signalTerminate_def broker_init_def
      startWorkers_def append_assoc [symmetric] del: append_assoc)

lemma worker_step_stopped:
  "worker_step i b b' \<Longrightarrow> sm_terminate b \<Longrightarrow> sm_terminate b' \<and> taken b' = taken b"
  by (induction rule: worker_step.induct) simp_all

section \<open>Progress and termination\<close>

lemma worker_can_step:
  assumes "i < length (workers b)" and "workers b ! i \<noteq> W_Done" and "sm_mutex b = None"
    and "workers b ! i \<noteq> W_Critical"
  shows "\<exists>b'. worker_step i b b'"
proof (cases "workers b ! i")
  case W_Check
  then show ?thesis using assms worker_step.leave worker_step.enter by (cases "sm_terminate b") blast+
next
  case W_Lock
  then show ?thesis using assms worker_step.lock by blast
next
  case W_Waiting
  then show ?thesis using assms worker_step.spurious by blast
next
  case W_Woken
  then show ?thesis using assms worker_step.lock by blast
next
  case (W_Handling r)
  then show ?thesis using assms worker_step.handled by blast
qed (use assms in simp_all)

lemma critical_can_step:
  assumes "i < length (workers b)" and "workers b ! i = W_Critical"
  shows "\<exists>b'. worker_step i b b'"
proof (cases "sm_terminate b")
  case True
  then show ?thesis using assms worker_step.abandon by blast
next
  case False
  then show ?thesis
    using assms worker_step.wait worker_step.take by (cases "sm_req_list b") blast+
qed

lemma not_stuck:
  assumes "broker_inv b" and "i < length (workers b)" and "workers b ! i \<noteq> W_Done"
  shows "\<exists>j b'. worker_step j b b'"
proof (cases "sm_mutex b")
  case None
  then have "workers b ! i \<noteq> W_Critical" using assms by (auto simp: broker_inv_def)
  then show ?thesis using worker_can_step [OF assms(2,3) None] by blast
next
  case (Some j)
  then show ?thesis using assms(1) critical_can_step [of j b] by (auto simp: broker_inv_def)
qed

text \<open>How many steps a worker can still take once the flag is set.\<close>

fun steps_left :: "worker \<Rightarrow> nat" where
  "steps_left W_Done = 0"
| "steps_left W_Check = 1"
| "steps_left (W_Handling r) = 2"
| "steps_left W_Critical = 2"
| "steps_left W_Lock = 3"
| "steps_left W_Woken = 3"
| "steps_left W_Waiting = 4"

definition stop_measure :: "broker \<Rightarrow> nat" where
  "stop_measure b = sum_list (map steps_left (workers b))"

lemma stop_measure_update:
  assumes "i < length (workers b)" and "workers b' = (workers b)[i := w]"
    and "steps_left w < steps_left (workers b ! i)"
  shows "stop_measure b' < stop_measure b"
proof -
  have "sum_list (map steps_left ws) =
      sum_list (map steps_left (take i ws)) + steps_left (ws ! i) + sum_list (map steps_left (drop (Suc i) ws))"
    if "i < length ws" for ws
    by (subst (1) id_take_nth_drop [OF that]) simp
  from this [of "workers b"] this [of "workers b'"] show ?thesis
    using assms by (simp add: stop_measure_def)
qed

lemma worker_step_decreases:
  "worker_step i b b' \<Longrightarrow> sm_terminate b \<Longrightarrow> stop_measure b' < stop_measure b"
  by (induction rule: worker_step.induct)
    (auto intro: stop_measure_update)

definition some_worker_step :: "broker \<Rightarrow> broker \<Rightarrow> bool" where
  "some_worker_step b b' \<longleftrightarrow> (\<exists>i. worker_step i b b')"

lemma stopping_run:
  assumes "(some_worker_step ^^ k) b b'" and "sm_terminate b" and "broker_inv b"
  shows "k + stop_measure b' \<le> stop_measure b \<and> sm_terminate b' \<and> broker_inv b' \<and> taken b' = taken b"
  using assms
proof (induction k arbitrary: b')
  case 0
  then show ?case by simp
next
  case (Suc k)
  then obtain c i where c: "(some_worker_step ^^ k) b c" and step: "worker_step i c b'"
    by (metis relpowp_Suc_E some_worker_step_def)
  note IH = Suc.IH [OF c Suc.prems(2,3)]
  then show ?case
    using worker_step_decreases [OF step] worker_step_stopped [OF step] broker_inv_work [OF step]
    by simp
qed

lemma steps_left_bound: "steps_left w \<le> 4"
  by (cases w) simp_all

lemma stop_measure_bound: "stop_measure b \<le> 4 * length (workers b)"
proof -
  have "sum_list (map steps_left ws) \<le> 4 * length ws" for ws
    using steps_left_bound by (induction ws) (auto simp: add_mono)
  then show ?thesis by (simp add: stop_measure_def)
qed

lemma stuck_joinable: "broker_inv b \<Longrightarrow> \<nexists>b'. some_worker_step b b' \<Longrightarrow> joinable b"
  using not_stuck by (fastforce simp: joinable_def some_worker_step_def in_set_conv_nth)

section \<open>The broker as a queue\<close>

text \<open>
  What a connection relies on when it hands requests over: a request is added behind the
  pending ones, and the receiver's own invariant survives.
\<close>

locale request_sink =
  fixes inv :: "'b \<Rightarrow> bool"
    and pending :: "'b \<Rightarrow> request list"
    and put :: "'b \<Rightarrow> request \<Rightarrow> 'b"
  assumes put_inv: "inv b \<Longrightarrow> inv (put b r)"
    and put_pending: "pending (put b r) = pending b @ [r]"
begin

lemma put_all_pending: "pending (fold (\<lambda>r b. put b r) rs b) = pending b @ rs"
  by (induction rs arbitrary: b) (simp_all add: put_pending)

lemma put_all_inv: "inv b \<Longrightarrow> inv (fold (\<lambda>r b. put b r) rs b)"
  by (induction rs arbitrary: b) (simp_all add: put_inv)

end

interpretation sink: request_sink "\<lambda>b. broker_inv b \<and> sm_mutex b = None" sm_req_list queueRequest
  by unfold_locales (simp_all add: broker_inv_queue, simp_all add: queueRequest_def)

section \<open>Properties of the broker\<close>

text \<open>A reachable state with one worker that has taken the first of two requests.\<close>

definition sample_request :: "nat \<Rightarrow> request" where
  "sample_request c = \<lparr>req_connection = c, req_message = message_init\<rparr>"

definition sample_broker :: broker where
  "sample_broker = \<lparr>sm_req_list = [sample_request 1], sm_terminate = False, sm_mutex = None,
     workers = [W_Handling (sample_request 0)], taken = [sample_request 0]\<rparr>"

lemma sample_broker_run: "broker_run 1 [sample_request 0, sample_request 1] sample_broker"
proof -
  let ?b = "\<lambda>q m w t. \<lparr>sm_req_list = q, sm_terminate = False, sm_mutex = m, workers = [w], taken = t\<rparr>"
  let ?q = "[sample_request 0, sample_request 1]"
  have "broker_run 1 [] (?b [] None W_Check [])"
    using broker_run.init [of 1] by (simp add: broker_init_def startWorkers_def)
  then have "broker_run 1 [sample_request 0] (?b [sample_request 0] None W_Check [])"
    using broker_run.queue [of 1 "[]" "?b [] None W_Check []" "sample_request 0"]
    by (simp add: queueRequest_def notify_all_def)
  then have "broker_run 1 ?q (?b ?q None W_Check [])"
    using broker_run.queue [of 1 "[sample_request 0]" "?b [sample_request 0] None W_Check []"
        "sample_request 1"] by (simp add: queueRequest_def notify_all_def)
  from broker_run.work [OF this worker_step.enter [of 0]]
  have "broker_run 1 ?q (?b ?q None W_Lock [])" by (simp add: set_worker_def)
  from broker_run.work [OF this worker_step.lock [of 0]]
  have "broker_run 1 ?q (?b ?q (Some 0) W_Critical [])" by (simp add: set_worker_def)
  from broker_run.work [OF this worker_step.take [of 0 _ "sample_request 0" "[sample_request 1]"]]
  have "broker_run 1 ?q (?b [sample_request 1] None (W_Handling (sample_request 0)) [sample_request 0])"
    by (simp add: set_worker_def)
  then show ?thesis by (simp add: sample_broker_def)
qed

text \<open>
  C10.  Whatever the interleaving, the requests the workers have taken followed by those still in
  the queue are exactly the requests that were queued, in that order: none is lost, repeated
  or overtaken.
\<close>

theorem broker_fifo:
  assumes "broker_run n qs b"
  shows "taken b @ sm_req_list b = qs"
  using assms by (rule broker_run_fifo)

theorem broker_fifo_witness:
  "taken sample_broker @ sm_req_list sample_broker = [sample_request 0, sample_request 1]"
  by (rule broker_fifo [OF sample_broker_run])

text \<open>
  C11.  At most one worker is inside the critical region, namely the holder of the mutex; no
  worker sleeps on the condition variable while a request is queued or the termination flag is
  set; and while requests are queued and the flag is clear, some worker can always go on, without
  a spurious wake-up being needed.
\<close>

theorem broker_safe:
  assumes "broker_run n qs b"
  shows "(\<forall>i. sm_mutex b = Some i \<longleftrightarrow> i < length (workers b) \<and> workers b ! i = W_Critical) \<and>
    \<not> (W_Waiting \<in> set (workers b) \<and> (sm_req_list b \<noteq> [] \<or> sm_terminate b)) \<and>
    \<not> (n \<noteq> 0 \<and> sm_req_list b \<noteq> [] \<and> \<not> sm_terminate b \<and>
      (\<nexists>i b'. worker_step i b b' \<and> workers b ! i \<noteq> W_Waiting))"
proof -
  have inv: "broker_inv b" using assms by (rule broker_run_inv)
  have wake: "\<not> (W_Waiting \<in> set (workers b) \<and> (sm_req_list b \<noteq> [] \<or> sm_terminate b))"
    and mutex: "\<forall>i. sm_mutex b = Some i \<longleftrightarrow> i < length (workers b) \<and> workers b ! i = W_Critical"
    using inv by (auto simp: broker_inv_def)
  have "\<exists>i b'. worker_step i b b' \<and> workers b ! i \<noteq> W_Waiting"
    if "n \<noteq> 0" "sm_req_list b \<noteq> []" "\<not> sm_terminate b"
  proof -
    have lt: "0 < length (workers b)"
      using broker_run_count [OF assms] that(1) by (simp add: unat_gt_0)
    then have "workers b ! 0 \<in> set (workers b)" by (rule nth_mem)
    then have "workers b ! 0 \<noteq> W_Done" using inv that(3) unfolding broker_inv_def by metis
    then obtain i b' where "worker_step i b b'" using not_stuck [OF inv lt] by blast
    moreover from this have "i < length (workers b)" by (cases rule: worker_step.cases) simp_all
    ultimately show ?thesis using wake that(2) by (metis nth_mem)
  qed
  then have step: "\<not> (n \<noteq> 0 \<and> sm_req_list b \<noteq> [] \<and> \<not> sm_terminate b \<and>
      (\<nexists>i b'. worker_step i b b' \<and> workers b ! i \<noteq> W_Waiting))" by blast
  show ?thesis by (intro conjI) (fact mutex, fact wake, fact step)
qed

theorem broker_safe_witness:
  "(\<forall>i. sm_mutex sample_broker = Some i \<longleftrightarrow>
      i < length (workers sample_broker) \<and> workers sample_broker ! i = W_Critical) \<and>
    \<not> (W_Waiting \<in> set (workers sample_broker) \<and>
        (sm_req_list sample_broker \<noteq> [] \<or> sm_terminate sample_broker)) \<and>
    \<not> ((1 :: u16) \<noteq> 0 \<and> sm_req_list sample_broker \<noteq> [] \<and> \<not> sm_terminate sample_broker \<and>
      (\<nexists>i b'. worker_step i sample_broker b' \<and> workers sample_broker ! i \<noteq> W_Waiting))"
  by (rule broker_safe [OF sample_broker_run])

text \<open>
  Stopping ends: once termination was signalled, the workers together take at most four
  steps each, no further request is taken, and they can only come to rest with every thread
  finished, so that joining them returns.
\<close>

theorem stop_terminates:
  assumes "broker_run n qs b" and "sm_mutex b = None"
    and "(some_worker_step ^^ k) (signalTerminate b) b'"
  shows "k \<le> 4 * unat n \<and> taken b' = taken b \<and> \<not> ((\<nexists>c. some_worker_step b' c) \<and> \<not> joinable b')"
proof -
  let ?s = "signalTerminate b"
  have run: "broker_run n qs ?s" using assms(1,2) by (rule broker_run.stop)
  have "sm_terminate ?s" "taken ?s = taken b" by (simp_all add: signalTerminate_def)
  then show ?thesis
    using stopping_run [OF assms(3) _ broker_run_inv [OF run]] stop_measure_bound [of ?s]
      broker_run_count [OF run] stuck_joinable [of b'] by auto
qed

theorem stop_terminates_witness:
  "1 \<le> 4 * unat (1 :: u16) \<and>
    taken (set_worker (signalTerminate sample_broker) 0 W_Check) = taken sample_broker \<and>
    \<not> ((\<nexists>c. some_worker_step (set_worker (signalTerminate sample_broker) 0 W_Check) c) \<and>
        \<not> joinable (set_worker (signalTerminate sample_broker) 0 W_Check))"
proof (rule stop_terminates [OF sample_broker_run])
  show "sm_mutex sample_broker = None" by (simp add: sample_broker_def)
  have "worker_step 0 (signalTerminate sample_broker) (set_worker (signalTerminate sample_broker) 0 W_Check)"
    by (rule worker_step.handled [where r = "sample_request 0"])
      (simp_all add: sample_broker_def signalTerminate_def notify_all_def)
  then show "(some_worker_step ^^ 1) (signalTerminate sample_broker)
      (set_worker (signalTerminate sample_broker) 0 W_Check)"
    unfolding relpowp_1 some_worker_step_def by blast
qed

end
