(* ===== verification/FT_Conn.thy ===== *)
theory FT_Conn
  imports FT_Req_Brkr
begin

text \<open>
  Connections, of \<open>src/netwrk/ft_conn.hpp\<close>, \<open>src/netwrk/ft_conn.cpp\<close> and
  \<open>src/netwrk/ft_conn_utils.cpp\<close>: opening and configuring a socket, the byte-wise state
  machine that cuts the incoming stream into messages, handing them to the request broker, and
  sending.  What the operating system answers (the results of \<open>recv\<close>, \<open>send\<close>, \<open>socket\<close> and the
  others) is an argument.  The lemmas show that a stream of serialized messages is delivered
  message by message however it is fragmented, what the parser does with other bytes, and that
  the constructors never lose a descriptor.
\<close>

section \<open>Socket options\<close>

datatype sock_call =
    F_GETFL | F_SETFL int | SO_KEEPALIVE int | TCP_KEEPIDLE int | TCP_KEEPINTVL int | TCP_KEEPCNT int

text \<open>A call returns a value and, when that is negative, leaves an error number.\<close>

type_synonym sock_sys = "int \<Rightarrow> sock_call \<Rightarrow> int \<times> errno"

definition O_NONBLOCK :: int where "O_NONBLOCK = 2048"

text \<open>The calls made, in order, and the outcome.\<close>

definition setup_socket_options :: "sock_sys \<Rightarrow> int \<Rightarrow> sock_call list \<times> unit result" where
  "setup_socket_options sys fd =
     (let (flags, err) = sys fd F_GETFL
      in if flags < 0 then ([F_GETFL], Inl (System_error err ''Failed to get socket flags''))
     else let setfl = F_SETFL (flags OR O_NONBLOCK); (ret, err) = sys fd setfl
      in if ret \<noteq> 0 then ([F_GETFL, setfl],
           Inl (System_error err ''Failed to set socket flags to non block''))
     else let (ret, err) = sys fd (SO_KEEPALIVE 1)
      in if ret < 0 then ([F_GETFL, setfl, SO_KEEPALIVE 1],
           Inl (System_error err ''Failed to set socket keep alive flag''))
     else let (ret, err) = sys fd (TCP_KEEPIDLE 1)
      in if ret < 0 then ([F_GETFL, setfl, SO_KEEPALIVE 1, TCP_KEEPIDLE 1],
           Inl (System_error err ''Failed to set socket keep alive idle time''))
     else let (ret, err) = sys fd (TCP_KEEPINTVL 1)
      in if ret < 0 then ([F_GETFL, setfl, SO_KEEPALIVE 1, TCP_KEEPIDLE 1, TCP_KEEPINTVL 1],
           Inl (System_error err ''Failed to set socket keep alive interval''))
     else let (ret, err) = sys fd (TCP_KEEPCNT 10)
      in if ret < 0 then
           ([F_GETFL, setfl, SO_KEEPALIVE 1, TCP_KEEPIDLE 1, TCP_KEEPINTVL 1, TCP_KEEPCNT 10],
           Inl (System_error err ''Failed to set socket keep alive counter''))
     else ([F_GETFL, setfl, SO_KEEPALIVE 1, TCP_KEEPIDLE 1, TCP_KEEPINTVL 1, TCP_KEEPCNT 10], Inr ()))"

section \<open>The Connection class\<close>

record connection =
  conn_fd :: int
  conn_msg_buf :: bytes
  conn_msg_len :: size_t

text \<open>
  The constructor for an accepted socket, with the descriptors it closes.  \<open>msg_len\<close> has no
  initializer in the class: its first value is the argument \<open>junk\<close>.
\<close>

definition Connection_accepted :: "sock_sys \<Rightarrow> size_t \<Rightarrow> int \<Rightarrow> connection result \<times> int list" where
  "Connection_accepted sys junk fd =
     (case setup_socket_options sys fd of
        (_, Inl e) \<Rightarrow> (Inl e, [fd])
      | (_, Inr _) \<Rightarrow> (Inr \<lparr>conn_fd = fd, conn_msg_buf = [], conn_msg_len = junk\<rparr>, []))"

text \<open>
  The loop over the resolved addresses: the descriptor it ends with, those it opened and those
  it closed.  \<open>sock\<close> and \<open>cnct\<close> are the results of \<open>socket\<close> and \<open>connect\<close> for an address.
\<close>

fun try_connect :: "('a \<Rightarrow> int) \<Rightarrow> ('a \<Rightarrow> int \<Rightarrow> int) \<Rightarrow> int \<Rightarrow> 'a list \<Rightarrow> int \<times> int list \<times> int list" where
  "try_connect sock cnct tmpfd [] = (tmpfd, [], [])"
| "try_connect sock cnct tmpfd (rp # rps) =
     (let tmpfd = sock rp
      in if tmpfd < 0 then try_connect sock cnct tmpfd rps
         else if cnct rp tmpfd \<ge> 0 then (tmpfd, [tmpfd], [])
         else let (fd, opened, closed) = try_connect sock cnct (-1) rps
              in (fd, tmpfd # opened, tmpfd # closed))"

text \<open>The client's constructor: \<open>ret\<close> and \<open>addrs\<close> are what \<open>getaddrinfo\<close> gives.\<close>

definition Connection_host ::
    "sock_sys \<Rightarrow> ('a \<Rightarrow> int) \<Rightarrow> ('a \<Rightarrow> int \<Rightarrow> int) \<Rightarrow> size_t \<Rightarrow> int \<Rightarrow> 'a list \<Rightarrow>
     connection result \<times> int list \<times> int list" where
  "Connection_host sys sock cnct junk ret addrs =
     (if ret \<noteq> 0 \<or> addrs = [] then (Inl (Runtime_error ''Failed to resolve host name''), [], [])
      else let (tmpfd, opened, closed) = try_connect sock cnct (-1) addrs
      in if tmpfd < 0 then (Inl (Runtime_error ''Failed to connect to host''), opened, closed)
         else (case setup_socket_options sys tmpfd of
            (_, Inl e) \<Rightarrow> (Inl e, opened, closed @ [tmpfd])
          | (_, Inr _) \<Rightarrow>
              (Inr \<lparr>conn_fd = tmpfd, conn_msg_buf = [], conn_msg_len = junk\<rparr>, opened, closed)))"

text \<open>The descriptors the destructor closes.\<close>

definition Connection_destroy :: "connection \<Rightarrow> int list" where
  "Connection_destroy c = (if conn_fd c \<ge> 0 then [conn_fd c] else [])"

section \<open>Receiving\<close>

datatype recv_result = RecvByte byte | RecvClosed | RecvError errno

text \<open>The connection and the static \<open>sm_request_broker\<close>, null until it is set.\<close>

record rx =
  rx_conn :: connection
  rx_broker :: "broker option"

definition setRequestBroker :: "rx \<Rightarrow> broker \<Rightarrow> rx" where
  "setRequestBroker s b = s\<lparr>rx_broker := Some b\<rparr>"

definition handleMessage :: "nat \<Rightarrow> rx \<Rightarrow> rx \<times> ft_exn option" where
  "handleMessage self s =
     (case Message_parse (conn_msg_buf (rx_conn s)) of
        Inl e \<Rightarrow> (s, Some e)
      | Inr m \<Rightarrow>
         (case rx_broker s of
            None \<Rightarrow> (s, None)
          | Some b \<Rightarrow>
             (s\<lparr>rx_broker := Some (queueRequest b \<lparr>req_connection = self, req_message = m\<rparr>)\<rparr>, None)))"

definition MAGIC1 :: byte where "MAGIC1 = ucast (drop_bit 24 MAGIC AND 0xff)"
definition MAGIC2 :: byte where "MAGIC2 = ucast (drop_bit 16 MAGIC AND 0xff)"
definition MAGIC3 :: byte where "MAGIC3 = ucast (drop_bit 8 MAGIC AND 0xff)"
definition MAX_MSG_TYPE :: byte where "MAX_MSG_TYPE = ucast (MSGTYPE_MAX AND 0xff)"

definition push_byte :: "byte \<Rightarrow> rx \<Rightarrow> rx" where
  "push_byte b s = s\<lparr>rx_conn := (rx_conn s)\<lparr>conn_msg_buf := conn_msg_buf (rx_conn s) @ [b]\<rparr>\<rparr>"

definition set_len :: "size_t \<Rightarrow> rx \<Rightarrow> rx" where
  "set_len n s = s\<lparr>rx_conn := (rx_conn s)\<lparr>conn_msg_len := n\<rparr>\<rparr>"

definition clear_buf :: "rx \<Rightarrow> rx" where
  "clear_buf s = s\<lparr>rx_conn := (rx_conn s)\<lparr>conn_msg_buf := [], conn_msg_len := 0\<rparr>\<rparr>"

text \<open>
  One byte of the stream: the body of the loop in \<open>handleEvent\<close>.  An exception of
  \<open>handleMessage\<close> leaves the buffer as it is.
\<close>

definition process_byte :: "nat \<Rightarrow> byte \<Rightarrow> rx \<Rightarrow> rx \<times> ft_exn option" where
  "process_byte self b s =
     (let buf_curr_size = word_of_nat (length (conn_msg_buf (rx_conn s))) :: size_t;
          len = conn_msg_len (rx_conn s)
      in if buf_curr_size = 0 \<and> b = MAGIC1 then (push_byte b s, None)
         else if buf_curr_size = 1 \<and> b = MAGIC2 then (push_byte b s, None)
         else if buf_curr_size = 2 \<and> b = MAGIC3 then (push_byte b s, None)
         else if buf_curr_size = 3 \<and> b > 0 \<and> b < MAX_MSG_TYPE then (push_byte b s, None)
         else if buf_curr_size = 4 then
           (set_len (push_bit 8 (ucast b) AND 0xff00) (push_byte b s), None)
         else if buf_curr_size = 5 then
           (set_len (len OR (ucast b AND 0x00ff)) (push_byte b s), None)
         else if buf_curr_size \<ge> 6 \<and> buf_curr_size < len + 6 - 1 then (push_byte b s, None)
         else if buf_curr_size = len + 6 - 1 then
           (case handleMessage self (push_byte b s) of
              (s, Some e) \<Rightarrow> (s, Some e)
            | (s, None) \<Rightarrow> (clear_buf s, None))
         else (clear_buf s, None))"

text \<open>
  The loop over what \<open>recv\<close> returns; when nothing is left a non-blocking socket answers
  \<open>EAGAIN\<close>.  The result: what was not read, the new state, \<open>errno\<close> and an exception.
\<close>

fun recv_loop ::
    "nat \<Rightarrow> recv_result list \<Rightarrow> rx \<Rightarrow> errno \<Rightarrow> recv_result list \<times> rx \<times> errno \<times> ft_exn option" where
  "recv_loop self [] s err = ([], s, EAGAIN, None)"
| "recv_loop self (RecvByte b # rs) s err =
     (case process_byte self b s of
        (s, Some e) \<Rightarrow> (rs, s, err, Some e)
      | (s, None) \<Rightarrow> recv_loop self rs s ENONE)"
| "recv_loop self (RecvClosed # rs) s err =
     (rs, s\<lparr>rx_conn := (rx_conn s)\<lparr>conn_fd := -1\<rparr>\<rparr>, err, None)"
| "recv_loop self (RecvError e # rs) s err = (rs, s, e, None)"

definition handleEvent ::
    "nat \<Rightarrow> recv_result list \<Rightarrow> rx \<Rightarrow> errno \<Rightarrow> recv_result list \<times> rx \<times> errno \<times> ft_exn option" where
  "handleEvent self rs s err =
     (case recv_loop self rs s err of
        (rs, s, err, Some e) \<Rightarrow> (rs, s, err, Some e)
      | (rs, s, err, None) \<Rightarrow>
          if err \<noteq> EAGAIN \<and> err \<noteq> EINTR \<and> err \<noteq> EBADF
          then (rs, s\<lparr>rx_conn := (rx_conn s)\<lparr>conn_fd := -1\<rparr>\<rparr>, err,
                Some (System_error err ''Fail reading from the socket''))
          else (rs, s, err, None))"

section \<open>Sending\<close>

datatype send_result = Sent nat | SendError errno

text \<open>The bytes that reach the stream, and an exception; a short count is not noticed.\<close>

definition sendBuffer :: "connection \<Rightarrow> send_result \<Rightarrow> bytes \<Rightarrow> bytes \<times> ft_exn option" where
  "sendBuffer c r buf =
     (case r of
        Sent n \<Rightarrow> (take n buf, None)
      | SendError e \<Rightarrow>
          ([], if e \<noteq> EAGAIN \<and> e \<noteq> EINTR
               then Some (System_error e ''Failed sending data through the socket'') else None))"

section \<open>Cutting the stream into frames\<close>

lemma magic_values: "MAGIC1 = 0x87" "MAGIC2 = 0xFE" "MAGIC3 = 0x77" "MAX_MSG_TYPE = 5"
  by (simp_all add: MAGIC1_def MAGIC2_def MAGIC3_def MAX_MSG_TYPE_def MAGIC_def msgtype_values)

text \<open>The bytes of the stream one after the other, until an exception.\<close>

fun feed :: "nat \<Rightarrow> bytes \<Rightarrow> rx \<Rightarrow> rx \<times> ft_exn option" where
  "feed self [] s = (s, None)"
| "feed self (b # bs) s =
     (case process_byte self b s of (s, Some e) \<Rightarrow> (s, Some e) | (s, None) \<Rightarrow> feed self bs s)"

lemma feed_append:
  "feed self (xs @ ys) s = (case feed self xs s of (s, Some e) \<Rightarrow> (s, Some e) | (s, None) \<Rightarrow> feed self ys s)"
  by (induction xs arbitrary: s) (auto split: prod.splits option.splits)

lemma recv_loop_feed:
  "feed self bs s = (s', None) \<Longrightarrow>
   recv_loop self (map RecvByte bs @ rs) s err = recv_loop self rs s' (if bs = [] then err else ENONE)"
  by (induction bs arbitrary: s err) (auto split: prod.splits option.splits)

lemma handleEvent_feed:
  "feed self bs s = (s', None) \<Longrightarrow> handleEvent self (map RecvByte bs) s err = ([], s', EAGAIN, None)"
  using recv_loop_feed [of self bs s s' "[]" err] by (simp add: handleEvent_def)

text \<open>The receive state with buffer \<open>p\<close> and length \<open>n\<close>.\<close>

abbreviation rx_at :: "rx \<Rightarrow> bytes \<Rightarrow> size_t \<Rightarrow> rx" where
  "rx_at s p n \<equiv> s\<lparr>rx_conn := (rx_conn s)\<lparr>conn_msg_buf := p, conn_msg_len := n\<rparr>\<rparr>"

lemma push_byte_at: "push_byte b (rx_at s p n) = rx_at s (p @ [b]) n"
  by (cases "rx_conn s") (simp add: push_byte_def)

lemma rx_at_idem: "conn_msg_buf (rx_conn s) = p \<Longrightarrow> conn_msg_len (rx_conn s) = n \<Longrightarrow> rx_at s p n = s"
  by simp

lemma len_plus_5: "(word_of_nat L :: size_t) + 6 - 1 = word_of_nat (L + 5)"
  by simp

lemma past_header:
  fixes w :: size_t
  assumes "6 \<le> unat w"
  shows "w \<noteq> 0 \<and> w \<noteq> 1 \<and> w \<noteq> 2 \<and> w \<noteq> 3 \<and> w \<noteq> 4 \<and> w \<noteq> 5 \<and> 6 \<le> w"
  using assms by (auto simp: word_le_nat_alt)

text \<open>Inside the payload: one more byte, and the last one delivers the message.\<close>

lemma process_payload:
  assumes "6 \<le> length p" and "length p < L + 5" and "L < 2 ^ 16"
  shows "process_byte self b (rx_at s p (word_of_nat L)) = (rx_at s (p @ [b]) (word_of_nat L), None)"
proof -
  have len: "length p < 2 ^ 64" "L + 5 < 2 ^ 64" using assms by simp_all
  have "unat (word_of_nat (length p) :: size_t) = length p" "unat (word_of_nat (L + 5) :: size_t) = L + 5"
    using len by (simp_all only: unat_of_nat_simps)
  then have "(word_of_nat (length p) :: size_t) < word_of_nat (L + 5)"
    "6 \<le> unat (word_of_nat (length p) :: size_t)"
    using assms by (simp_all only: word_less_nat_alt)
  then show ?thesis
    using past_header [of "word_of_nat (length p)"]
    by (simp add: process_byte_def len_plus_5 Let_def push_byte_def del: of_nat_add)
qed

lemma process_last:
  assumes "6 \<le> length p" and "length p = L + 5" and "L < 2 ^ 16"
  shows "process_byte self b (rx_at s p (word_of_nat L)) =
    (case handleMessage self (rx_at s (p @ [b]) (word_of_nat L)) of
       (s, Some e) \<Rightarrow> (s, Some e) | (s, None) \<Rightarrow> (clear_buf s, None))"
proof -
  have "length p < 2 ^ 64" using assms by simp
  then have "unat (word_of_nat (length p) :: size_t) = length p" by (simp only: unat_of_nat_simps)
  then have past: "6 \<le> unat (word_of_nat (length p) :: size_t)" using assms(1) by simp
  have eq: "(word_of_nat (length p) :: size_t) = word_of_nat L + 6 - 1" by (simp add: assms(2))
  show ?thesis
    using past_header [OF past] eq by (simp add: process_byte_def Let_def push_byte_at)
qed

lemma feed_payload:
  assumes "6 \<le> length p" and "length p + length d = L + 6" and "d \<noteq> []" and "L < 2 ^ 16"
  shows "feed self d (rx_at s p (word_of_nat L)) =
    (case handleMessage self (rx_at s (p @ d) (word_of_nat L)) of
       (s, Some e) \<Rightarrow> (s, Some e) | (s, None) \<Rightarrow> (clear_buf s, None))"
  using assms
proof (induction d arbitrary: p)
  case Nil
  then show ?case by simp
next
  case (Cons b d)
  show ?case
  proof (cases "d = []")
    case True
    then show ?thesis
      using Cons.prems process_last [of p L self b s] by (auto split: prod.splits option.splits)
  next
    case False
    then have "length p < L + 5" using Cons.prems by (cases d) simp_all
    then show ?thesis
      using Cons.prems False Cons.IH [of "p @ [b]"] process_payload [of p L self b s] by simp
  qed
qed

lemma feed_inner:
  assumes "6 \<le> length p" and "length p + length d < L + 6" and "L < 2 ^ 16"
  shows "feed self d (rx_at s p (word_of_nat L)) = (rx_at s (p @ d) (word_of_nat L), None)"
  using assms
proof (induction d arbitrary: p)
  case (Cons b d)
  then show ?case using Cons.IH [of "p @ [b]"] process_payload [of p L self b s] by simp
qed simp

lemma frame_length_word:
  "(push_bit 8 (ucast h) AND 0xff00 OR (ucast l AND 0x00ff) :: size_t) = ucast (x :: u16)"
  if "putU16 x = [h, l]"
proof -
  have m: "(0xff00 :: size_t) = push_bit 8 (mask 8)" "(0x00ff :: size_t) = mask 8"
    by (simp_all add: mask_eq_exp_minus_1 push_bit_eq_mult)
  have hl: "h = ucast (drop_bit 8 x AND mask 8)" "l = ucast (x AND mask 8)"
    using that by (auto simp: putU16_def byte_simps)
  show ?thesis unfolding m hl
  proof (rule bit_word_eqI)
    fix n assume "n < LENGTH(64)"
    then show "bit (push_bit 8 (ucast (ucast (drop_bit 8 x AND mask 8) :: byte)) AND push_bit 8 (mask 8) OR
        (ucast (ucast (x AND mask 8) :: byte) AND mask 8) :: size_t) n = bit (ucast x :: size_t) n"
      using bit_imp_le_length [of x n] by (cases "n < 8") (auto simp: bit_simps)
  qed
qed

text \<open>The six bytes that open a frame, fed into an empty buffer.\<close>

lemma feed_header:
  assumes "conn_msg_buf (rx_conn s) = []" and "0 < ty" and "ty < MAX_MSG_TYPE"
  shows "feed self ([MAGIC1, MAGIC2, MAGIC3, ty] @ putU16 x) s =
    (rx_at s ([MAGIC1, MAGIC2, MAGIC3, ty] @ putU16 x) (ucast x), None)"
proof -
  obtain h l where hl: "putU16 x = [h, l]" by (simp add: putU16_def)
  show ?thesis
    unfolding hl using assms frame_length_word [OF hl]
    by (simp add: process_byte_def Let_def push_byte_def set_len_def)
qed

lemma frame_assoc: "[MAGIC1, MAGIC2, MAGIC3, ty] @ putU16 x @ d = ([MAGIC1, MAGIC2, MAGIC3, ty] @ putU16 x) @ d"
  by simp

lemma feed_frame:
  assumes "conn_msg_buf (rx_conn s) = []" and "0 < ty" and "ty < MAX_MSG_TYPE"
    and "unat x = length d" and "d \<noteq> []"
  shows "feed self ([MAGIC1, MAGIC2, MAGIC3, ty] @ putU16 x @ d) s =
    (case handleMessage self (rx_at s ([MAGIC1, MAGIC2, MAGIC3, ty] @ putU16 x @ d) (ucast x)) of
       (s, Some e) \<Rightarrow> (s, Some e) | (s, None) \<Rightarrow> (clear_buf s, None))"
proof -
  have L: "length d < 2 ^ 16" using unat_bounds(2) [of x] assms(4) by simp
  have len: "(ucast x :: size_t) = word_of_nat (length d)"
    unfolding assms(4) [symmetric] by (simp add: unsigned_of_nat)
  show ?thesis
    unfolding frame_assoc feed_append [of self "[MAGIC1, MAGIC2, MAGIC3, ty] @ putU16 x" d s]
      feed_header [OF assms(1-3)] prod.case option.case len
    using feed_payload [of "[MAGIC1, MAGIC2, MAGIC3, ty] @ putU16 x" d "length d" self s] L assms(5)
    by (simp add: put_lengths)
qed

text \<open>A frame that is cut short stays in the buffer.\<close>

lemma feed_cut:
  assumes "conn_msg_buf (rx_conn s) = []" and "0 < ty" and "ty < MAX_MSG_TYPE"
    and "unat x = length d" and "k < 6 + length d"
  shows "\<exists>s'. feed self (take k ([MAGIC1, MAGIC2, MAGIC3, ty] @ putU16 x @ d)) s = (s', None) \<and>
    conn_msg_buf (rx_conn s') = take k ([MAGIC1, MAGIC2, MAGIC3, ty] @ putU16 x @ d) \<and>
    rx_broker s' = rx_broker s"
proof (cases "k < 6")
  case True
  obtain h l where "putU16 x = [h, l]" by (simp add: putU16_def)
  moreover have "k = 0 \<or> k = 1 \<or> k = 2 \<or> k = 3 \<or> k = 4 \<or> k = 5" using True by linarith
  ultimately show ?thesis
    using assms(1-3)
    by (elim disjE) (simp_all add: process_byte_def Let_def push_byte_def set_len_def)
next
  case False
  let ?h = "[MAGIC1, MAGIC2, MAGIC3, ty] @ putU16 x"
  have h: "length ?h = 6" by (simp add: put_lengths)
  have L: "length d < 2 ^ 16" using unat_bounds(2) [of x] assms(4) by simp
  have len: "(ucast x :: size_t) = word_of_nat (length d)"
    unfolding assms(4) [symmetric] by (simp add: unsigned_of_nat)
  have cut: "take k ([MAGIC1, MAGIC2, MAGIC3, ty] @ putU16 x @ d) = ?h @ take (k - 6) d"
    using False h unfolding frame_assoc take_append by simp
  have "feed self (take (k - 6) d) (rx_at s ?h (word_of_nat (length d))) =
      (rx_at s (?h @ take (k - 6) d) (word_of_nat (length d)), None)"
    using h False assms(5) L by (intro feed_inner) simp_all
  then show ?thesis
    unfolding cut feed_append [of self ?h] feed_header [OF assms(1-3)] len prod.case option.case by auto
qed

section \<open>Delivering serialized messages\<close>

lemma putU32_msgtype:
  "putU32 MSGTYPE_FILE_OFFER = [MAGIC1, MAGIC2, MAGIC3, 1]"
  "putU32 MSGTYPE_FILE_CHUNK_REQ = [MAGIC1, MAGIC2, MAGIC3, 2]"
  "putU32 MSGTYPE_FILE_CHUNK_DATA = [MAGIC1, MAGIC2, MAGIC3, 3]"
  "putU32 MSGTYPE_FILE_COMPLETE = [MAGIC1, MAGIC2, MAGIC3, 4]"
  by (simp_all add: putU32_def msgtype_values magic_values)

lemma serialize_frame:
  assumes "serialize m [] = Inr buf" and "length (client_uuid m) = UUID_SIZE"
  obtains ty x d where "buf = [MAGIC1, MAGIC2, MAGIC3, ty] @ putU16 x @ d" and "0 < ty"
    and "ty < MAX_MSG_TYPE" and "unat x = length d" and "d \<noteq> []" and "length buf = 6 + length d"
proof -
  obtain d where d: "payload m = Inr d"
    and buf: "buf = putU32 (msg_type m) @ putU16 (word_of_nat (length d)) @ d"
    using assms(1) by (auto simp: serialize_eq)
  have len: "length d < 2 ^ 16" "d \<noteq> []" using payload_length [OF d assms(2)] by auto
  have x: "unat (word_of_nat (length d) :: u16) = length d" using len(1) by (rule unat_of_nat_simps(2))
  have "msg_type m \<in> {MSGTYPE_FILE_OFFER, MSGTYPE_FILE_CHUNK_REQ, MSGTYPE_FILE_CHUNK_DATA,
      MSGTYPE_FILE_COMPLETE}"
    using d by (auto simp: payload_eq rbind_Inr_iff body_fields_def split: if_splits)
  then obtain ty where "putU32 (msg_type m) = [MAGIC1, MAGIC2, MAGIC3, ty]" "0 < ty" "ty < MAX_MSG_TYPE"
    by (auto simp: putU32_msgtype magic_values(4))
  then show thesis using that [of ty "word_of_nat (length d)" d] buf x len by (simp add: put_lengths)
qed

text \<open>The request a serialized message becomes at the other end.\<close>

definition arrived :: "nat \<Rightarrow> message \<Rightarrow> bytes \<Rightarrow> request" where
  "arrived self m frame =
     \<lparr>req_connection = self, req_message = wire_view m (word_of_nat (length frame - 6))\<rparr>"

definition deliver :: "request list \<Rightarrow> rx \<Rightarrow> rx" where
  "deliver rs s = s\<lparr>rx_broker := map_option (fold (\<lambda>r b. queueRequest b r) rs) (rx_broker s)\<rparr>"

lemma deliver_simps [simp]: "rx_conn (deliver rs s) = rx_conn s" "deliver [] s = s"
  by (simp_all add: deliver_def option.map_id)

lemma deliver_append: "deliver rs' (deliver rs s) = deliver (rs @ rs') s"
  by (simp add: deliver_def option.map_comp comp_def)

lemma deliver_clear: "deliver rs (clear_buf s) = clear_buf (deliver rs s)"
  by (simp add: deliver_def clear_buf_def)

lemma feed_message:
  assumes "serialize m [] = Inr buf" and "length (client_uuid m) = UUID_SIZE"
    and "conn_msg_buf (rx_conn s) = []"
  shows "feed self buf s = (clear_buf (deliver [arrived self m buf] s), None)"
proof -
  obtain ty x d where f: "buf = [MAGIC1, MAGIC2, MAGIC3, ty] @ putU16 x @ d" "0 < ty"
    "ty < MAX_MSG_TYPE" "unat x = length d" "d \<noteq> []"
    using serialize_frame [OF assms(1,2)] by metis
  have "Message_parse buf = Inr (wire_view m (word_of_nat (length buf - 6)))"
    using parse_serialize_view [OF assms(1,2), of "[]"] by simp
  then have "handleMessage self (rx_at s buf (ucast x)) =
      (deliver [arrived self m buf] (rx_at s buf (ucast x)), None)"
    by (auto simp: handleMessage_def deliver_def arrived_def split: option.splits)
  then show ?thesis
    using feed_frame [OF assms(3) f(2-5), of self, folded f(1)]
    by (simp add: deliver_def clear_buf_def)
qed

definition arrived_all :: "nat \<Rightarrow> message list \<Rightarrow> bytes list \<Rightarrow> request list" where
  "arrived_all self ms fs = map (\<lambda>(m, f). arrived self m f) (zip ms fs)"

definition frames_of :: "message list \<Rightarrow> bytes list \<Rightarrow> bool" where
  "frames_of ms fs \<longleftrightarrow>
     list_all2 (\<lambda>m f. serialize m [] = Inr f \<and> length (client_uuid m) = UUID_SIZE) ms fs"

lemma feed_messages:
  assumes "frames_of ms fs" and "conn_msg_buf (rx_conn s) = []"
  obtains s' where "feed self (concat fs) s = (s', None)" and "conn_msg_buf (rx_conn s') = []"
    and "conn_fd (rx_conn s') = conn_fd (rx_conn s)"
    and "rx_broker s' = rx_broker (deliver (arrived_all self ms fs) s)"
proof -
  have "\<exists>s'. feed self (concat fs) s = (s', None) \<and> conn_msg_buf (rx_conn s') = [] \<and>
      conn_fd (rx_conn s') = conn_fd (rx_conn s) \<and>
      rx_broker s' = rx_broker (deliver (arrived_all self ms fs) s)"
    using assms unfolding frames_of_def
  proof (induction ms fs arbitrary: s rule: list_all2_induct)
    case Nil
    then show ?case by (simp add: arrived_all_def)
  next
    case (Cons m ms f fs)
    let ?s = "clear_buf (deliver [arrived self m f] s)"
    have f: "feed self f s = (?s, None)" using Cons by (intro feed_message) simp_all
    have "conn_msg_buf (rx_conn ?s) = []" "conn_fd (rx_conn ?s) = conn_fd (rx_conn s)"
      by (simp_all add: clear_buf_def)
    with Cons.IH [of ?s] show ?case
      by (auto simp: feed_append f arrived_all_def deliver_def clear_buf_def option.map_comp comp_def)
  qed
  then show thesis using that by blast
qed

text \<open>
  The stream arrives in pieces: each piece is one call of \<open>handleEvent\<close>; what a call leaves
  unread after an exception is read by the next.
\<close>

fun handle_events ::
    "nat \<Rightarrow> recv_result list \<Rightarrow> bytes list \<Rightarrow> rx \<Rightarrow> errno \<Rightarrow> recv_result list \<times> rx \<times> errno \<times> ft_exn list" where
  "handle_events self rest [] s err = (rest, s, err, [])"
| "handle_events self rest (c # cs) s err =
     (case handleEvent self (rest @ map RecvByte c) s err of
        (rest, s, err, x) \<Rightarrow>
          (case handle_events self rest cs s err of
             (rest, s, err, xs) \<Rightarrow> (rest, s, err, (case x of None \<Rightarrow> xs | Some e \<Rightarrow> e # xs))))"

lemma handle_events_feed:
  "feed self (concat cs) s = (s', None) \<Longrightarrow>
   \<exists>err'. handle_events self [] cs s err = ([], s', err', [])"
proof (induction cs arbitrary: s err)
  case Nil
  then show ?case by simp
next
  case (Cons c cs)
  obtain s1 where s1: "feed self c s = (s1, None)" "feed self (concat cs) s1 = (s', None)"
    using Cons.prems by (auto simp: feed_append split: prod.splits option.splits)
  then show ?case using Cons.IH [OF s1(2), of EAGAIN] handleEvent_feed [OF s1(1), of err] by auto
qed

section \<open>Arbitrary bytes\<close>

text \<open>
  What the receive buffer looks like between two bytes, whatever was received: a beginning of a
  well-formed header, the announced length once it is known, and never more than that length.
\<close>

definition framer_inv :: "connection \<Rightarrow> bool" where
  "framer_inv c \<longleftrightarrow>
     (let buf = conn_msg_buf c; n = length buf in
        take 3 buf = take n [MAGIC1, MAGIC2, MAGIC3] \<and>
        (4 \<le> n \<longrightarrow> 0 < buf ! 3 \<and> buf ! 3 < MAX_MSG_TYPE) \<and>
        (n \<le> 4 \<longrightarrow> unat (conn_msg_len c) + 5 < 2 ^ 64) \<and>
        (n = 5 \<longrightarrow> conn_msg_len c = push_bit 8 (ucast (buf ! 4)) AND 0xff00) \<and>
        (6 \<le> n \<longrightarrow> n \<le> unat (conn_msg_len c) + 6 \<and> unat (conn_msg_len c) < 2 ^ 16))"

lemma framer_inv_cleared: "framer_inv (c\<lparr>conn_msg_buf := [], conn_msg_len := 0\<rparr>)"
  by (simp add: framer_inv_def)

lemma byte_pair: "\<exists>x. putU16 x = [h, l]"
proof -
  obtain v rest where "getU16 [h, l] = Inr (v, rest)" using codec16.get_total [of "[h, l]"] by auto
  then have "[h, l] = putU16 v @ rest" by (rule codec16.put_get)
  then show ?thesis by (intro exI [of _ v]) (simp add: putU16_def)
qed

lemma msg_type_byte:
  assumes "0 < (ty :: byte)" and "ty < MAX_MSG_TYPE"
  shows "ty \<in> {1, 2, 3, 4}"
proof -
  have "unat ty \<noteq> 0" "unat ty < 5" using assms by (auto simp: magic_values word_less_nat_alt unat_eq_0)
  then have "unat ty \<in> {1, 2, 3, 4}" by auto
  moreover have "ty = word_of_nat (unat ty)" by simp
  ultimately show ?thesis
    by (metis insert_iff empty_iff of_nat_1 of_nat_numeral)
qed

text \<open>With a well-formed type byte the parser never meets an unknown message type.\<close>

lemma parse_known_type:
  assumes "Message_parse ([MAGIC1, MAGIC2, MAGIC3, ty] @ r) = Inl e" and "0 < ty" and "ty < MAX_MSG_TYPE"
  shows "e = Undefined"
proof -
  let ?types = "{MSGTYPE_FILE_OFFER, MSGTYPE_FILE_CHUNK_REQ, MSGTYPE_FILE_CHUNK_DATA,
    MSGTYPE_FILE_COMPLETE}"
  have "ty = 1 \<or> ty = 2 \<or> ty = 3 \<or> ty = 4" using msg_type_byte [OF assms(2,3)] by simp
  then have "\<exists>mt \<in> ?types. [MAGIC1, MAGIC2, MAGIC3, ty] = putU32 mt"
    by (elim disjE) (simp_all add: putU32_msgtype)
  then obtain mt where mt: "[MAGIC1, MAGIC2, MAGIC3, ty] = putU32 mt" "mt \<in> ?types" by blast
  have fails: "parse_body m it = Inl e \<Longrightarrow> msg_type m = mt \<Longrightarrow> e = Undefined" for m it
    using mt(2) by (auto simp: parse_body_def rbind_Inl_iff copy_n_def codec32.get_Inl_iff
        codec16.get_Inl_iff split: if_splits)
  show ?thesis
    using assms(1)
    by (auto simp: mt(1) Message_parse_def wire_simps rbind_Inl_iff copy_n_def codec16.get_Inl_iff
        codec8.get_Inl_iff split: if_splits dest: fails)
qed

lemma unat_len_plus_5: "unat (len :: size_t) + 5 < 2 ^ 64 \<Longrightarrow> unat (len + 6 - 1) = unat len + 5"
  by (simp add: unat_word_ariths)

text \<open>While the magic and the type are read: a matching byte is kept, any other clears.\<close>

definition header_byte :: "nat \<Rightarrow> byte \<Rightarrow> bool" where
  "header_byte n b \<longleftrightarrow>
     (n < 3 \<and> b = [MAGIC1, MAGIC2, MAGIC3] ! n) \<or> (n = 3 \<and> 0 < b \<and> b < MAX_MSG_TYPE)"

lemma process_header_byte:
  assumes "length (conn_msg_buf (rx_conn s)) < 4" and "unat (conn_msg_len (rx_conn s)) + 5 < 2 ^ 64"
  shows "process_byte self b s =
    (if header_byte (length (conn_msg_buf (rx_conn s))) b then push_byte b s else clear_buf s, None)"
proof -
  let ?n = "length (conn_msg_buf (rx_conn s))" and ?len = "conn_msg_len (rx_conn s)"
  have n: "?n < 2 ^ 64" using assms(1) by simp
  have w: "unat (word_of_nat ?n :: size_t) = ?n" using n by (rule unat_of_nat_simps(4))
  then have "unat (word_of_nat ?n :: size_t) \<noteq> unat (?len + 6 - 1)"
    unfolding unat_len_plus_5 [OF assms(2)] using assms(1) by simp
  then have ne: "((word_of_nat ?n :: size_t) = ?len + 6 - 1) = False" by metis
  have short: "(6 \<le> (word_of_nat ?n :: size_t)) = False" using w assms(1) by (simp add: word_le_nat_alt)
  consider "?n = 0" | "?n = 1" | "?n = 2" | "?n = 3" using assms(1) by linarith
  then show ?thesis
    unfolding process_byte_def Let_def ne short simp_thms if_False header_byte_def
    by cases (simp_all only: of_nat_0 of_nat_1 of_nat_numeral, simp_all)
qed

lemma process_late_byte:
  assumes "framer_inv (rx_conn s)" and "6 \<le> length (conn_msg_buf (rx_conn s))"
  shows "process_byte self b s =
    (if length (conn_msg_buf (rx_conn s)) < unat (conn_msg_len (rx_conn s)) + 5 then (push_byte b s, None)
     else if length (conn_msg_buf (rx_conn s)) = unat (conn_msg_len (rx_conn s)) + 5 then
       (case handleMessage self (push_byte b s) of
          (s, Some e) \<Rightarrow> (s, Some e) | (s, None) \<Rightarrow> (clear_buf s, None))
     else (clear_buf s, None))"
proof -
  let ?w = "word_of_nat (length (conn_msg_buf (rx_conn s))) :: size_t"
  let ?len = "conn_msg_len (rx_conn s)"
  have n: "length (conn_msg_buf (rx_conn s)) < 2 ^ 64" "unat ?len + 5 < 2 ^ 64"
    using assms by (auto simp: framer_inv_def Let_def)
  have w: "unat ?w = length (conn_msg_buf (rx_conn s))" using n(1) by (rule unat_of_nat_simps(4))
  then have past: "6 \<le> unat ?w" using assms(2) by simp
  have cmp: "?w < ?len + 6 - 1 \<longleftrightarrow> length (conn_msg_buf (rx_conn s)) < unat ?len + 5"
    "?w = ?len + 6 - 1 \<longleftrightarrow> length (conn_msg_buf (rx_conn s)) = unat ?len + 5"
    using unat_len_plus_5 [OF n(2)] w by (metis word_less_nat_alt, metis word_unat_eq_iff)
  show ?thesis
    unfolding process_byte_def Let_def cmp using past_header [OF past] by simp
qed

lemma handleMessage_conn: "handleMessage self s = (s', x) \<Longrightarrow> rx_conn s' = rx_conn s"
  by (auto simp: handleMessage_def split: sum.splits option.splits)

lemma handleMessage_exn: "handleMessage self s = (s', Some e) \<Longrightarrow> Message_parse (conn_msg_buf (rx_conn s)) = Inl e"
  by (auto simp: handleMessage_def split: sum.splits option.splits)

lemma clear_buf_conn: "rx_conn (clear_buf s) = (rx_conn s)\<lparr>conn_msg_buf := [], conn_msg_len := 0\<rparr>"
  by (simp add: clear_buf_def)

lemma push_byte_conn:
  "rx_conn (push_byte b s) = (rx_conn s)\<lparr>conn_msg_buf := conn_msg_buf (rx_conn s) @ [b]\<rparr>"
  by (simp add: push_byte_def)

lemma framer_inv_push_header:
  assumes "framer_inv c" and "length (conn_msg_buf c) < 4" and "header_byte (length (conn_msg_buf c)) b"
  shows "framer_inv (c\<lparr>conn_msg_buf := conn_msg_buf c @ [b]\<rparr>)"
proof -
  have "length (conn_msg_buf c) = 0 \<or> length (conn_msg_buf c) = 1 \<or> length (conn_msg_buf c) = 2 \<or>
      length (conn_msg_buf c) = 3" using assms(2) by linarith
  then show ?thesis
    using assms(1,3)
    by (elim disjE) (simp_all add: framer_inv_def Let_def header_byte_def nth_append)
qed

lemma framer_inv_push_late:
  assumes "framer_inv c" and "6 \<le> length (conn_msg_buf c)"
    and "length (conn_msg_buf c) \<le> unat (conn_msg_len c) + 5"
  shows "framer_inv (c\<lparr>conn_msg_buf := conn_msg_buf c @ [b]\<rparr>)"
  using assms by (auto simp: framer_inv_def Let_def nth_append)

lemma framer_inv_len_bytes:
  assumes "framer_inv c" and "length (conn_msg_buf c) = 4 \<or> length (conn_msg_buf c) = 5"
    and "conn_msg_buf c' = conn_msg_buf c @ [b]"
    and "conn_msg_len c' = (if length (conn_msg_buf c) = 4 then push_bit 8 (ucast b) AND 0xff00
      else conn_msg_len c OR (ucast b AND 0x00ff))"
  shows "framer_inv c'"
proof (cases "length (conn_msg_buf c) = 4")
  case True
  then show ?thesis using assms by (simp add: framer_inv_def Let_def nth_append)
next
  case False
  then have n: "length (conn_msg_buf c) = 5" using assms(2) by simp
  obtain x where "putU16 x = [conn_msg_buf c ! 4, b]" using byte_pair by blast
  then have "conn_msg_len c' = ucast x"
    using assms(1,4) n frame_length_word [of x] by (simp add: framer_inv_def Let_def)
  then show ?thesis
    using assms(1,3) n unat_bounds(2) [of x] by (simp add: framer_inv_def Let_def nth_append)
qed

text \<open>The buffer starts with a good header once four bytes are in.\<close>

lemma framer_inv_header:
  assumes "framer_inv c" and "4 \<le> length (conn_msg_buf c)"
  obtains ty r where "conn_msg_buf c = [MAGIC1, MAGIC2, MAGIC3, ty] @ r" and "0 < ty" and "ty < MAX_MSG_TYPE"
proof -
  have three: "take 3 (conn_msg_buf c) = [MAGIC1, MAGIC2, MAGIC3]"
    and ty: "0 < conn_msg_buf c ! 3" "conn_msg_buf c ! 3 < MAX_MSG_TYPE"
    using assms by (simp_all add: framer_inv_def Let_def)
  have "conn_msg_buf c = take 3 (conn_msg_buf c) @ conn_msg_buf c ! 3 # drop 4 (conn_msg_buf c)"
    using assms(2) id_take_nth_drop [of 3 "conn_msg_buf c"] by simp
  then show thesis using that [of "conn_msg_buf c ! 3" "drop 4 (conn_msg_buf c)"] three ty by simp
qed

lemma framer_inv_byte:
  assumes inv: "framer_inv (rx_conn s)" and run: "process_byte self b s = (s', x)"
  shows "framer_inv (rx_conn s') \<and> (x = None \<or> x = Some Undefined)"
proof -
  let ?n = "length (conn_msg_buf (rx_conn s))"
  consider (header) "?n < 4" | (len) "?n = 4 \<or> ?n = 5" | (late) "6 \<le> ?n" by linarith
  then show ?thesis
  proof cases
    case header
    then show ?thesis
      using inv run process_header_byte [of s self b] framer_inv_push_header [OF inv header, of b]
      by (auto simp: framer_inv_def [of "rx_conn s"] Let_def clear_buf_conn framer_inv_cleared
          push_byte_conn split: if_splits)
  next
    case len
    have "x = None" "framer_inv (rx_conn s')"
      using len run
      by (auto simp: process_byte_def Let_def set_len_def push_byte_def
          intro!: framer_inv_len_bytes [OF inv len])
    then show ?thesis by simp
  next
    case late
    let ?L = "unat (conn_msg_len (rx_conn s))"
    have push: "framer_inv (rx_conn (push_byte b s))" if "?n \<le> ?L + 5"
      using framer_inv_push_late [OF inv late that] by (simp add: push_byte_conn)
    obtain h y where h: "handleMessage self (push_byte b s) = (h, y)" by fastforce
    have conn: "rx_conn h = rx_conn (push_byte b s)" using handleMessage_conn [OF h] .
    have "e = Undefined" if "y = Some e" "?n \<le> ?L + 5" for e
    proof -
      have "4 \<le> length (conn_msg_buf (rx_conn (push_byte b s)))" using late by (simp add: push_byte_conn)
      from framer_inv_header [OF push [OF that(2)] this] handleMessage_exn [OF h [unfolded that(1)]]
      show ?thesis by (metis parse_known_type)
    qed
    then show ?thesis
      using run push conn unfolding process_late_byte [OF inv late] h prod.case
      by (cases y) (auto simp: clear_buf_conn framer_inv_cleared split: if_splits)
  qed
qed

lemma framer_inv_feed:
  "framer_inv (rx_conn s) \<Longrightarrow> feed self bs s = (s', x) \<Longrightarrow>
   framer_inv (rx_conn s') \<and> (x = None \<or> x = Some Undefined)"
proof (induction bs arbitrary: s)
  case Nil
  then show ?case by simp
next
  case (Cons b bs)
  obtain s1 y where s1: "process_byte self b s = (s1, y)" by fastforce
  show ?case
    using framer_inv_byte [OF Cons.prems(1) s1] Cons.prems(2) Cons.IH [of s1] s1
    by (cases y) auto
qed

lemma framer_inv_size: "framer_inv c \<Longrightarrow> length (conn_msg_buf c) \<le> 65541"
  by (cases "6 \<le> length (conn_msg_buf c)") (auto simp: framer_inv_def Let_def)

lemma feed_garbage:
  assumes "conn_msg_buf (rx_conn s) = []" and "conn_msg_len (rx_conn s) = 0" and "MAGIC1 \<notin> set g"
  shows "feed self g s = (s, None)"
  using assms(3)
proof (induction g)
  case (Cons b g)
  have "process_byte self b s = (clear_buf s, None)"
    using Cons.prems assms by (subst process_header_byte) (auto simp: header_byte_def)
  moreover have "clear_buf s = s" using assms by (simp add: clear_buf_def)
  ultimately show ?case using Cons by simp
qed simp

section \<open>Descriptors\<close>

lemma try_connect_fds:
  "try_connect sock cnct fd0 addrs = (fd, opened, closed) \<Longrightarrow> fd0 < 0 \<Longrightarrow>
   opened = (if fd < 0 then closed else closed @ [fd])"
proof (induction addrs arbitrary: fd0 fd opened closed)
  case Nil
  then show ?case by simp
next
  case (Cons a addrs)
  show ?case
  proof (cases "sock a < 0")
    case True
    then show ?thesis using Cons.prems Cons.IH [of "sock a" fd opened closed] by (simp add: Let_def)
  next
    case False
    obtain fd' os cs where rest: "try_connect sock cnct (-1) addrs = (fd', os, cs)"
      by (metis prod.collapse)
    show ?thesis
      using Cons.prems False Cons.IH [OF rest] by (auto simp: Let_def rest split: if_splits)
  qed
qed

lemma Connection_host_fds:
  assumes "Connection_host sys sock cnct junk ret addrs = (r, opened, closed)"
  shows "opened = closed @ (case r of Inr c \<Rightarrow> Connection_destroy c | Inl _ \<Rightarrow> [])"
proof -
  obtain fd os cs where t: "try_connect sock cnct (-1) addrs = (fd, os, cs)" by (metis prod.collapse)
  have "os = (if fd < 0 then cs else cs @ [fd])" using try_connect_fds [OF t] by simp
  then show ?thesis
    using assms
    by (auto simp: Connection_host_def t Connection_destroy_def split: if_splits prod.splits sum.splits)
qed

section \<open>One event on arbitrary bytes\<close>

lemma recv_loop_exn:
  "feed self bs s = (s', Some e) \<Longrightarrow>
   \<exists>rest err'. recv_loop self (map RecvByte bs) s err = (rest, s', err', Some e)"
  by (induction bs arbitrary: s err) (auto split: prod.splits option.splits)

lemma handleEvent_exn:
  assumes "feed self bs s = (s', Some e)"
  shows "\<exists>rest err'. handleEvent self (map RecvByte bs) s err = (rest, s', err', Some e)"
  using recv_loop_exn [OF assms, of err] by (auto simp: handleEvent_def)

lemma handleEvent_cases:
  obtains s' where "feed self bs s = (s', None)"
      and "handleEvent self (map RecvByte bs) s err = ([], s', EAGAIN, None)"
  | s' e rest err' where "feed self bs s = (s', Some e)"
      and "handleEvent self (map RecvByte bs) s err = (rest, s', err', Some e)"
proof (cases "feed self bs s")
  case (Pair s' x)
  then show thesis
    using that handleEvent_feed [of self bs s s' err] handleEvent_exn [of self bs s s' _ err]
    by (cases x) blast+
qed

section \<open>Properties of the connections\<close>

definition sample_rx :: rx where
  "sample_rx = \<lparr>rx_conn = \<lparr>conn_fd = 5, conn_msg_buf = [], conn_msg_len = 12345\<rparr>,
     rx_broker = Some (broker_init 0)\<rparr>"

text \<open>
  C7.  A stream of serialized messages, cut into pieces in any way, one piece per event, is
  delivered completely: no event throws, the buffer is empty at the end, and the broker's queue
  has grown by exactly one request per message, in order, with the message as sent.  The
  uninitialized \<open>msg_len\<close> of a new connection makes no difference.
\<close>

theorem stream_delivers:
  assumes "frames_of ms fs" and "concat pieces = concat fs"
    and "conn_msg_buf (rx_conn s) = []" and "rx_broker s = Some b"
  shows "\<exists>s' err' b'. handle_events self [] pieces s err = ([], s', err', []) \<and>
    conn_msg_buf (rx_conn s') = [] \<and> conn_fd (rx_conn s') = conn_fd (rx_conn s) \<and>
    rx_broker s' = Some b' \<and> sm_req_list b' = sm_req_list b @ arrived_all self ms fs"
proof -
  obtain s' where s': "feed self (concat pieces) s = (s', None)" "conn_msg_buf (rx_conn s') = []"
    "conn_fd (rx_conn s') = conn_fd (rx_conn s)"
    "rx_broker s' = rx_broker (deliver (arrived_all self ms fs) s)"
    using feed_messages [OF assms(1,3), of self] assms(2) by metis
  then show ?thesis
    using handle_events_feed [OF s'(1), of err] assms(4) sink.put_all_pending [of "arrived_all self ms fs" b]
    by (auto simp: deliver_def)
qed

theorem stream_delivers_witness:
  "\<exists>s' err' b'. handle_events 3 [] [take 10 sample_frame, drop 10 sample_frame] sample_rx ENONE =
      ([], s', err', []) \<and>
    conn_msg_buf (rx_conn s') = [] \<and> conn_fd (rx_conn s') = conn_fd (rx_conn sample_rx) \<and>
    rx_broker s' = Some b' \<and>
    sm_req_list b' = sm_req_list (broker_init 0) @ arrived_all 3 [sample_req] [sample_frame]"
  by (rule stream_delivers)
    (simp_all add: frames_of_def sample_serialized sample_uuid sample_rx_def)

text \<open>
  C21.  Whatever bytes arrive, the receive buffer stays within its invariant and below 65542
  bytes, and \<open>handleEvent\<close> throws none of the exceptions of the message parser: it never sees an
  unsupported type.  The only thing that can go wrong is a read outside the buffer.
\<close>

theorem framer_safe:
  assumes "framer_inv (rx_conn s)" and "handleEvent self (map RecvByte bs) s err = (rest, s', err', x)"
  shows "framer_inv (rx_conn s') \<and> length (conn_msg_buf (rx_conn s')) \<le> 65541 \<and>
    (x = None \<or> x = Some Undefined)"
proof (cases rule: handleEvent_cases [of self bs s err])
  case (1 s'')
  then show ?thesis
    using assms framer_inv_feed [OF assms(1) 1(1)] framer_inv_size [of "rx_conn s''"] by auto
next
  case (2 s'' e rest err')
  then show ?thesis
    using assms framer_inv_feed [OF assms(1) 2(1)] framer_inv_size [of "rx_conn s''"] by auto
qed

theorem framer_safe_witness:
  "framer_inv (rx_conn (push_byte MAGIC1 sample_rx)) \<and>
    length (conn_msg_buf (rx_conn (push_byte MAGIC1 sample_rx))) \<le> 65541 \<and>
    ((None :: ft_exn option) = None \<or> (None :: ft_exn option) = Some Undefined)"
proof (rule framer_safe [where s = sample_rx and bs = "[MAGIC1]" and rest = "[]" and err' = EAGAIN
      and err = ENONE and self = 0])
  show "framer_inv (rx_conn sample_rx)" by (simp add: framer_inv_def sample_rx_def)
  show "handleEvent 0 (map RecvByte [MAGIC1]) sample_rx ENONE =
      ([], push_byte MAGIC1 sample_rx, EAGAIN, None)"
    by (simp add: handleEvent_def process_byte_def sample_rx_def)
qed

text \<open>
  C40.  The connection accepts a frame whose length field is smaller than its contents need: the
  parser then reads past the end of the received bytes.
\<close>

theorem short_frame_out_of_bounds:
  assumes "conn_msg_buf (rx_conn s) = []" and "0 < ty" and "ty < MAX_MSG_TYPE"
    and "unat x = length d" and "d \<noteq> []"
    and "frame = [MAGIC1, MAGIC2, MAGIC3, ty] @ putU16 x @ d" and "length frame < wire_demand frame"
  shows "\<exists>rest s' err'. handleEvent self (map RecvByte frame) s err = (rest, s', err', Some Undefined)"
proof -
  have "Message_parse frame = Inl Undefined" using assms(7) parse_undefined_iff by blast
  then have "feed self frame s = (rx_at s frame (ucast x), Some Undefined)"
    using feed_frame [OF assms(1-5), of self, folded assms(6)] by (simp add: handleMessage_def)
  then show ?thesis using handleEvent_exn by blast
qed

theorem short_frame_witness:
  "\<exists>rest s' err'. handleEvent 0 (map RecvByte [0x87, 0xFE, 0x77, 4, 0, 1, 0]) sample_rx ENONE =
    (rest, s', err', Some Undefined)"
  by (rule short_frame_out_of_bounds [where ty = 4 and x = 1 and d = "[0]"])
    (simp_all add: sample_rx_def magic_values putU16_def wire_demand_def)

text \<open>
  Between messages, bytes other than the first magic byte are skipped: the messages after
  them arrive as if they had not been there.
\<close>

theorem garbage_skipped:
  assumes "MAGIC1 \<notin> set g" and "frames_of ms fs" and "concat pieces = g @ concat fs"
    and "conn_msg_buf (rx_conn s) = []" and "conn_msg_len (rx_conn s) = 0" and "rx_broker s = Some b"
  shows "\<exists>s' err' b'. handle_events self [] pieces s err = ([], s', err', []) \<and>
    rx_broker s' = Some b' \<and> sm_req_list b' = sm_req_list b @ arrived_all self ms fs"
proof -
  obtain s' where s': "feed self (concat fs) s = (s', None)"
    "rx_broker s' = rx_broker (deliver (arrived_all self ms fs) s)"
    using feed_messages [OF assms(2,4), of self] by metis
  have "feed self (concat pieces) s = (s', None)"
    using feed_garbage [OF assms(4,5,1)] s'(1) by (simp add: assms(3) feed_append)
  from handle_events_feed [OF this, of err] show ?thesis
    using s'(2) assms(6) sink.put_all_pending [of "arrived_all self ms fs" b] by (auto simp: deliver_def)
qed

theorem garbage_skipped_witness:
  "\<exists>s' err' b'. handle_events 0 [] [[1, 2, 3] @ sample_frame] (clear_buf sample_rx) ENONE =
      ([], s', err', []) \<and>
    rx_broker s' = Some b' \<and>
    sm_req_list b' = sm_req_list (broker_init 0) @ arrived_all 0 [sample_req] [sample_frame]"
  by (rule garbage_skipped [where g = "[1, 2, 3]"])
    (simp_all add: frames_of_def sample_serialized sample_uuid sample_rx_def clear_buf_def magic_values)

text \<open>
  The client's constructor loses no descriptor: every socket it opened was closed again,
  except the one of the connection it returns, which the destructor will close.
\<close>

theorem constructor_closes_sockets:
  "case Connection_host sys sock cnct junk ret addrs of
     (r, opened, closed) \<Rightarrow> opened = closed @ (case r of Inr c \<Rightarrow> Connection_destroy c | Inl _ \<Rightarrow> [])"
  using Connection_host_fds [of sys sock cnct junk ret addrs] by (auto split: prod.splits)

text \<open>
  When the peer closes the connection the descriptor is forgotten, not closed: after
  \<open>handleEvent\<close> has seen the end of the stream the destructor closes nothing.
\<close>

theorem closed_peer_leaks:
  "Connection_destroy (rx_conn (fst (snd (handleEvent self [RecvClosed] s err)))) = []"
  by (simp add: handleEvent_def Connection_destroy_def)

text \<open>
  A full send buffer loses a message without a trace: when \<open>send\<close> takes only a part of it,
  \<open>sendBuffer\<close> returns as usual, and the receiver of that part, with nothing else to come, keeps it
  in its buffer and queues no request.
\<close>

theorem short_send_stalls:
  assumes "serialize m [] = Inr buf" and "length (client_uuid m) = UUID_SIZE" and "k < length buf"
    and "conn_msg_buf (rx_conn r) = []"
  shows "\<exists>sent r'. sendBuffer c (Sent k) buf = (sent, None) \<and>
    handleEvent self (map RecvByte sent) r err = ([], r', EAGAIN, None) \<and>
    conn_msg_buf (rx_conn r') = sent \<and> rx_broker r' = rx_broker r"
proof -
  obtain ty x d where f: "buf = [MAGIC1, MAGIC2, MAGIC3, ty] @ putU16 x @ d" "0 < ty"
    "ty < MAX_MSG_TYPE" "unat x = length d" "length buf = 6 + length d"
    using serialize_frame [OF assms(1,2)] by metis
  obtain r' where "feed self (take k buf) r = (r', None)" "conn_msg_buf (rx_conn r') = take k buf"
    "rx_broker r' = rx_broker r"
    using feed_cut [OF assms(4) f(2-4), of k self, folded f(1)] assms(3) f(5) by auto
  then show ?thesis using handleEvent_feed by (simp add: sendBuffer_def)
qed

text \<open>
  \<open>msg_len\<close> starts with whatever the memory held: with the value \<open>2 ^ 64 - 5\<close> the first byte of a new
  connection that is not the first magic byte counts as a complete frame, and the parser reads
  outside its one-byte buffer.
\<close>

theorem junk_length_out_of_bounds:
  assumes "Connection_accepted sys (- 5) fd = (Inr c, closed)" and "b \<noteq> MAGIC1"
  shows "\<exists>r'. process_byte self b \<lparr>rx_conn = c, rx_broker = br\<rparr> = (r', Some Undefined)"
proof -
  have c: "c = \<lparr>conn_fd = fd, conn_msg_buf = [], conn_msg_len = - 5\<rparr>"
    using assms(1) by (auto simp: Connection_accepted_def split: prod.splits sum.splits)
  have "Message_parse [b] = Inl Undefined" by (simp add: Message_parse_def)
  then show ?thesis using assms(2) by (simp add: c process_byte_def Let_def push_byte_def handleMessage_def)
qed

text \<open>
  The socket setup succeeds exactly when each of its six calls does, and then it made the
  socket non-blocking and set keep-alive, in this order; otherwise it stops at the first failure.
\<close>

theorem socket_setup_calls:
  "case setup_socket_options sys fd of (calls, r) \<Rightarrow>
     let all = [F_GETFL, F_SETFL (fst (sys fd F_GETFL) OR O_NONBLOCK), SO_KEEPALIVE 1, TCP_KEEPIDLE 1,
           TCP_KEEPINTVL 1, TCP_KEEPCNT 10];
         good = (\<lambda>c. case c of F_SETFL _ \<Rightarrow> fst (sys fd c) = 0 | _ \<Rightarrow> 0 \<le> fst (sys fd c))
     in (r = Inr () \<longleftrightarrow> list_all good all) \<and> calls = take (length calls) all \<and>
        list_all good (butlast calls)"
  by (auto simp: setup_socket_options_def Let_def split: prod.splits if_splits)

end
