(* ===== verification/FT_Fs.thy ===== *)
theory FT_Fs
  imports FT_Prelude
begin

text \<open>
  The part of the C++ standard library the sources do their file work with:
  \<open>std::filesystem::path\<close> (lexical operations on POSIX paths), the file system as a map from
  resolved paths to directories and regular files, and \<open>std::fstream\<close> objects as a position
  and a state flag over that map.  Symbolic links, permissions and full disks are left out;
  relative paths resolve against the root directory.
\<close>

section \<open>Paths\<close>

type_synonym path = bytes
type_synonym key = "bytes list"

abbreviation (input) slash :: byte where "slash \<equiv> 0x2f"
abbreviation (input) dot :: byte where "dot \<equiv> 0x2e"

text \<open>\<open>path::operator/=\<close>: an absolute right operand replaces the left one.\<close>

definition path_append :: "path \<Rightarrow> path \<Rightarrow> path" where
  "path_append p q =
     (if q \<noteq> [] \<and> hd q = slash then q
      else if p \<noteq> [] \<and> last p \<noteq> slash then p @ slash # q
      else p @ q)"

definition path_filename :: "path \<Rightarrow> bytes" where
  "path_filename p = rev (takeWhile (\<lambda>c. c \<noteq> slash) (rev p))"

definition parent_path :: "path \<Rightarrow> path" where
  "parent_path p =
     (let d = dropWhile (\<lambda>c. c \<noteq> slash) (rev p);
          t = rev (dropWhile (\<lambda>c. c = slash) d)
      in if t = [] \<and> d \<noteq> [] then [slash] else t)"

text \<open>The names between the separators, and what the system resolves them to.\<close>

fun components :: "path \<Rightarrow> bytes list" where
  "components [] = [[]]"
| "components (c # cs) =
     (if c = slash then [] # components cs
      else case components cs of [] \<Rightarrow> [[c]] | w # ws \<Rightarrow> (c # w) # ws)"

fun resolve :: "key \<Rightarrow> bytes list \<Rightarrow> key" where
  "resolve st [] = st"
| "resolve st (w # ws) =
     (if w = [] \<or> w = [dot] then resolve st ws
      else if w = [dot, dot] then resolve (butlast st) ws
      else resolve (st @ [w]) ws)"

definition canon :: "path \<Rightarrow> key" where
  "canon p = resolve [] (components p)"

text \<open>A name that denotes an entry of the directory it is looked up in.\<close>

definition simple_name :: "bytes \<Rightarrow> bool" where
  "simple_name w \<longleftrightarrow> w \<noteq> [] \<and> slash \<notin> set w \<and> w \<noteq> [dot] \<and> w \<noteq> [dot, dot]"

lemma components_not_Nil [simp]: "components p \<noteq> []"
  by (induction p) (auto split: list.splits)

lemma components_append_slash [path_simps]:
  "components (xs @ slash # ys) = components xs @ components ys"
  by (induction xs) (auto split: list.splits)

lemma components_noslash [path_simps]: "slash \<notin> set w \<Longrightarrow> components w = [w]"
  by (induction w) auto

lemma resolve_append: "resolve st (xs @ ys) = resolve (resolve st xs) ys"
  by (induction st xs rule: resolve.induct) auto

lemma canon_snoc [path_simps]:
  "simple_name w \<Longrightarrow> canon (p @ slash # w) = canon p @ [w]"
  by (simp add: canon_def simple_name_def components_append_slash components_noslash
      resolve_append)

lemma filename_snoc [path_simps]:
  "slash \<notin> set w \<Longrightarrow> path_filename (p @ slash # w) = w"
  by (simp add: path_filename_def takeWhile_append)

lemma parent_snoc [path_simps]:
  assumes "slash \<notin> set w" and "p \<noteq> []" and "last p \<noteq> slash"
  shows "parent_path (p @ slash # w) = p"
proof -
  have "dropWhile (\<lambda>c. c = slash) (slash # rev p) = rev p"
    using assms(2,3) by (cases p rule: rev_cases) auto
  then show ?thesis
    using assms last_in_set [of p] by (auto simp: parent_path_def dropWhile_append Let_def)
qed

lemma path_append_name [path_simps]:
  assumes "slash \<notin> set w" and "p \<noteq> []" and "last p \<noteq> slash"
  shows "path_append p w = p @ slash # w"
  using assms by (cases w) (auto simp: path_append_def)

lemma path_append_absolute: "path_append p (slash # q) = slash # q"
  by (simp add: path_append_def)

section \<open>The file system\<close>

datatype node = Dir | Regular bytes

type_synonym fsys = "key \<Rightarrow> node option"

definition node_at :: "fsys \<Rightarrow> key \<Rightarrow> node option" where
  "node_at fs k = (if k = [] then Some Dir else fs k)"

definition fs_exists :: "fsys \<Rightarrow> path \<Rightarrow> bool" where
  "fs_exists fs p \<longleftrightarrow> p \<noteq> [] \<and> node_at fs (canon p) \<noteq> None"

definition file_data :: "fsys \<Rightarrow> key \<Rightarrow> bytes option" where
  "file_data fs k = (case node_at fs k of Some (Regular d) \<Rightarrow> Some d | _ \<Rightarrow> None)"

definition is_regular_file :: "fsys \<Rightarrow> path \<Rightarrow> bool" where
  "is_regular_file fs p \<longleftrightarrow> p \<noteq> [] \<and> file_data fs (canon p) \<noteq> None"

definition fs_file_size :: "fsys \<Rightarrow> path \<Rightarrow> size_t" where
  "fs_file_size fs p =
     (case file_data fs (canon p) of Some d \<Rightarrow> word_of_nat (length d) | None \<Rightarrow> 0)"

text \<open>\<open>std::filesystem::create_directories\<close>, component by component.\<close>

fun mkdirs :: "fsys \<Rightarrow> key \<Rightarrow> bytes list \<Rightarrow> unit result \<times> fsys" where
  "mkdirs fs pre [] = (Inr (), fs)"
| "mkdirs fs pre (w # ws) =
     (case fs (pre @ [w]) of
        None \<Rightarrow> mkdirs (fs(pre @ [w] \<mapsto> Dir)) (pre @ [w]) ws
      | Some Dir \<Rightarrow> mkdirs fs (pre @ [w]) ws
      | Some (Regular _) \<Rightarrow> (Inl Filesystem_error, fs))"

definition create_directories :: "fsys \<Rightarrow> path \<Rightarrow> unit result \<times> fsys" where
  "create_directories fs p =
     (if p = [] then (Inl Filesystem_error, fs) else mkdirs fs [] (canon p))"

section \<open>File streams\<close>

text \<open>
  A stream knows its file, its position and whether it still is usable
  (\<open>st_ok\<close> is the stream's conversion to \<open>bool\<close>).  An operation on a failed stream does nothing.
\<close>

record fstream =
  st_key :: key
  st_pos :: nat
  st_ok :: bool

definition stream_data :: "fsys \<Rightarrow> fstream \<Rightarrow> bytes" where
  "stream_data fs st = (case file_data fs (st_key st) of Some d \<Rightarrow> d | None \<Rightarrow> [])"

text \<open>
  Opening for input, or for input and output together, needs a regular file.  Opening for
  output creates the file or empties it, if its directory exists.
\<close>

definition open_in :: "fsys \<Rightarrow> path \<Rightarrow> fstream" where
  "open_in fs p = \<lparr>st_key = canon p, st_pos = 0, st_ok = is_regular_file fs p\<rparr>"

abbreviation open_inout :: "fsys \<Rightarrow> path \<Rightarrow> fstream" where
  "open_inout \<equiv> open_in"

definition can_create :: "fsys \<Rightarrow> key \<Rightarrow> bool" where
  "can_create fs k \<longleftrightarrow> k \<noteq> [] \<and> node_at fs (butlast k) = Some Dir \<and> fs k \<noteq> Some Dir"

definition open_out :: "fsys \<Rightarrow> path \<Rightarrow> fstream \<times> fsys" where
  "open_out fs p =
     (if p \<noteq> [] \<and> can_create fs (canon p)
      then (\<lparr>st_key = canon p, st_pos = 0, st_ok = True\<rparr>, fs(canon p \<mapsto> Regular []))
      else (\<lparr>st_key = canon p, st_pos = 0, st_ok = False\<rparr>, fs))"

text \<open>A seek to an offset that is negative as a signed 64-bit number fails.\<close>

definition st_seek :: "fstream \<Rightarrow> size_t \<Rightarrow> fstream" where
  "st_seek st off =
     (if st_ok st \<and> 0 \<le> sint off then st\<lparr>st_pos := unat off\<rparr> else st\<lparr>st_ok := False\<rparr>)"

text \<open>Reading \<open>n\<close> bytes: fewer at the end of the file, and then the stream has failed.\<close>

definition st_read :: "fsys \<Rightarrow> fstream \<Rightarrow> nat \<Rightarrow> bytes \<times> fstream" where
  "st_read fs st n =
     (if st_ok st
      then let d = read_at (stream_data fs st) (st_pos st) n
           in (d, st\<lparr>st_pos := st_pos st + length d, st_ok := (length d = n)\<rparr>)
      else ([], st))"

definition st_write :: "fsys \<Rightarrow> fstream \<Rightarrow> bytes \<Rightarrow> fstream \<times> fsys" where
  "st_write fs st d =
     (if st_ok st \<and> d \<noteq> []
      then (st\<lparr>st_pos := st_pos st + length d\<rparr>,
            fs(st_key st \<mapsto> Regular (write_at (stream_data fs st) (st_pos st) d)))
      else (st, fs))"

definition st_tell :: "fstream \<Rightarrow> int" where
  "st_tell st = (if st_ok st then int (st_pos st) else - 1)"

section \<open>Facts on the file system\<close>

lemma file_data_update [fs_simps]:
  "k \<noteq> [] \<Longrightarrow> file_data (fs(k \<mapsto> Regular d)) k' = (if k' = k then Some d else file_data fs k')"
  by (simp add: file_data_def node_at_def)

lemma node_at_update [fs_simps]:
  "k \<noteq> [] \<Longrightarrow> node_at (fs(k \<mapsto> n)) k' = (if k' = k then Some n else node_at fs k')"
  by (auto simp: node_at_def)

lemma file_data_Nil [simp]: "file_data fs [] = None"
  by (simp add: file_data_def node_at_def)

lemma file_data_node_at: "file_data fs k = Some d \<longleftrightarrow> node_at fs k = Some (Regular d)"
  by (auto simp: file_data_def split: option.splits node.splits)

lemma file_data_not_Dir: "file_data fs k = Some d \<Longrightarrow> fs k = Some (Regular d)"
  by (auto simp: file_data_node_at node_at_def split: if_splits)

text \<open>Creating directories keeps every regular file, and makes the requested directory.\<close>

lemma mkdirs_keeps:
  "mkdirs fs pre ws = (r, fs') \<Longrightarrow> node_at fs k \<noteq> None \<Longrightarrow> node_at fs' k = node_at fs k"
proof (induction fs pre ws rule: mkdirs.induct)
  case (1 fs pre)
  then show ?case by simp
next
  case (2 fs pre w ws)
  show ?case
  proof (cases "fs (pre @ [w])")
    case None
    then have ne: "k \<noteq> pre @ [w]" using 2 by (auto simp: node_at_def)
    then have same: "node_at (fs(pre @ [w] \<mapsto> Dir)) k = node_at fs k"
      by (simp add: node_at_def)
    have run: "mkdirs (fs(pre @ [w] \<mapsto> Dir)) (pre @ [w]) ws = (r, fs')"
      using "2.prems"(1) None by simp
    have "node_at (fs(pre @ [w] \<mapsto> Dir)) k \<noteq> None" using same "2.prems"(2) by simp
    from "2.IH"(1) [OF None run this] same show ?thesis by (simp add: fun_upd_def)
  next
    case (Some n)
    then show ?thesis using 2 by (cases n) auto
  qed
qed

lemma mkdirs_makes:
  "mkdirs fs pre ws = (Inr u, fs') \<Longrightarrow> node_at fs pre = Some Dir \<Longrightarrow>
   node_at fs' (pre @ ws) = Some Dir"
proof (induction fs pre ws rule: mkdirs.induct)
  case (1 fs pre)
  then show ?case by simp
next
  case (2 fs pre w ws)
  show ?case
  proof (cases "fs (pre @ [w])")
    case None
    with "2.prems"(1) have run: "mkdirs (fs(pre @ [w] \<mapsto> Dir)) (pre @ [w]) ws = (Inr u, fs')"
      by simp
    have "node_at (fs(pre @ [w] \<mapsto> Dir)) (pre @ [w]) = Some Dir" by (simp add: node_at_def)
    from "2.IH"(1) [OF None run this] show ?thesis by simp
  next
    case (Some n)
    with 2 show ?thesis by (cases n) (auto simp: node_at_def)
  qed
qed

text \<open>The directories on the way to a key, itself included.\<close>

definition dirs_to :: "key \<Rightarrow> key set" where
  "dirs_to k = {take i k | i. i \<le> length k}"

lemma dirs_to_Cons: "(\<lambda>j. pre @ w # j) ` dirs_to ws \<subseteq> (\<lambda>j. pre @ j) ` dirs_to (w # ws)"
proof -
  have "\<exists>i'. w # take i ws = take i' (w # ws) \<and> i' \<le> Suc (length ws)" if "i \<le> length ws" for i
    using that by (intro exI [of _ "Suc i"]) simp
  then show ?thesis unfolding dirs_to_def by fastforce
qed

lemma mkdirs_new_dirs:
  "mkdirs fs pre ws = (r, fs') \<Longrightarrow> fs k = None \<Longrightarrow>
   fs' k = None \<or> (fs' k = Some Dir \<and> k \<in> (\<lambda>j. pre @ j) ` dirs_to ws)"
proof (induction fs pre ws rule: mkdirs.induct)
  case (1 fs pre)
  then show ?case by simp
next
  case (2 fs pre w ws)
  have sub: "k \<in> (\<lambda>j. (pre @ [w]) @ j) ` dirs_to ws \<Longrightarrow> k \<in> (\<lambda>j. pre @ j) ` dirs_to (w # ws)"
    using dirs_to_Cons [of pre w ws] by auto
  show ?case
  proof (cases "fs (pre @ [w])")
    case None
    with "2.prems"(1) have run: "mkdirs (fs(pre @ [w] \<mapsto> Dir)) (pre @ [w]) ws = (r, fs')" by simp
    show ?thesis
    proof (cases "k = pre @ [w]")
      case True
      moreover have "k \<in> (\<lambda>j. pre @ j) ` dirs_to (w # ws)"
        using True by (intro image_eqI [of _ _ "[w]"]) (auto simp: dirs_to_def intro: exI [of _ 1])
      ultimately show ?thesis using mkdirs_keeps [OF run, of k] by (simp add: node_at_def)
    next
      case False
      with "2.prems"(2) have "(fs(pre @ [w] \<mapsto> Dir)) k = None" by simp
      with "2.IH"(1) [OF None run] show ?thesis using sub by blast
    qed
  next
    case (Some n)
    then show ?thesis using 2 sub by (cases n) auto
  qed
qed

lemma create_directories_keeps:
  "create_directories fs p = (r, fs') \<Longrightarrow> file_data fs k = Some d \<Longrightarrow> file_data fs' k = Some d"
  by (auto simp: create_directories_def file_data_node_at split: if_splits dest: mkdirs_keeps)

lemma create_directories_makes:
  "create_directories fs p = (Inr u, fs') \<Longrightarrow> node_at fs' (canon p) = Some Dir"
  using mkdirs_makes [of fs "[]" "canon p"]
  by (auto simp: create_directories_def node_at_def split: if_splits)

text \<open>Nothing happens when the directory is already there.\<close>

lemma mkdirs_id:
  "(\<forall>i \<le> length ws. node_at fs (pre @ take i ws) = Some Dir) \<Longrightarrow> mkdirs fs pre ws = (Inr (), fs)"
proof (induction ws arbitrary: pre)
  case Nil
  then show ?case by simp
next
  case (Cons w ws)
  have "fs (pre @ [w]) = Some Dir"
    using Cons.prems [rule_format, of 1] by (simp add: node_at_def)
  moreover have "\<forall>i \<le> length ws. node_at fs ((pre @ [w]) @ take i ws) = Some Dir"
    using Cons.prems [rule_format, of "Suc i" for i] by auto
  ultimately show ?case using Cons.IH by simp
qed

text \<open>Writing at the end of a file that was just created or just extended.\<close>

lemma st_write_append:
  assumes "k \<noteq> []"
  shows "st_write (fs(k \<mapsto> Regular x)) \<lparr>st_key = k, st_pos = length x, st_ok = True\<rparr> d =
    (\<lparr>st_key = k, st_pos = length (x @ d), st_ok = True\<rparr>, fs(k \<mapsto> Regular (x @ d)))"
  using assms by (simp add: st_write_def stream_data_def file_data_update write_at_append)

lemma can_create_key: "can_create fs k \<Longrightarrow> k \<noteq> []"
  by (simp add: can_create_def)

text \<open>A path that names an entry \<open>w\<close> of the directory \<open>p\<close>.\<close>

definition entry_path :: "path \<Rightarrow> path \<Rightarrow> bytes \<Rightarrow> bool" where
  "entry_path e p w \<longleftrightarrow> e = p @ slash # w \<and> simple_name w \<and> p \<noteq> [] \<and> last p \<noteq> slash"

lemma entry_path_parts:
  assumes "entry_path e p w"
  shows "path_filename e = w" and "parent_path e = p" and "canon e = canon p @ [w]"
    and "e \<noteq> []" and "simple_name w"
  using assms by (auto simp: entry_path_def simple_name_def path_simps)

lemma entry_path_append:
  "simple_name w \<Longrightarrow> p \<noteq> [] \<Longrightarrow> last p \<noteq> slash \<Longrightarrow> entry_path (path_append p w) p w"
  by (simp add: entry_path_def simple_name_def path_simps)

text \<open>A directory is there together with all the directories above it.\<close>

definition dirs_ok :: "fsys \<Rightarrow> key \<Rightarrow> bool" where
  "dirs_ok fs k \<longleftrightarrow> (\<forall>i \<le> length k. node_at fs (take i k) = Some Dir)"

lemma dirs_ok_dir: "dirs_ok fs k \<Longrightarrow> node_at fs k = Some Dir"
  unfolding dirs_ok_def by (drule spec [of _ "length k"]) simp

lemma dirs_ok_create: "p \<noteq> [] \<Longrightarrow> dirs_ok fs (canon p) \<Longrightarrow> create_directories fs p = (Inr (), fs)"
  using mkdirs_id [of "canon p" fs "[]"] by (simp add: create_directories_def dirs_ok_def)

lemma dirs_ok_update:
  assumes "dirs_ok fs k" and "node_at fs k' \<noteq> Some Dir"
  shows "dirs_ok (fs(k' \<mapsto> Regular d)) k"
proof -
  have "k' \<noteq> []" using assms(2) by (auto simp: node_at_def)
  then show ?thesis using assms by (auto simp: dirs_ok_def node_at_update)
qed

lemma mkdirs_dirs:
  "mkdirs fs pre ws = (Inr u, fs') \<Longrightarrow> node_at fs pre = Some Dir \<Longrightarrow> i \<le> length ws \<Longrightarrow>
   node_at fs' (pre @ take i ws) = Some Dir"
proof (induction fs pre ws arbitrary: i rule: mkdirs.induct)
  case (1 fs pre)
  then show ?case by simp
next
  case (2 fs pre w ws)
  have kept: "node_at fs' pre = Some Dir"
    using mkdirs_keeps [OF "2.prems"(1), of pre] "2.prems"(2) by simp
  show ?case
  proof (cases i)
    case 0
    with kept show ?thesis by simp
  next
    case (Suc j)
    show ?thesis
    proof (cases "fs (pre @ [w])")
      case None
      with "2.prems"(1) have run: "mkdirs (fs(pre @ [w] \<mapsto> Dir)) (pre @ [w]) ws = (Inr u, fs')"
        by simp
      have "node_at (fs(pre @ [w] \<mapsto> Dir)) (pre @ [w]) = Some Dir" by (simp add: node_at_def)
      from "2.IH"(1) [OF None run this, of j] "2.prems"(3) Suc show ?thesis by simp
    next
      case (Some n)
      with "2.prems"(1) have n: "n = Dir" and run: "mkdirs fs (pre @ [w]) ws = (Inr u, fs')"
        by (cases n; simp)+
      have "node_at fs (pre @ [w]) = Some Dir" using n Some by (simp add: node_at_def)
      from "2.IH"(2) [OF Some n run this, of j] "2.prems"(3) Suc show ?thesis by simp
    qed
  qed
qed

lemma create_directories_dirs_ok:
  "create_directories fs p = (Inr u, fs') \<Longrightarrow> dirs_ok fs' (canon p)"
  using mkdirs_dirs [of fs "[]" "canon p" u fs']
  by (simp add: create_directories_def dirs_ok_def node_at_def [of fs] split: if_splits)

lemma mkdirs_succeeds:
  assumes "\<forall>i \<le> length ws. node_at fs (pre @ take i ws) \<in> {None, Some Dir}"
  shows "fst (mkdirs fs pre ws) = Inr ()"
  using assms
proof (induction fs pre ws rule: mkdirs.induct)
  case (2 fs pre w ws)
  have dirs: "node_at fs (pre @ w # take i ws) \<in> {None, Some Dir}" if "i \<le> length ws" for i
    using "2.prems" that by (auto dest: spec [of _ "Suc i"])
  show ?case
  proof (cases "fs (pre @ [w])")
    case None
    have "\<forall>i \<le> length ws. node_at (fs(pre @ [w] \<mapsto> Dir)) ((pre @ [w]) @ take i ws) \<in> {None, Some Dir}"
      using dirs by (auto simp: node_at_def split: if_splits)
    from "2.IH"(1) [OF None this] None show ?thesis by (simp add: fun_upd_def)
  next
    case (Some n)
    have n: "n = Dir" using dirs [of 0] Some by (simp add: node_at_def)
    have "\<forall>i \<le> length ws. node_at fs ((pre @ [w]) @ take i ws) \<in> {None, Some Dir}" using dirs by simp
    from "2.IH"(2) [OF Some n this] Some n show ?thesis by simp
  qed
qed simp

text \<open>Directories can be made where no file is in the way, and then nothing else changes.\<close>

lemma create_directories_free:
  assumes "p \<noteq> []" and "\<forall>k \<in> dirs_to (canon p). node_at fs k \<in> {None, Some Dir}"
  obtains fs' where "create_directories fs p = (Inr (), fs')"
    and "\<And>k. k \<notin> dirs_to (canon p) \<Longrightarrow> node_at fs k = None \<Longrightarrow> node_at fs' k = None"
proof -
  have "fst (mkdirs fs [] (canon p)) = Inr ()"
    using assms(2) by (intro mkdirs_succeeds) (auto simp: dirs_to_def)
  then obtain fs' where run: "mkdirs fs [] (canon p) = (Inr (), fs')" by (metis prod.collapse)
  have "node_at fs' k = None" if "k \<notin> dirs_to (canon p)" "node_at fs k = None" for k
    using mkdirs_new_dirs [OF run, of k] that by (auto simp: node_at_def split: if_splits)
  moreover have "create_directories fs p = (Inr (), fs')" using run assms(1) by (simp add: create_directories_def)
  ultimately show thesis using that by blast
qed

lemma dirs_to_length: "k \<in> dirs_to k' \<Longrightarrow> length k \<le> length k'"
  by (auto simp: dirs_to_def)

section \<open>What an operation may change\<close>

text \<open>
  At most the regular files at \<open>K\<close> get new contents (or come into being), and directories may
  be added at \<open>D\<close>; everything else is as before.
\<close>

definition touches :: "key set \<Rightarrow> key set \<Rightarrow> fsys \<Rightarrow> fsys \<Rightarrow> bool" where
  "touches D K fs fs' \<longleftrightarrow>
     (\<forall>k. fs' k = fs k \<or> (k \<in> D \<and> fs k = None \<and> fs' k = Some Dir) \<or>
        (k \<in> K \<and> fs k \<noteq> Some Dir \<and> (\<exists>d. fs' k = Some (Regular d))))"

lemma touches_refl [simp]: "touches D K fs fs"
  by (simp add: touches_def)

lemma touches_trans:
  assumes "touches D K fs fs'" and "touches D K fs' fs''"
  shows "touches D K fs fs''"
  unfolding touches_def
proof
  fix k
  from assms show "fs'' k = fs k \<or> (k \<in> D \<and> fs k = None \<and> fs'' k = Some Dir) \<or>
      (k \<in> K \<and> fs k \<noteq> Some Dir \<and> (\<exists>d. fs'' k = Some (Regular d)))"
    unfolding touches_def by (cases "fs' k") (metis option.distinct(1) option.inject node.distinct(1))+
qed

lemma touches_update: "k \<in> K \<Longrightarrow> fs k \<noteq> Some Dir \<Longrightarrow> touches D K fs (fs(k \<mapsto> Regular d))"
  by (simp add: touches_def)

lemma mkdirs_root: "mkdirs fs pre ws = (r, fs') \<Longrightarrow> fs' [] = fs []"
  by (induction fs pre ws rule: mkdirs.induct) (auto split: option.splits node.splits)

lemma mkdirs_touches:
  assumes run: "mkdirs fs [] ws = (r, fs')" and "dirs_to ws \<subseteq> D"
  shows "touches D K fs fs'"
  unfolding touches_def
proof
  fix k
  show "fs' k = fs k \<or> (k \<in> D \<and> fs k = None \<and> fs' k = Some Dir) \<or>
      (k \<in> K \<and> fs k \<noteq> Some Dir \<and> (\<exists>d. fs' k = Some (Regular d)))"
    using mkdirs_new_dirs [OF run, of k] mkdirs_keeps [OF run, of k] mkdirs_root [OF run] assms(2)
    by (cases "k = []"; cases "fs k") (auto simp: node_at_def)
qed

lemma create_directories_touches:
  assumes "create_directories fs p = (r, fs')" and "dirs_to (canon p) \<subseteq> D"
  shows "touches D K fs fs'"
  using assms mkdirs_touches by (auto simp: create_directories_def split: if_splits)

text \<open>A usable stream is open on a regular file, so that writing touches only that file.\<close>

definition stream_on :: "fsys \<Rightarrow> fstream \<Rightarrow> key \<Rightarrow> bool" where
  "stream_on fs st k \<longleftrightarrow> st_key st = k \<and> (st_ok st \<longrightarrow> file_data fs k \<noteq> None)"

lemma stream_on_open: "stream_on fs (open_in fs p) (canon p)"
  by (simp add: stream_on_def open_in_def is_regular_file_def)

lemma stream_on_seek: "stream_on fs st k \<Longrightarrow> stream_on fs (st_seek st off) k"
  by (simp add: stream_on_def st_seek_def)

lemma stream_on_read: "stream_on fs st k \<Longrightarrow> st_read fs st n = (d, st') \<Longrightarrow> stream_on fs st' k"
  by (auto simp: stream_on_def st_read_def Let_def split: if_splits)

lemma open_out_touches:
  assumes "open_out fs p = (st, fs')" and "canon p \<in> K"
  shows "touches D K fs fs' \<and> stream_on fs' st (canon p)"
  using assms
  by (auto simp: open_out_def stream_on_def can_create_def file_data_update touches_update
      split: if_splits)

lemma st_write_touches:
  assumes "stream_on fs st k" and "st_write fs st d = (st', fs')" and "k \<in> K"
  shows "touches D K fs fs' \<and> stream_on fs' st' k"
proof (cases "st_ok st \<and> d \<noteq> []")
  case True
  then obtain x where x: "file_data fs k = Some x" using assms(1) by (auto simp: stream_on_def)
  then have "fs k = Some (Regular x)" "k \<noteq> []" by (auto dest: file_data_not_Dir)
  then show ?thesis
    using True assms by (auto simp: st_write_def stream_on_def touches_update file_data_update)
next
  case False
  then show ?thesis using assms by (auto simp: st_write_def)
qed

end
