(* ===== verification/FT_File_Meta.thy ===== *)
theory FT_File_Meta
  imports FT_Fs FT_Msg
begin

text \<open>
  The metadata files of \<open>src/file/ft_file_meta.hpp\<close> and \<open>src/file/ft_file_meta.cpp\<close>: an
  80-byte header (file size, chunk size, hash) and a bitmap with one bit per chunk, most
  significant bit first.  Every operation opens the metadata file, seeks, reads or writes and
  closes it, as the sources do.  The lemmas describe the operations by the set of chunks whose
  bit is set, and the interface \<open>chunk_tracker\<close> states what the rest of the program relies on.
\<close>

section \<open>Object representation\<close>

text \<open>
  \<open>write((char*)&v, sizeof(v))\<close> of a \<open>size_t\<close>: eight bytes, least significant first (the
  program writes and reads these files on the same little-endian machine).
\<close>

definition native64 :: "size_t \<Rightarrow> bytes" where
  "native64 w = map (\<lambda>i. ucast (drop_bit (8 * i) w)) [0..<8]"

definition of_native64 :: "bytes \<Rightarrow> size_t" where
  "of_native64 bs = foldr (\<lambda>b acc. ucast b OR push_bit 8 acc) bs 0"

section \<open>The FileMetadata class\<close>

record file_metadata =
  fm_effective_path :: path
  fm_file_size :: size_t
  fm_chunk_size :: size_t
  fm_hash :: bytes
  fm_n_chunks :: size_t
  fm_header_size :: size_t
  fm_bitmap_size :: size_t
  fm_metadata_file :: path

definition metadata_path :: "path \<Rightarrow> path" where
  "metadata_path effective_path =
     path_append (parent_path effective_path)
       (ascii ''.'' @ path_filename effective_path @ ascii ''.meta'')"

text \<open>The constructor; a zero chunk size is a division by zero.\<close>

definition FileMetadata_new :: "path \<Rightarrow> size_t \<Rightarrow> size_t \<Rightarrow> bytes \<Rightarrow> file_metadata result" where
  "FileMetadata_new effective_path file_size chunk_size hash =
     (if chunk_size = 0 then Inl Undefined
      else let n_chunks = file_size div chunk_size + (if file_size mod chunk_size > 0 then 1 else 0)
           in Inr \<lparr>fm_effective_path = effective_path, fm_file_size = file_size,
                   fm_chunk_size = chunk_size, fm_hash = hash, fm_n_chunks = n_chunks,
                   fm_header_size = 8 + 8 + word_of_nat HASH_SIZE,
                   fm_bitmap_size = n_chunks div 8 + (if n_chunks mod 8 > 0 then 1 else 0),
                   fm_metadata_file = metadata_path effective_path\<rparr>)"

text \<open>The bitmap loop of \<open>createIfNotExist\<close>: one zero byte per iteration.\<close>

fun write_zeros :: "fsys \<Rightarrow> fstream \<Rightarrow> nat \<Rightarrow> fstream \<times> fsys" where
  "write_zeros fs ms 0 = (ms, fs)"
| "write_zeros fs ms (Suc n) = (case st_write fs ms [0] of (ms, fs) \<Rightarrow> write_zeros fs ms n)"

text \<open>
  The loop counter is an \<open>int\<close>, so a bitmap of \<open>2 ^ 31\<close> bytes or more overflows it; the hash
  is written with a fixed length, so a shorter vector is read past its end.
\<close>

definition createIfNotExist :: "file_metadata \<Rightarrow> fsys \<Rightarrow> unit result \<times> fsys" where
  "createIfNotExist m fs =
     (case create_directories fs (parent_path (fm_effective_path m)) of
        (Inl e, fs) \<Rightarrow> (Inl e, fs)
      | (Inr _, fs) \<Rightarrow>
          (if fs_exists fs (fm_metadata_file m) then (Inr (), fs)
           else
             let (ms, fs) = open_out fs (fm_metadata_file m);
                 (ms, fs) = st_write fs ms (native64 (fm_file_size m));
                 (ms, fs) = st_write fs ms (native64 (fm_chunk_size m))
             in if length (fm_hash m) < HASH_SIZE then (Inl Undefined, fs)
                else
                  let (ms, fs) = st_write fs ms (take HASH_SIZE (fm_hash m))
                  in if 2 ^ 31 \<le> unat (fm_bitmap_size m) then (Inl Undefined, fs)
                     else (Inr (), snd (write_zeros fs ms (unat (fm_bitmap_size m))))))"

definition markChunk :: "file_metadata \<Rightarrow> fsys \<Rightarrow> size_t \<Rightarrow> bool \<Rightarrow> fsys" where
  "markChunk m fs chunk_idx valid =
     (let ms = open_inout fs (fm_metadata_file m);
          ms = st_seek ms (fm_header_size m + chunk_idx div 8);
          (d, ms) = st_read fs ms 1;
          bitmap = (case d of [] \<Rightarrow> 0 | b # _ \<Rightarrow> b);
          bt = push_bit (7 - unat (chunk_idx mod 8)) 1;
          bitmap = (if valid then bitmap OR bt else bitmap AND NOT bt);
          ms = st_seek ms (fm_header_size m + chunk_idx div 8)
      in snd (st_write fs ms [bitmap]))"

text \<open>The first loop of \<open>nextMissingChunk\<close>: skip the bytes that are \<open>0xFF\<close>.\<close>

function skip_full :: "fsys \<Rightarrow> fstream \<Rightarrow> byte \<Rightarrow> byte \<times> fstream" where
  "skip_full fs ms bitmap =
     (if st_ok ms \<and> bitmap = 0xFF
      then case st_read fs ms 1 of
             (d, ms) \<Rightarrow> skip_full fs ms (case d of [] \<Rightarrow> bitmap | b # _ \<Rightarrow> b)
      else (bitmap, ms))"
  by pat_completeness auto
termination
  by (relation "measure (\<lambda>(fs, ms, b). if st_ok ms
        then Suc (length (stream_data fs ms) - st_pos ms) else 0)")
    (auto simp: st_read_def Let_def read_at_def stream_data_def split: if_splits)

declare skip_full.simps [simp del]

text \<open>The second loop: the number of set bits from the top (\<open>i\<close> counts down from 7).\<close>

fun lead_bits :: "byte \<Rightarrow> nat \<Rightarrow> size_t \<Rightarrow> size_t" where
  "lead_bits bitmap 0 ret = ret"
| "lead_bits bitmap (Suc i) ret =
     (if drop_bit i bitmap AND 0x01 = 0x01 then lead_bits bitmap i (ret + 1) else ret)"

text \<open>\<open>tellg()\<close> is narrowed to a 32-bit \<open>int\<close> before the header size is subtracted.\<close>

definition nextMissingChunk :: "file_metadata \<Rightarrow> fsys \<Rightarrow> size_t \<Rightarrow> size_t" where
  "nextMissingChunk m fs from_chunk_idx =
     (let ms = open_in fs (fm_metadata_file m);
          ms = st_seek ms (fm_header_size m + from_chunk_idx div 8);
          (bitmap, ms) = skip_full fs ms 0xFF
      in if bitmap \<noteq> 0xFF
         then let pos = scast (word_of_int (st_tell ms) :: 32 word);
                  ret = (pos - fm_header_size m - 1) * 8;
                  ret = lead_bits bitmap 8 ret
              in if ret < fm_n_chunks m then ret else UINT64_MAX
         else UINT64_MAX)"

text \<open>
  \<open>readHeader\<close>: size, chunk size and hash of an existing metadata file, zeros otherwise.  A
  read that comes short overwrites only the first bytes of its target.
\<close>

definition readHeader :: "fsys \<Rightarrow> path \<Rightarrow> size_t \<times> size_t \<times> bytes" where
  "readHeader fs effective_path =
     (let metadata_file = metadata_path effective_path
      in if fs_exists fs metadata_file
         then let ms = open_in fs metadata_file;
                  (d1, ms) = st_read fs ms 8;
                  (d2, ms) = st_read fs ms 8;
                  (d3, ms) = st_read fs ms HASH_SIZE
              in (of_native64 d1, of_native64 d2, d3 @ replicate (HASH_SIZE - length d3) 0)
         else (0, 0, replicate HASH_SIZE 0))"

section \<open>Object representation: reading back\<close>

lemma native64_length [simp]: "length (native64 w) = 8"
  by (simp add: native64_def)

lemma native64_step:
  "ucast (ucast (drop_bit j w) :: byte) OR push_bit 8 (drop_bit (j + 8) w) = drop_bit j (w :: size_t)"
proof (rule bit_word_eqI)
  fix n assume "n < LENGTH(64)"
  then show "bit (ucast (ucast (drop_bit j w) :: byte) OR push_bit 8 (drop_bit (j + 8) w)) n =
      bit (drop_bit j w) n"
    by (cases "n < 8") (auto simp: bit_simps)
qed

lemma of_native64_native64 [simp]: "of_native64 (native64 w) = w"
proof -
  have "of_native64 (map (\<lambda>i. ucast (drop_bit (8 * i) w)) [k..<8]) = drop_bit (8 * k) w"
    if "k \<le> 8" for k
    using that
  proof (induction rule: inc_induct)
    case base
    then show ?case by (simp add: of_native64_def bit_eq_iff bit_simps)
  next
    case (step n)
    then have "[n..<8] = n # [Suc n..<8]" by (simp add: upt_conv_Cons)
    then show ?case
      using step.IH native64_step [of "8 * n" w] by (simp add: of_native64_def add.commute)
  qed
  from this [of 0] show ?thesis by (simp add: native64_def)
qed

section \<open>The chunk bits\<close>

text \<open>Bit \<open>i\<close> of a bitmap, as the class addresses it.\<close>

definition chunk_bit :: "bytes \<Rightarrow> nat \<Rightarrow> bool" where
  "chunk_bit bm i \<longleftrightarrow> bit (bm ! (i div 8)) (7 - i mod 8)"

lemma lead_bits_spec:
  "\<exists>k \<le> i. lead_bits b i ret = ret + word_of_nat k \<and> (\<forall>j < k. bit b (i - 1 - j)) \<and>
     (k < i \<longrightarrow> \<not> bit b (i - 1 - k))"
proof (induction i arbitrary: ret)
  case 0
  then show ?case by simp
next
  case (Suc i)
  show ?case
  proof (cases "bit b i")
    case True
    obtain k where k: "k \<le> i" "lead_bits b i (ret + 1) = ret + 1 + word_of_nat k"
      "\<forall>j < k. bit b (i - 1 - j)" "k < i \<longrightarrow> \<not> bit b (i - 1 - k)"
      using Suc.IH by blast
    have "bit b (Suc i - 1 - j)" if "j < Suc k" for j
      using that True k(3) by (cases j) auto
    then show ?thesis
      using True k by (intro exI [of _ "Suc k"]) (auto simp: and_one_bit add_ac)
  next
    case False
    then show ?thesis by (intro exI [of _ 0]) (simp add: and_one_bit)
  qed
qed

lemma lead_bits_gap:
  assumes "b \<noteq> 0xFF"
  obtains k where "k < 8" and "lead_bits b 8 ret = ret + word_of_nat k"
    and "\<And>j. j < k \<Longrightarrow> bit b (7 - j)" and "\<not> bit b (7 - k)"
proof -
  obtain k where k: "k \<le> 8" "lead_bits b 8 ret = ret + word_of_nat k"
    "\<forall>j < k. bit b (7 - j)" "k < 8 \<longrightarrow> \<not> bit b (7 - k)"
    using lead_bits_spec [of 8 b ret] by auto
  have "k \<noteq> 8"
  proof
    assume "k = 8"
    then have "bit b i" if "i < 8" for i using k(3) [rule_format, of "7 - i"] that by simp
    then show False using assms byte_full by blast
  qed
  then show thesis using k by (intro that [of k]) auto
qed

section \<open>Searching the bitmap\<close>

lemma stream_read_one:
  assumes "st_ok ms"
  shows "st_read fs ms (Suc 0) =
    (if st_pos ms < length (stream_data fs ms)
     then ([stream_data fs ms ! st_pos ms], ms\<lparr>st_pos := Suc (st_pos ms)\<rparr>)
     else ([], ms\<lparr>st_ok := False\<rparr>))"
  using assms by (auto simp: st_read_def Let_def read_at_def take_Suc_conv_app_nth hd_drop_conv_nth
      take_Suc)

lemma skip_full_run:
  assumes "st_ok ms" and "stream_data fs ms = xs" and "st_pos ms \<le> length xs"
  shows "skip_full fs ms 0xFF =
    (case dropWhile (\<lambda>b. b = 0xFF) (drop (st_pos ms) xs) of
       [] \<Rightarrow> (0xFF, ms\<lparr>st_pos := length xs, st_ok := False\<rparr>)
     | b # _ \<Rightarrow> (b, ms\<lparr>st_pos := Suc (st_pos ms +
           length (takeWhile (\<lambda>b. b = 0xFF) (drop (st_pos ms) xs)))\<rparr>))"
  using assms
proof (induction "length xs - st_pos ms" arbitrary: ms)
  case 0
  then have "st_pos ms = length xs" by simp
  with 0 show ?case
    by (simp add: skip_full.simps [of fs ms] stream_read_one skip_full.simps [of fs "ms\<lparr>st_ok := False\<rparr>"])
next
  case (Suc n)
  then have lt: "st_pos ms < length xs" by simp
  let ?ms = "ms\<lparr>st_pos := Suc (st_pos ms)\<rparr>"
  have drop: "drop (st_pos ms) xs = xs ! st_pos ms # drop (Suc (st_pos ms)) xs"
    using lt by (simp add: Cons_nth_drop_Suc)
  have data: "stream_data fs ?ms = xs" using Suc.prems(2) by (simp add: stream_data_def)
  have step: "skip_full fs ms 0xFF = skip_full fs ?ms (xs ! st_pos ms)"
    using Suc.prems lt by (subst skip_full.simps) (simp add: stream_read_one)
  show ?case
  proof (cases "xs ! st_pos ms = 0xFF")
    case True
    have "n = length xs - st_pos ?ms" using Suc.hyps(2) by simp
    note IH = Suc.hyps(1) [OF this]
    show ?thesis
      using IH Suc.prems data lt True step drop
      by (cases "dropWhile (\<lambda>b. b = 0xFF) (drop (Suc (st_pos ms)) xs)")
        (simp_all del: dropWhile_eq_Nil_conv)
  next
    case False
    then show ?thesis
      using step drop by (simp add: skip_full.simps [of fs ?ms "xs ! st_pos ms"])
  qed
qed

lemma skip_full_none:
  assumes "st_ok ms" and "stream_data fs ms = xs" and "st_pos ms \<le> length xs"
    and "dropWhile (\<lambda>b. b = 0xFF) (drop (st_pos ms) xs) = []"
  shows "skip_full fs ms 0xFF = (0xFF, ms\<lparr>st_pos := length xs, st_ok := False\<rparr>)"
  unfolding skip_full_run [OF assms(1-3)] assms(4) by simp

lemma skip_full_found:
  assumes "st_ok ms" and "stream_data fs ms = xs" and "st_pos ms \<le> length xs"
    and "dropWhile (\<lambda>b. b = 0xFF) (drop (st_pos ms) xs) = b # r"
  shows "skip_full fs ms 0xFF = (b, ms\<lparr>st_pos := Suc (st_pos ms +
    length (takeWhile (\<lambda>b. b = 0xFF) (drop (st_pos ms) xs)))\<rparr>)"
  unfolding skip_full_run [OF assms(1-3)] assms(4) by simp

text \<open>
  The metadata file holds a header of 80 bytes and a bitmap small enough for the \<open>int\<close>
  position arithmetic.
\<close>

definition meta_layout :: "file_metadata \<Rightarrow> fsys \<Rightarrow> bytes \<Rightarrow> bytes \<Rightarrow> bool" where
  "meta_layout m fs hdr bm \<longleftrightarrow>
     fm_metadata_file m \<noteq> [] \<and> file_data fs (canon (fm_metadata_file m)) = Some (hdr @ bm) \<and>
     fm_header_size m = 80 \<and> length hdr = 80 \<and> length bm < 2 ^ 31 - 81"

lemma meta_open:
  "meta_layout m fs hdr bm \<Longrightarrow>
   open_in fs (fm_metadata_file m) = \<lparr>st_key = canon (fm_metadata_file m), st_pos = 0, st_ok = True\<rparr>"
  by (simp add: meta_layout_def open_in_def is_regular_file_def)

lemma unat_header_offset: "unat (80 + (i :: size_t) div 8) = 80 + unat i div 8"
proof -
  have "unat (i div 8) = unat i div 8" by (simp add: unat_div)
  moreover have "unat i div 8 < 2 ^ 61" using unat_bounds(4) [of i] by simp
  ultimately show ?thesis by (subst unat_word_ariths(1)) simp
qed

lemma meta_seek:
  assumes "meta_layout m fs hdr bm" and "st_ok ms"
  shows "st_seek ms (fm_header_size m + i div 8) = ms\<lparr>st_pos := 80 + unat i div 8\<rparr>"
proof -
  have "unat i div 8 < 2 ^ 61" using unat_bounds(4) [of i] by simp
  then have "0 \<le> sint (80 + i div 8)" by (intro sint_nonneg) (simp add: unat_header_offset)
  then show ?thesis using assms by (simp add: st_seek_def meta_layout_def unat_header_offset)
qed

lemma meta_stream_data:
  "meta_layout m fs hdr bm \<Longrightarrow> st_key ms = canon (fm_metadata_file m) \<Longrightarrow>
   stream_data fs ms = hdr @ bm"
  by (simp add: meta_layout_def stream_data_def)

lemma chunk_bit_same_byte: "k < 8 \<Longrightarrow> chunk_bit bm (8 * j + k) = bit (bm ! j) (7 - k)"
  by (simp add: chunk_bit_def)

lemma chunk_bit_full:
  assumes "bm ! (i div 8) = 0xFF"
  shows "chunk_bit bm i"
  using assms byte_full [of "bm ! (i div 8)"] by (simp add: chunk_bit_def)

text \<open>
  The search starts at the byte of \<open>from\<close> and reports the first clear bit from there on, if it
  is the bit of a chunk.
\<close>

definition gap_from :: "bytes \<Rightarrow> nat \<Rightarrow> nat \<Rightarrow> bool" where
  "gap_from bm lo i \<longleftrightarrow> lo \<le> i \<and> \<not> chunk_bit bm i \<and> (\<forall>j. lo \<le> j \<and> j < i \<longrightarrow> chunk_bit bm j)"

lemma gap_in_byte:
  assumes "\<And>j. k \<le> j \<Longrightarrow> j < t \<Longrightarrow> bm ! j = 0xFF" and "k \<le> t" and "u < 8"
    and "\<And>j. j < u \<Longrightarrow> bit (bm ! t) (7 - j)" and "\<not> bit (bm ! t) (7 - u)"
  shows "gap_from bm (8 * k) (8 * t + u)"
proof -
  have "chunk_bit bm j" if "8 * k \<le> j" "j < 8 * t + u" for j
  proof (cases "j div 8 = t")
    case True
    then have "j mod 8 < u" using that by (metis add_less_cancel_left mult_div_mod_eq)
    then show ?thesis using assms(4) True by (simp add: chunk_bit_def)
  next
    case False
    then have "j div 8 < t" using that assms(3) by linarith
    then show ?thesis using that by (intro chunk_bit_full assms(1)) simp_all
  qed
  then show ?thesis
    using assms(2,3,5) by (auto simp: gap_from_def chunk_bit_same_byte)
qed

lemma nextMissing_scan:
  assumes lay: "meta_layout m fs hdr bm" and start: "unat from div 8 \<le> length bm"
  defines "k \<equiv> unat from div 8"
  shows "(nextMissingChunk m fs from = UINT64_MAX \<and> (\<forall>j. k \<le> j \<and> j < length bm \<longrightarrow> bm ! j = 0xFF)) \<or>
    (\<exists>i. gap_from bm (8 * k) i \<and> i < 2 ^ 35 \<and> nextMissingChunk m fs from =
       (if i < unat (fm_n_chunks m) then word_of_nat i else UINT64_MAX))"
proof -
  let ?ms = "\<lparr>st_key = canon (fm_metadata_file m), st_pos = 80 + k, st_ok = True\<rparr>"
  have hs: "fm_header_size m = 80" using lay by (simp add: meta_layout_def)
  have seek: "st_seek (open_in fs (fm_metadata_file m)) (80 + from div 8) = ?ms"
    using meta_seek [OF lay, of "open_in fs (fm_metadata_file m)" "from"] hs meta_open [OF lay]
    by (simp add: k_def)
  have data: "stream_data fs ?ms = hdr @ bm" using lay by (simp add: meta_stream_data)
  have drop: "drop (st_pos ?ms) (hdr @ bm) = drop k bm" using lay by (simp add: meta_layout_def)
  have pos: "st_pos ?ms \<le> length (hdr @ bm)" using lay start by (simp add: meta_layout_def k_def)
  show ?thesis
  proof (cases "dropWhile (\<lambda>b. b = 0xFF) (drop k bm)")
    case Nil
    then have "skip_full fs ?ms 0xFF = (0xFF, ?ms\<lparr>st_pos := length (hdr @ bm), st_ok := False\<rparr>)"
      using skip_full_none [OF _ data pos] drop by (simp del: dropWhile_eq_Nil_conv)
    then show ?thesis
      using dropWhile_none [OF Nil] by (simp add: nextMissingChunk_def hs seek)
  next
    case (Cons b r)
    define t where "t = k + length (takeWhile (\<lambda>b. b = 0xFF) (drop k bm))"
    note idx = dropWhile_index [OF Cons, folded t_def]
    have run: "skip_full fs ?ms 0xFF = (b, ?ms\<lparr>st_pos := Suc (80 + t)\<rparr>)"
      using skip_full_found [OF _ data pos, of b r] Cons drop by (simp add: t_def)
    have small: "Suc (80 + t) < 2 ^ 31" using idx(1) lay by (simp add: meta_layout_def)
    let ?base = "(word_of_nat (Suc (80 + t)) - 80 - 1) * 8 :: size_t"
    have base: "?base = word_of_nat (8 * t)" by (simp add: algebra_simps)
    obtain u where u: "u < 8" "lead_bits b 8 ?base = ?base + word_of_nat u"
      "\<And>j. j < u \<Longrightarrow> bit b (7 - j)" "\<not> bit b (7 - u)"
      using lead_bits_gap [OF idx(3)] by blast
    have "gap_from bm (8 * k) (8 * t + u)"
      using idx u by (intro gap_in_byte) (simp_all add: t_def)
    moreover have less: "8 * t + u < 2 ^ 35" using small u(1) by simp
    moreover have "nextMissingChunk m fs from =
        (if word_of_nat (8 * t + u) < fm_n_chunks m then word_of_nat (8 * t + u) else UINT64_MAX)"
    proof -
      have "scast (word_of_int (st_tell (?ms\<lparr>st_pos := Suc (80 + t)\<rparr>)) :: 32 word) =
          (word_of_nat (Suc (80 + t)) :: size_t)"
        unfolding st_tell_def using scast_int32 [OF small] by simp
      moreover have "?base + word_of_nat u = word_of_nat (8 * t + u)" by (simp add: base)
      ultimately show ?thesis
        using idx(3)
        by (simp only: nextMissingChunk_def hs seek run Let_def prod.case u(2) if_True
            not_False_eq_True)
    qed
    moreover have "word_of_nat (8 * t + u) < fm_n_chunks m \<longleftrightarrow> 8 * t + u < unat (fm_n_chunks m)"
    proof -
      have "8 * t + u < 2 ^ 64" using less by simp
      then show ?thesis by (simp only: word_less_nat_alt unat_of_nat_simps)
    qed
    ultimately show ?thesis by metis
  qed
qed

lemma nextMissing_cases:
  assumes lay: "meta_layout m fs hdr bm" and size: "unat (fm_n_chunks m) \<le> 8 * length bm"
    and start: "unat from div 8 \<le> length bm"
  shows "(nextMissingChunk m fs from = UINT64_MAX \<and>
      (\<forall>i. 8 * (unat from div 8) \<le> i \<and> i < unat (fm_n_chunks m) \<longrightarrow> chunk_bit bm i)) \<or>
    (unat (nextMissingChunk m fs from) < unat (fm_n_chunks m) \<and>
     gap_from bm (8 * (unat from div 8)) (unat (nextMissingChunk m fs from)))"
  using nextMissing_scan [OF lay start]
proof (elim disjE exE conjE)
  assume "nextMissingChunk m fs from = UINT64_MAX"
    and "\<forall>j. unat from div 8 \<le> j \<and> j < length bm \<longrightarrow> bm ! j = 0xFF"
  moreover from this(2) have "chunk_bit bm i"
    if "8 * (unat from div 8) \<le> i" "i < unat (fm_n_chunks m)" for i
  proof -
    have "unat from div 8 \<le> i div 8" "i div 8 < length bm" using that size by linarith+
    then show ?thesis using \<open>\<forall>j. _ j\<close> by (intro chunk_bit_full) blast
  qed
  ultimately show ?thesis by blast
next
  fix i assume i: "gap_from bm (8 * (unat from div 8)) i" "i < 2 ^ 35"
    "nextMissingChunk m fs from = (if i < unat (fm_n_chunks m) then word_of_nat i else UINT64_MAX)"
  then show ?thesis
  proof (cases "i < unat (fm_n_chunks m)")
    case True
    moreover have "i < 2 ^ 64" using i(2) by simp
    ultimately show ?thesis using i by (simp only: if_True unat_of_nat_simps) simp
  next
    case False
    with i show ?thesis by (auto simp: gap_from_def)
  qed
qed

section \<open>Marking\<close>

definition set_chunk_bit :: "bytes \<Rightarrow> nat \<Rightarrow> bool \<Rightarrow> bytes" where
  "set_chunk_bit bm i v =
     (let bt = push_bit (7 - i mod 8) 1
      in bm[i div 8 := (if v then bm ! (i div 8) OR bt else bm ! (i div 8) AND NOT bt)])"

lemma set_chunk_bit_length [simp]: "length (set_chunk_bit bm i v) = length bm"
  by (simp add: set_chunk_bit_def Let_def)

lemma chunk_bit_set:
  assumes "i div 8 < length bm"
  shows "chunk_bit (set_chunk_bit bm i v) j = (if j = i then v else chunk_bit bm j)"
proof (cases "j div 8 = i div 8")
  case True
  have "j = i \<longleftrightarrow> 7 - j mod 8 = 7 - i mod 8"
  proof
    assume eq: "7 - j mod 8 = 7 - i mod 8"
    have "j mod 8 \<le> 7" "i mod 8 \<le> 7" by simp_all
    with eq have "j mod 8 = i mod 8" by linarith
    with True show "j = i" by (metis mult_div_mod_eq)
  qed simp
  moreover have "7 - j mod 8 < 8" by simp
  ultimately show ?thesis
    using assms True by (simp add: chunk_bit_def set_chunk_bit_def Let_def bit_simps)
next
  case False
  then have "j \<noteq> i" by auto
  then show ?thesis using False by (simp add: chunk_bit_def set_chunk_bit_def Let_def)
qed

lemma markChunk_inside:
  assumes lay: "meta_layout m fs hdr bm" and idx: "unat i div 8 < length bm"
  shows "markChunk m fs i v =
    fs(canon (fm_metadata_file m) \<mapsto> Regular (hdr @ set_chunk_bit bm (unat i) v))"
proof -
  let ?ms = "\<lparr>st_key = canon (fm_metadata_file m), st_pos = 80 + unat i div 8, st_ok = True\<rparr>"
  have hdr: "length hdr = 80" using lay by (simp add: meta_layout_def)
  have seek: "st_seek (open_inout fs (fm_metadata_file m)) (fm_header_size m + i div 8) = ?ms"
    using lay by (simp add: meta_open meta_seek)
  have data: "stream_data fs ?ms = hdr @ bm" using lay by (simp add: meta_stream_data)
  have read: "st_read fs ?ms 1 = ([bm ! (unat i div 8)], ?ms\<lparr>st_pos := Suc (80 + unat i div 8)\<rparr>)"
    using idx hdr by (simp add: stream_read_one data nth_append)
  have seek2: "st_seek (?ms\<lparr>st_pos := Suc (80 + unat i div 8)\<rparr>) (fm_header_size m + i div 8) = ?ms"
    using lay by (simp add: meta_seek)
  have wr: "snd (st_write fs ?ms [b]) =
      fs(canon (fm_metadata_file m) \<mapsto> Regular (hdr @ bm[unat i div 8 := b]))" for b
    using idx hdr by (simp add: st_write_def data write_at_one list_update_append)
  show ?thesis
    unfolding markChunk_def Let_def seek read prod.case seek2 wr
    by (simp add: set_chunk_bit_def Let_def unat_mod)
qed

lemma markChunk_outside:
  assumes lay: "meta_layout m fs hdr bm" and idx: "length bm \<le> unat i div 8"
  shows "markChunk m fs i v = fs"
proof -
  let ?ms = "\<lparr>st_key = canon (fm_metadata_file m), st_pos = 80 + unat i div 8, st_ok = True\<rparr>"
  have seek: "st_seek (open_inout fs (fm_metadata_file m)) (fm_header_size m + i div 8) = ?ms"
    using lay by (simp add: meta_open meta_seek)
  have data: "stream_data fs ?ms = hdr @ bm" using lay by (simp add: meta_stream_data)
  have read: "st_read fs ?ms 1 = ([], ?ms\<lparr>st_ok := False\<rparr>)"
    using idx lay by (simp add: stream_read_one data meta_layout_def)
  show ?thesis
    unfolding markChunk_def Let_def seek read prod.case
    by (simp add: st_seek_def st_write_def)
qed

section \<open>Creating and reading back a metadata file\<close>

abbreviation meta_name :: "bytes \<Rightarrow> bytes" where
  "meta_name w \<equiv> ascii ''.'' @ w @ ascii ''.meta''"

lemma meta_name_simple: "simple_name w \<Longrightarrow> simple_name (meta_name w)"
  by (simp add: simple_name_def ascii_def)

lemma metadata_path_entry:
  assumes "entry_path e p w"
  shows "entry_path (metadata_path e) p (meta_name w)"
proof -
  have "p \<noteq> []" "last p \<noteq> slash" using assms by (simp_all add: entry_path_def)
  then show ?thesis
    unfolding metadata_path_def entry_path_parts(1,2) [OF assms]
    by (intro entry_path_append meta_name_simple entry_path_parts(5) [OF assms])
qed

definition meta_header :: "file_metadata \<Rightarrow> bytes" where
  "meta_header m = native64 (fm_file_size m) @ native64 (fm_chunk_size m) @ take HASH_SIZE (fm_hash m)"

lemma meta_header_length: "length (fm_hash m) = HASH_SIZE \<Longrightarrow> length (meta_header m) = 80"
  by (simp add: meta_header_def HASH_SIZE_def)

lemma write_zeros_append:
  assumes "k \<noteq> []"
  shows "write_zeros (fs(k \<mapsto> Regular x)) \<lparr>st_key = k, st_pos = length x, st_ok = True\<rparr> n =
    (\<lparr>st_key = k, st_pos = length x + n, st_ok = True\<rparr>, fs(k \<mapsto> Regular (x @ replicate n 0)))"
proof (induction n arbitrary: x)
  case 0
  then show ?case by simp
next
  case (Suc n)
  have "write_zeros (fs(k \<mapsto> Regular x)) \<lparr>st_key = k, st_pos = length x, st_ok = True\<rparr> (Suc n) =
      write_zeros (fs(k \<mapsto> Regular (x @ [0])))
        \<lparr>st_key = k, st_pos = length (x @ [0]), st_ok = True\<rparr> n"
    by (simp only: write_zeros.simps st_write_append [OF assms] prod.case)
  also have "\<dots> = (\<lparr>st_key = k, st_pos = length x + Suc n, st_ok = True\<rparr>,
      fs(k \<mapsto> Regular (x @ replicate (Suc n) 0)))"
    using Suc.IH [of "x @ [0]"] by (simp add: replicate_app_Cons_same fun_upd_def)
  finally show ?case .
qed

lemma createIfNotExist_new:
  assumes dir: "create_directories fs (parent_path (fm_effective_path m)) = (Inr u, fs1)"
    and new: "\<not> fs_exists fs1 (fm_metadata_file m)"
    and can: "fm_metadata_file m \<noteq> []" "can_create fs1 (canon (fm_metadata_file m))"
    and hash: "length (fm_hash m) = HASH_SIZE" and small: "unat (fm_bitmap_size m) < 2 ^ 31"
  shows "createIfNotExist m fs = (Inr (), fs1(canon (fm_metadata_file m) \<mapsto>
    Regular (meta_header m @ replicate (unat (fm_bitmap_size m)) 0)))"
proof -
  let ?k = "canon (fm_metadata_file m)"
  have k: "?k \<noteq> []" using can(2) by (rule can_create_key)
  have open_: "open_out fs1 (fm_metadata_file m) =
      (\<lparr>st_key = ?k, st_pos = length ([] :: bytes), st_ok = True\<rparr>, fs1(?k \<mapsto> Regular []))"
    using can by (simp add: open_out_def)
  show ?thesis
    unfolding createIfNotExist_def dir prod.case sum.case Let_def open_ st_write_append [OF k]
      write_zeros_append [OF k]
    using new hash small by (simp add: meta_header_def)
qed

lemma createIfNotExist_old:
  assumes "create_directories fs (parent_path (fm_effective_path m)) = (Inr u, fs1)"
    and "fs_exists fs1 (fm_metadata_file m)"
  shows "createIfNotExist m fs = (Inr (), fs1)"
  using assms by (simp add: createIfNotExist_def)

lemma readHeader_layout:
  assumes "metadata_path e \<noteq> []"
    and "file_data fs (canon (metadata_path e)) = Some (native64 a @ native64 b @ h @ bm)"
    and "length h = HASH_SIZE"
  shows "readHeader fs e = (a, b, h)"
proof -
  let ?k = "canon (metadata_path e)"
  let ?at = "\<lambda>n. \<lparr>st_key = ?k, st_pos = n, st_ok = True\<rparr>"
  have ex: "fs_exists fs (metadata_path e)"
    using assms by (simp add: fs_exists_def file_data_node_at)
  have open_: "open_in fs (metadata_path e) = ?at 0"
    using assms by (simp add: open_in_def is_regular_file_def)
  have data: "stream_data fs (?at n) = native64 a @ native64 b @ h @ bm" for n
    using assms(2) by (simp add: stream_data_def)
  have "st_read fs (?at 0) 8 = (native64 a, ?at 8)" "st_read fs (?at 8) 8 = (native64 b, ?at 16)"
    "fst (st_read fs (?at 16) HASH_SIZE) = h"
    using assms(3) by (simp_all add: st_read_def Let_def data read_at_def)
  then show ?thesis
    using assms(3) ex open_ by (auto simp: readHeader_def Let_def split: prod.splits)
qed

lemma readHeader_absent: "\<not> fs_exists fs (metadata_path e) \<Longrightarrow> readHeader fs e = (0, 0, replicate HASH_SIZE 0)"
  by (simp add: readHeader_def Let_def)

section \<open>What the metadata operations change\<close>

lemma write_zeros_touches:
  "stream_on fs ms k \<Longrightarrow> k \<in> K \<Longrightarrow> touches D K fs (snd (write_zeros fs ms n))"
proof (induction n arbitrary: fs ms)
  case 0
  then show ?case by simp
next
  case (Suc n)
  obtain ms' fs' where w: "st_write fs ms [0] = (ms', fs')" by fastforce
  from st_write_touches [OF Suc.prems(1) w Suc.prems(2)] Suc.IH [of fs' ms'] Suc.prems(2) w
  show ?case by (auto intro: touches_trans)
qed

lemma createIfNotExist_touches:
  assumes "createIfNotExist m fs = (r, fs')" and "canon (fm_metadata_file m) \<in> K"
    and "dirs_to (canon (parent_path (fm_effective_path m))) \<subseteq> D"
  shows "touches D K fs fs'"
proof -
  obtain r1 fs1 where dirs: "create_directories fs (parent_path (fm_effective_path m)) = (r1, fs1)"
    by fastforce
  obtain s2 fs2 where o: "open_out fs1 (fm_metadata_file m) = (s2, fs2)" by fastforce
  obtain s3 fs3 where w3: "st_write fs2 s2 (native64 (fm_file_size m)) = (s3, fs3)" by fastforce
  obtain s4 fs4 where w4: "st_write fs3 s3 (native64 (fm_chunk_size m)) = (s4, fs4)" by fastforce
  obtain s5 fs5 where w5: "st_write fs4 s4 (take HASH_SIZE (fm_hash m)) = (s5, fs5)" by fastforce
  note t1 = create_directories_touches [OF dirs assms(3), of K]
  note t2 = open_out_touches [OF o assms(2)]
  note t3 = st_write_touches [OF t2 [THEN conjunct2] w3 assms(2)]
  note t4 = st_write_touches [OF t3 [THEN conjunct2] w4 assms(2)]
  note t5 = st_write_touches [OF t4 [THEN conjunct2] w5 assms(2)]
  note t6 = write_zeros_touches [OF t5 [THEN conjunct2] assms(2), of D "unat (fm_bitmap_size m)"]
  have t14: "touches D K fs fs4"
    using t1 t2 t3 t4 by (blast intro: touches_trans)
  then have t15: "touches D K fs fs5" using t5 by (blast intro: touches_trans)
  then have t16: "touches D K fs (snd (write_zeros fs5 s5 (unat (fm_bitmap_size m))))"
    using t6 by (blast intro: touches_trans)
  show ?thesis
    using assms(1) t1 t14 t15 t16
    by (auto simp: createIfNotExist_def dirs o w3 w4 w5 Let_def split: sum.splits if_splits)
qed

lemma markChunk_touches:
  assumes "canon (fm_metadata_file m) \<in> K"
  shows "touches D K fs (markChunk m fs i v)"
proof -
  let ?ms = "st_seek (open_inout fs (fm_metadata_file m)) (fm_header_size m + i div 8)"
  obtain d ms where r: "st_read fs ?ms 1 = (d, ms)" by fastforce
  have on: "stream_on fs (st_seek ms (fm_header_size m + i div 8)) (canon (fm_metadata_file m))"
    using r by (blast intro: stream_on_seek stream_on_read stream_on_open)
  have "touches D K fs (snd (st_write fs (st_seek ms (fm_header_size m + i div 8)) [b]))" for b
    using st_write_touches [OF on _ assms] by (metis prod.collapse)
  then show ?thesis unfolding markChunk_def Let_def r prod.case by blast
qed

section \<open>The interface of the chunk bookkeeping\<close>

text \<open>
  What the remote file relies on: marking a chunk adds it to the received ones and changes
  no other, and the search returns the first missing chunk or, when there is none,
  \<open>UINT64_MAX\<close>.  From these laws alone follows that requesting and marking the first
  missing chunk again and again fetches every chunk, one round per missing chunk.
\<close>

locale chunk_tracker =
  fixes inv :: "'s \<Rightarrow> bool"
    and count :: "'s \<Rightarrow> nat"
    and got :: "'s \<Rightarrow> nat \<Rightarrow> bool"
    and mark :: "'s \<Rightarrow> size_t \<Rightarrow> 's"
    and next_missing :: "'s \<Rightarrow> size_t"
  assumes mark_inv: "inv s \<Longrightarrow> inv (mark s i)"
    and mark_count: "inv s \<Longrightarrow> count (mark s i) = count s"
    and got_mark: "inv s \<Longrightarrow> unat i < count s \<Longrightarrow> j < count s \<Longrightarrow>
      got (mark s i) j \<longleftrightarrow> j = unat i \<or> got s j"
    and next_none: "inv s \<Longrightarrow> next_missing s = UINT64_MAX \<longleftrightarrow> (\<forall>i < count s. got s i)"
    and next_some: "inv s \<Longrightarrow> next_missing s \<noteq> UINT64_MAX \<Longrightarrow>
      unat (next_missing s) < count s \<and> \<not> got s (unat (next_missing s)) \<and>
      (\<forall>i < unat (next_missing s). got s i)"
begin

lemma missing_after_mark:
  assumes "inv s" and "unat i < count s"
  shows "{j. j < count (mark s i) \<and> \<not> got (mark s i) j} =
    {j. j < count s \<and> \<not> got s j} - {unat i}"
  using assms mark_count got_mark by auto

lemma mark_next_progress:
  assumes "inv s" and "next_missing s \<noteq> UINT64_MAX"
  shows "Suc (card {j. j < count s \<and> \<not> got (mark s (next_missing s)) j}) =
    card {j. j < count s \<and> \<not> got s j}"
proof -
  have "unat (next_missing s) \<in> {j. j < count s \<and> \<not> got s j}"
    using next_some [OF assms] by simp
  moreover have "{j. j < count s \<and> \<not> got (mark s (next_missing s)) j} =
      {j. j < count s \<and> \<not> got s j} - {unat (next_missing s)}"
    using missing_after_mark [OF assms(1)] next_some [OF assms] mark_count [OF assms(1)] by simp
  moreover have "finite {j. j < count s \<and> \<not> got s j}" by simp
  ultimately show ?thesis by (simp only: card_Suc_Diff1)
qed

lemma complete_iff_none: "inv s \<Longrightarrow> next_missing s = UINT64_MAX \<longleftrightarrow> {j. j < count s \<and> \<not> got s j} = {}"
  using next_none by auto

lemma fetch_all:
  assumes "inv s" and "card {j. j < count s \<and> \<not> got s j} = k"
  shows "next_missing (((\<lambda>s. mark s (next_missing s)) ^^ k) s) = UINT64_MAX"
  using assms
proof (induction k arbitrary: s)
  case 0
  then have "{j. j < count s \<and> \<not> got s j} = {}" by simp
  then show ?case using complete_iff_none [OF "0.prems"(1)] by simp
next
  case (Suc k)
  then have "{j. j < count s \<and> \<not> got s j} \<noteq> {}" by (intro notI) simp
  then have ne: "next_missing s \<noteq> UINT64_MAX" using complete_iff_none [OF Suc.prems(1)] by simp
  have "card {j. j < count (mark s (next_missing s)) \<and> \<not> got (mark s (next_missing s)) j} = k"
    using mark_next_progress [OF Suc.prems(1) ne] mark_count [OF Suc.prems(1)] Suc.prems(2) by simp
  then show ?case
    using Suc.IH [OF mark_inv [OF Suc.prems(1)]] by (simp add: funpow_Suc_right del: funpow.simps)
qed

end

text \<open>A metadata object and the file system it works on, seen through the bits of its bitmap.\<close>

definition tracker_inv :: "file_metadata \<times> fsys \<Rightarrow> bool" where
  "tracker_inv s \<longleftrightarrow>
     (\<exists>hdr bm. meta_layout (fst s) (snd s) hdr bm \<and> unat (fm_n_chunks (fst s)) \<le> 8 * length bm)"

definition tracker_got :: "file_metadata \<times> fsys \<Rightarrow> nat \<Rightarrow> bool" where
  "tracker_got s i =
     (case file_data (snd s) (canon (fm_metadata_file (fst s))) of
        Some d \<Rightarrow> chunk_bit (drop 80 d) i | None \<Rightarrow> False)"

abbreviation tracker_count :: "file_metadata \<times> fsys \<Rightarrow> nat" where
  "tracker_count s \<equiv> unat (fm_n_chunks (fst s))"

abbreviation tracker_mark :: "file_metadata \<times> fsys \<Rightarrow> size_t \<Rightarrow> file_metadata \<times> fsys" where
  "tracker_mark s i \<equiv> (fst s, markChunk (fst s) (snd s) i True)"

abbreviation tracker_next :: "file_metadata \<times> fsys \<Rightarrow> size_t" where
  "tracker_next s \<equiv> nextMissingChunk (fst s) (snd s) 0"

lemma tracker_got_layout: "meta_layout m fs hdr bm \<Longrightarrow> tracker_got (m, fs) i = chunk_bit bm i"
  by (simp add: tracker_got_def meta_layout_def)

lemma meta_layout_key: "meta_layout m fs hdr bm \<Longrightarrow> canon (fm_metadata_file m) \<noteq> []"
  by (auto simp: meta_layout_def)

lemma meta_layout_update:
  assumes "meta_layout m fs hdr bm" and "length bm' = length bm"
  shows "meta_layout m (fs(canon (fm_metadata_file m) \<mapsto> Regular (hdr @ bm'))) hdr bm'"
  using assms meta_layout_key [OF assms(1)] by (simp add: meta_layout_def file_data_update)

lemma markChunk_layout:
  assumes "meta_layout m fs hdr bm"
  shows "meta_layout m (markChunk m fs i v) hdr
    (if unat i div 8 < length bm then set_chunk_bit bm (unat i) v else bm)"
  using assms meta_layout_update [OF assms]
  by (cases "unat i div 8 < length bm") (simp_all add: markChunk_inside markChunk_outside)

interpretation tracker: chunk_tracker tracker_inv tracker_count tracker_got tracker_mark tracker_next
proof
  fix s i assume "tracker_inv s"
  then obtain hdr bm where lay: "meta_layout (fst s) (snd s) hdr bm"
    and n: "tracker_count s \<le> 8 * length bm" by (auto simp: tracker_inv_def)
  show "tracker_inv (tracker_mark s i)"
    unfolding tracker_inv_def fst_conv snd_conv
  proof (intro exI conjI)
    show "meta_layout (fst s) (markChunk (fst s) (snd s) i True) hdr
        (if unat i div 8 < length bm then set_chunk_bit bm (unat i) True else bm)"
      using lay by (rule markChunk_layout)
  qed (use n in simp)
  show "tracker_count (tracker_mark s i) = tracker_count s" by simp
  show "tracker_got (tracker_mark s i) j \<longleftrightarrow> j = unat i \<or> tracker_got s j"
    if "unat i < tracker_count s" "j < tracker_count s" for j
  proof -
    have "unat i div 8 < length bm" using that n by linarith
    then show ?thesis
      using markChunk_layout [OF lay, of i True] lay
      by (cases s) (simp add: tracker_got_layout chunk_bit_set)
  qed
next
  fix s assume "tracker_inv s"
  then obtain hdr bm where lay: "meta_layout (fst s) (snd s) hdr bm"
    and n: "tracker_count s \<le> 8 * length bm" by (auto simp: tracker_inv_def)
  have got: "tracker_got s i = chunk_bit bm i" for i
    using tracker_got_layout [OF lay] by simp
  have big: "tracker_count s < unat UINT64_MAX"
    using n lay by (simp only: unat_UINT64_MAX) (simp add: meta_layout_def)
  note cases = nextMissing_cases [OF lay n, of 0, simplified]
  show "tracker_next s = UINT64_MAX \<longleftrightarrow> (\<forall>i < tracker_count s. tracker_got s i)"
    using cases big by (auto simp: got gap_from_def)
  show "unat (tracker_next s) < tracker_count s \<and> \<not> tracker_got s (unat (tracker_next s)) \<and>
      (\<forall>i < unat (tracker_next s). tracker_got s i)"
    if "tracker_next s \<noteq> UINT64_MAX"
    using cases that by (auto simp: got gap_from_def)
qed

section \<open>Properties of the metadata files\<close>

text \<open>A metadata file for ten chunks, the first three received.\<close>

definition sample_meta :: file_metadata where
  "sample_meta = \<lparr>fm_effective_path = ascii ''/f'', fm_file_size = 39680, fm_chunk_size = 3968,
     fm_hash = replicate HASH_SIZE 0, fm_n_chunks = 10, fm_header_size = 80, fm_bitmap_size = 2,
     fm_metadata_file = ascii ''/.f.meta''\<rparr>"

definition sample_meta_fs :: fsys where
  "sample_meta_fs = [canon (ascii ''/.f.meta'') \<mapsto> Regular (replicate 80 0 @ [0xE0, 0])]"

lemma sample_canon: "canon (ascii ''/.f.meta'') = [ascii ''.f.meta'']"
  by (simp add: canon_def ascii_def)

lemma sample_layout: "meta_layout sample_meta sample_meta_fs (replicate 80 0) [0xE0, 0]"
  by (simp add: meta_layout_def sample_meta_def sample_meta_fs_def sample_canon file_data_def
      node_at_def) (simp add: ascii_def)

text \<open>
  C13.  The search reports the first missing chunk: starting at the byte that holds the bit of
  \<open>from\<close>, either it returns \<open>UINT64_MAX\<close> and every chunk from there on was received, or it
  returns a chunk of the file that was not received while all those before it, from there on,
  were.
\<close>

theorem next_missing_first:
  assumes "meta_layout m fs hdr bm" and "unat (fm_n_chunks m) \<le> 8 * length bm"
    and "unat from_idx div 8 \<le> length bm"
  shows "(nextMissingChunk m fs from_idx = UINT64_MAX \<and>
      (\<forall>i. 8 * (unat from_idx div 8) \<le> i \<and> i < unat (fm_n_chunks m) \<longrightarrow> chunk_bit bm i)) \<or>
    (let r = unat (nextMissingChunk m fs from_idx) in
       r < unat (fm_n_chunks m) \<and> 8 * (unat from_idx div 8) \<le> r \<and> \<not> chunk_bit bm r \<and>
       (\<forall>i. 8 * (unat from_idx div 8) \<le> i \<and> i < r \<longrightarrow> chunk_bit bm i))"
  using nextMissing_cases [OF assms] by (auto simp: gap_from_def Let_def)

theorem next_missing_first_witness:
  "(nextMissingChunk sample_meta sample_meta_fs 1 = UINT64_MAX \<and>
      (\<forall>i. 8 * (unat (1 :: size_t) div 8) \<le> i \<and> i < unat (fm_n_chunks sample_meta) \<longrightarrow>
         chunk_bit [0xE0, 0] i)) \<or>
    (let r = unat (nextMissingChunk sample_meta sample_meta_fs 1) in
       r < unat (fm_n_chunks sample_meta) \<and> 8 * (unat (1 :: size_t) div 8) \<le> r \<and> \<not> chunk_bit [0xE0, 0] r \<and>
       (\<forall>i. 8 * (unat (1 :: size_t) div 8) \<le> i \<and> i < r \<longrightarrow> chunk_bit [0xE0, 0] i))"
  by (rule next_missing_first [OF sample_layout]) (simp_all add: sample_meta_def)

text \<open>
  Marking a chunk writes the metadata file only, and there changes the bit of that chunk
  and no other.
\<close>

theorem mark_one_bit:
  assumes "meta_layout m fs hdr bm" and "unat i div 8 < length bm"
  shows "\<exists>bm'. markChunk m fs i v = fs(canon (fm_metadata_file m) \<mapsto> Regular (hdr @ bm')) \<and>
    length bm' = length bm \<and> (\<forall>j. chunk_bit bm' j = (if j = unat i then v else chunk_bit bm j))"
  using markChunk_inside [OF assms] chunk_bit_set [OF assms(2)]
  by (intro exI [of _ "set_chunk_bit bm (unat i) v"]) simp

theorem mark_one_bit_witness:
  "\<exists>bm'. markChunk sample_meta sample_meta_fs 9 True =
      sample_meta_fs(canon (fm_metadata_file sample_meta) \<mapsto> Regular (replicate 80 0 @ bm')) \<and>
    length bm' = length [0xE0 :: byte, 0] \<and>
    (\<forall>j. chunk_bit bm' j = (if j = unat (9 :: size_t) then True else chunk_bit [0xE0, 0] j))"
  by (rule mark_one_bit [OF sample_layout]) simp

lemma mark_rounds:
  "((\<lambda>s. tracker_mark s (tracker_next s)) ^^ k) (m, fs) =
   (m, ((\<lambda>fs. markChunk m fs (nextMissingChunk m fs 0) True) ^^ k) fs)"
  by (induction k) simp_all

text \<open>
  Asking for the first missing chunk and marking it, over and over, takes exactly as many
  rounds as chunks are missing: then the search reports that none is left.
\<close>

theorem fetch_every_chunk:
  assumes "meta_layout m fs hdr bm" and "unat (fm_n_chunks m) \<le> 8 * length bm"
  shows "nextMissingChunk m
    (((\<lambda>fs. markChunk m fs (nextMissingChunk m fs 0) True) ^^
        card {i. i < unat (fm_n_chunks m) \<and> \<not> chunk_bit bm i}) fs) 0 = UINT64_MAX"
proof -
  have "tracker_inv (m, fs)" using assms by (auto simp: tracker_inv_def)
  from tracker.fetch_all [OF this refl] show ?thesis
    by (simp add: mark_rounds tracker_got_layout [OF assms(1)])
qed

theorem fetch_every_chunk_witness:
  "nextMissingChunk sample_meta
    (((\<lambda>fs. markChunk sample_meta fs (nextMissingChunk sample_meta fs 0) True) ^^
        card {i. i < unat (fm_n_chunks sample_meta) \<and> \<not> chunk_bit [0xE0, 0] i}) sample_meta_fs) 0 =
    UINT64_MAX"
  by (rule fetch_every_chunk [OF sample_layout]) (simp add: sample_meta_def)

lemma meta_can_create:
  assumes "entry_path e p w" and "create_directories fs p = (Inr u, fs1)"
    and "node_at fs1 (canon (metadata_path e)) = None"
  shows "can_create fs1 (canon (metadata_path e))"
  using assms entry_path_parts(3) [OF metadata_path_entry [OF assms(1)]] create_directories_makes [OF assms(2)]
  by (auto simp: can_create_def node_at_def split: if_splits)

text \<open>
  C27.  What a new metadata file records can be read back: after \<open>createIfNotExist\<close> on a path
  that has no metadata yet, \<open>readHeader\<close> returns the file size, chunk size and hash, and no
  chunk counts as received.
\<close>

theorem header_roundtrip:
  assumes m: "FileMetadata_new e sz csz h = Inr m" and e: "entry_path e p w"
    and dirs: "create_directories fs p = (Inr u, fs1)"
    and new: "node_at fs1 (canon (metadata_path e)) = None"
    and h: "length h = HASH_SIZE" and small: "unat (fm_bitmap_size m) < 2 ^ 31"
  shows "\<exists>fs'. createIfNotExist m fs = (Inr (), fs') \<and> readHeader fs' e = (sz, csz, h) \<and>
    (\<forall>i. \<not> (i < 8 * unat (fm_bitmap_size m) \<and> tracker_got (m, fs') i))"
proof -
  let ?k = "canon (metadata_path e)"
  have f: "fm_effective_path m = e" "fm_metadata_file m = metadata_path e" "fm_hash m = h"
    "meta_header m = native64 sz @ native64 csz @ h"
    using m h by (auto simp: FileMetadata_new_def Let_def meta_header_def split: if_splits)
  note me = entry_path_parts [OF metadata_path_entry [OF e]]
  have k: "?k \<noteq> []" using me(3) by simp
  let ?fs = "fs1(?k \<mapsto> Regular (meta_header m @ replicate (unat (fm_bitmap_size m)) 0))"
  have "createIfNotExist m fs = (Inr (), ?fs)"
    using dirs new h small me(4) meta_can_create [OF e dirs new]
    by (subst createIfNotExist_new [of fs m u fs1])
      (simp_all add: f entry_path_parts [OF e] fs_exists_def)
  moreover have "readHeader ?fs e = (sz, csz, h)"
    using k me(4) h by (intro readHeader_layout) (simp_all add: f file_data_update)
  moreover have "\<not> (i < 8 * unat (fm_bitmap_size m) \<and> tracker_got (m, ?fs) i)" for i
  proof -
    have "i div 8 < unat (fm_bitmap_size m)" if "i < 8 * unat (fm_bitmap_size m)" using that by linarith
    then show ?thesis using k h by (auto simp: tracker_got_def f file_data_update chunk_bit_def HASH_SIZE_def)
  qed
  ultimately show ?thesis by blast
qed

definition sample_new :: file_metadata where
  "sample_new = \<lparr>fm_effective_path = ascii ''/d/f'', fm_file_size = 5, fm_chunk_size = 3968,
     fm_hash = replicate HASH_SIZE 0, fm_n_chunks = 1, fm_header_size = 80, fm_bitmap_size = 1,
     fm_metadata_file = metadata_path (ascii ''/d/f'')\<rparr>"

lemma sample_dirs: "create_directories Map.empty (ascii ''/d'') = (Inr (), [[ascii ''d''] \<mapsto> Dir])"
  by (simp add: create_directories_def canon_def ascii_def)

lemma sample_entry: "entry_path (ascii ''/d/f'') (ascii ''/d'') (ascii ''f'')"
  by (simp add: entry_path_def simple_name_def ascii_def)

lemma sample_meta_absent: "node_at [[ascii ''d''] \<mapsto> Dir] (canon (metadata_path (ascii ''/d/f''))) = None"
proof -
  have "canon (metadata_path (ascii ''/d/f'')) = canon (ascii ''/d'') @ [meta_name (ascii ''f'')]"
    using entry_path_parts(3) [OF metadata_path_entry [OF sample_entry]] .
  then show ?thesis by (simp add: node_at_def canon_def ascii_def)
qed

theorem header_roundtrip_witness:
  "\<exists>fs'. createIfNotExist sample_new Map.empty = (Inr (), fs') \<and>
    readHeader fs' (ascii ''/d/f'') = (5, 3968, replicate HASH_SIZE 0) \<and>
    (\<forall>i. \<not> (i < 8 * unat (fm_bitmap_size sample_new) \<and> tracker_got (sample_new, fs') i))"
proof (rule header_roundtrip [OF _ sample_entry sample_dirs sample_meta_absent])
  show "FileMetadata_new (ascii ''/d/f'') 5 3968 (replicate HASH_SIZE 0) = Inr sample_new"
    by (simp add: FileMetadata_new_def Let_def sample_new_def HASH_SIZE_def)
qed (simp_all add: sample_new_def)

end
