(* ===== verification/FT_File.thy ===== *)
theory FT_File
  imports FT_File_Meta
begin

text \<open>
  The files of \<open>src/file/ft_file.hpp\<close> and \<open>src/file/ft_file.cpp\<close>: local files on the client,
  from which chunks are read, and remote files on the server, into which chunks are saved.
  BLAKE2b comes from Crypto++, which is not part of the sources: it is a parameter, an object
  with an initial state, \<open>Update\<close> and \<open>TruncatedFinal\<close>, and \<open>blake2b_laws\<close> states what the
  library documents.  The lemmas show what each operation does to the data file and to the
  bitmap, and that a remote file all of whose chunks were saved from a local file equals it.
\<close>

section \<open>Hashing\<close>

record 's blake2b =
  b2_init :: 's
  b2_update :: "'s \<Rightarrow> bytes \<Rightarrow> 's"
  b2_final :: "'s \<Rightarrow> nat \<Rightarrow> bytes"

text \<open>The block size of BLAKE2b in Crypto++, and the digest size the sources ask for.\<close>

abbreviation (input) BLAKE2B_BLOCK :: nat where "BLAKE2B_BLOCK \<equiv> 128"
abbreviation (input) BLAKE2B_DIGEST :: nat where "BLAKE2B_DIGEST \<equiv> 64"

text \<open>
  Documented behaviour: the digest depends on the concatenation of what was fed to
  \<open>Update\<close>, not on how it was cut into pieces, and has the requested length.
\<close>

definition blake2b_laws :: "'s blake2b \<Rightarrow> bool" where
  "blake2b_laws B \<longleftrightarrow>
     (\<forall>xss yss. concat xss = concat yss \<longrightarrow>
        b2_final B (fold (\<lambda>d h. b2_update B h d) xss (b2_init B)) BLAKE2B_DIGEST =
        b2_final B (fold (\<lambda>d h. b2_update B h d) yss (b2_init B)) BLAKE2B_DIGEST) \<and>
     (\<forall>h. length (b2_final B h BLAKE2B_DIGEST) = BLAKE2B_DIGEST)"

definition calc_hash_buf :: "'s blake2b \<Rightarrow> bytes \<Rightarrow> bytes" where
  "calc_hash_buf B buf = b2_final B (b2_update B (b2_init B) buf) BLAKE2B_DIGEST"

function hash_loop :: "'s blake2b \<Rightarrow> fsys \<Rightarrow> fstream \<Rightarrow> 's \<Rightarrow> 's" where
  "hash_loop B fs is h =
     (case st_read fs is BLAKE2B_BLOCK of
        (d, is) \<Rightarrow> if st_ok is then hash_loop B fs is (b2_update B h d) else b2_update B h d)"
  by pat_completeness auto
termination
  by (relation "measure (\<lambda>(B, fs, is, h). if st_ok is
        then Suc (length (stream_data fs is) - st_pos is) else 0)")
    (auto simp: st_read_def Let_def read_at_def stream_data_def split: if_splits)

declare hash_loop.simps [simp del]

definition calc_hash_stream :: "'s blake2b \<Rightarrow> fsys \<Rightarrow> fstream \<Rightarrow> bytes" where
  "calc_hash_stream B fs is = b2_final B (hash_loop B fs (st_seek is 0) (b2_init B)) BLAKE2B_DIGEST"

definition calc_hash_file :: "'s blake2b \<Rightarrow> fsys \<Rightarrow> path \<Rightarrow> bytes" where
  "calc_hash_file B fs p = calc_hash_stream B fs (open_in fs p)"

section \<open>Files and chunks\<close>

definition CHUNK_SIZE :: size_t where "CHUNK_SIZE = MAX_MSG_PAYLOAD_SIZE"

datatype ft_file =
    is_FileLocal: FileLocal (f_path: path) (f_hash: bytes) (f_size: size_t) (f_effective_path: path)
  | is_FileRemote: FileRemote (f_path: path) (f_hash: bytes) (f_size: size_t) (f_effective_path: path)
      (f_metadata: file_metadata)

record file_chunk =
  fc_file :: ft_file
  fc_idx :: size_t
  fc_data :: bytes
  fc_hash :: bytes

definition getNumOfChunks :: "ft_file \<Rightarrow> size_t" where
  "getNumOfChunks f = f_size f div CHUNK_SIZE + (if f_size f mod CHUNK_SIZE > 0 then 1 else 0)"

section \<open>Making files\<close>

text \<open>The static \<open>sm_path_prefix\<close> is the argument \<open>prefix\<close>.\<close>

definition makeLocalFile :: "'s blake2b \<Rightarrow> path \<Rightarrow> fsys \<Rightarrow> path \<Rightarrow> ft_file result" where
  "makeLocalFile B prefix fs p =
     (let effective_path = path_append prefix p
      in if \<not> is_regular_file fs effective_path \<or> \<not> fs_exists fs effective_path
         then Inl (Runtime_error ''File does not exists or is not a regular file'')
         else Inr (FileLocal p (calc_hash_file B fs effective_path)
                (fs_file_size fs effective_path) effective_path))"

definition FileRemote_new :: "path \<Rightarrow> bytes \<Rightarrow> size_t \<Rightarrow> path \<Rightarrow> fsys \<Rightarrow> ft_file result \<times> fsys" where
  "FileRemote_new p hash fsize effective_path fs =
     (case FileMetadata_new effective_path fsize CHUNK_SIZE hash of
        Inl e \<Rightarrow> (Inl e, fs)
      | Inr m \<Rightarrow>
        (case create_directories fs (parent_path effective_path) of
           (Inl e, fs) \<Rightarrow> (Inl e, fs)
         | (Inr _, fs) \<Rightarrow>
           (case createIfNotExist m fs of
              (Inl e, fs) \<Rightarrow> (Inl e, fs)
            | (Inr _, fs) \<Rightarrow>
                (Inr (FileRemote p hash fsize effective_path m),
                 if fs_exists fs effective_path then fs
                 else let (os, fs) = open_out fs effective_path;
                          os = st_seek os (fsize - 1)
                      in snd (st_write fs os [0])))))"

definition makeRemoteFile :: "path \<Rightarrow> fsys \<Rightarrow> path \<Rightarrow> bytes \<Rightarrow> size_t \<Rightarrow> ft_file result \<times> fsys" where
  "makeRemoteFile prefix fs p hash fsize =
     FileRemote_new p hash fsize (path_append prefix p) fs"

text \<open>The second overload loads the header; without a metadata file the pointer is null.\<close>

definition makeRemoteFile_load :: "path \<Rightarrow> fsys \<Rightarrow> path \<Rightarrow> ft_file option result \<times> fsys" where
  "makeRemoteFile_load prefix fs p =
     (let effective_path = path_append prefix p;
          (file_size, file_chunk_size, file_hash) = readHeader fs effective_path
      in if file_chunk_size > 0
         then (case FileRemote_new p file_hash file_size effective_path fs of
                 (Inl e, fs) \<Rightarrow> (Inl e, fs)
               | (Inr f, fs) \<Rightarrow> (Inr (Some f), fs))
         else (Inr None, fs))"

section \<open>Operations of the two kinds of files\<close>

fun getNextMissingChunk :: "ft_file \<Rightarrow> fsys \<Rightarrow> size_t \<Rightarrow> size_t" where
  "getNextMissingChunk (FileLocal _ _ _ _) fs from_chunk_idx = UINT64_MAX"
| "getNextMissingChunk (FileRemote _ _ _ _ m) fs from_chunk_idx = nextMissingChunk m fs from_chunk_idx"

text \<open>\<open>memcmp\<close> compares as many bytes as the stored hash has.\<close>

fun isComplete :: "'s blake2b \<Rightarrow> ft_file \<Rightarrow> fsys \<Rightarrow> bool result" where
  "isComplete B (FileLocal _ _ _ _) fs = Inr True"
| "isComplete B (FileRemote p hash fsize effective_path m) fs =
     (if fs_exists fs effective_path then
        if nextMissingChunk m fs 0 = UINT64_MAX then
          let local_hash = calc_hash_file B fs effective_path
          in if length local_hash < length hash then Inl Undefined
             else Inr (take (length hash) local_hash = hash)
        else Inr False
      else Inr False)"

fun getChunk :: "'s blake2b \<Rightarrow> ft_file \<Rightarrow> fsys \<Rightarrow> size_t \<Rightarrow> file_chunk result" where
  "getChunk B (FileLocal p hash fsize effective_path) fs idx =
     (let offset = idx * CHUNK_SIZE
      in if offset > fsize then Inl (Range_error ''Chunk index outside file length range'')
         else
           let chunk_size = (if fsize - offset < CHUNK_SIZE then fsize - offset else CHUNK_SIZE);
               is = st_seek (open_in fs effective_path) offset;
               (d, is) = st_read fs is (unat chunk_size);
               chunk_data = d @ replicate (unat chunk_size - length d) 0
           in Inr \<lparr>fc_file = FileLocal p hash fsize effective_path, fc_idx = idx,
                   fc_data = chunk_data, fc_hash = calc_hash_buf B chunk_data\<rparr>)"
| "getChunk B (FileRemote _ _ _ _ _) fs idx =
     Inl (Domain_error ''File chunks cannot be retrieved from remote files'')"

fun saveChunk :: "ft_file \<Rightarrow> fsys \<Rightarrow> file_chunk \<Rightarrow> unit result \<times> fsys" where
  "saveChunk (FileLocal _ _ _ _) fs chunk =
     (Inl (Domain_error ''File chunks cannot be saved in local files''), fs)"
| "saveChunk (FileRemote p hash fsize effective_path m) fs chunk =
     (let offset = fc_idx chunk * CHUNK_SIZE
      in if offset > fsize then (Inr (), fs)
         else
           let chunk_size = (if fsize - offset < CHUNK_SIZE then fsize - offset else CHUNK_SIZE)
           in if unat chunk_size \<noteq> length (fc_data chunk) then (Inr (), fs)
              else
                let os = st_seek (open_inout fs effective_path) offset;
                    (os, fs) = st_write fs os (fc_data chunk)
                in (Inr (), markChunk m fs (fc_idx chunk) True))"

section \<open>The digest of a file\<close>

lemma hash_loop_feed:
  "st_ok is \<Longrightarrow> \<exists>xss. hash_loop B fs is h = fold (\<lambda>d h. b2_update B h d) xss h \<and>
     concat xss = drop (st_pos is) (stream_data fs is)"
proof (induction B fs "is" h rule: hash_loop.induct)
  case (1 B fs "is" h)
  let ?d = "read_at (stream_data fs is) (st_pos is) BLAKE2B_BLOCK"
  let ?is = "is\<lparr>st_pos := st_pos is + length ?d, st_ok := (length ?d = BLAKE2B_BLOCK)\<rparr>"
  have read: "st_read fs is BLAKE2B_BLOCK = (?d, ?is)" using 1(2) by (simp add: st_read_def Let_def)
  have data: "stream_data fs ?is = stream_data fs is" by (simp add: stream_data_def)
  show ?case
  proof (cases "st_ok ?is")
    case True
    from "1.IH" [OF read [symmetric] True True] obtain xss where
      xss: "hash_loop B fs ?is (b2_update B h ?d) = fold (\<lambda>d h. b2_update B h d) xss (b2_update B h ?d)"
        "concat xss = drop (st_pos is + length ?d) (stream_data fs is)"
      by (auto simp: data)
    have "?d @ drop (st_pos is + length ?d) (stream_data fs is) = drop (st_pos is) (stream_data fs is)"
    proof -
      have "length ?d = BLAKE2B_BLOCK" using True by simp
      then show ?thesis by (simp add: read_at_def) (metis append_take_drop_id drop_drop add.commute)
    qed
    then show ?thesis
      using True xss by (intro exI [of _ "?d # xss"]) (simp add: hash_loop.simps [of B fs "is" h] read)
  next
    case False
    then have "length ?d \<noteq> BLAKE2B_BLOCK" by simp
    then have "?d = drop (st_pos is) (stream_data fs is)" by (simp add: read_at_def)
    then show ?thesis
      using False by (intro exI [of _ "[?d]"]) (simp add: hash_loop.simps [of B fs "is" h] read)
  qed
qed

lemma calc_hash_file_eq:
  assumes "blake2b_laws B" and "p \<noteq> []" and "file_data fs (canon p) = Some d"
  shows "calc_hash_file B fs p = calc_hash_buf B d"
proof -
  let ?is = "\<lparr>st_key = canon p, st_pos = 0, st_ok = True\<rparr>"
  have "st_seek (open_in fs p) 0 = ?is"
    using assms(2,3) by (simp add: open_in_def is_regular_file_def st_seek_def)
  moreover have "stream_data fs ?is = d" using assms(3) by (simp add: stream_data_def)
  moreover obtain xss where "hash_loop B fs ?is (b2_init B) = fold (\<lambda>d h. b2_update B h d) xss (b2_init B)"
      "concat xss = drop (st_pos ?is) (stream_data fs ?is)"
    using hash_loop_feed [of ?is B fs "b2_init B"] by auto
  ultimately show ?thesis
    using assms(1) [unfolded blake2b_laws_def, THEN conjunct1, rule_format, of xss "[d]"]
    by (simp add: calc_hash_file_def calc_hash_stream_def calc_hash_buf_def)
qed

lemma calc_hash_buf_length: "blake2b_laws B \<Longrightarrow> length (calc_hash_buf B d) = BLAKE2B_DIGEST"
  by (simp add: blake2b_laws_def calc_hash_buf_def)

section \<open>Chunks of a byte sequence\<close>

abbreviation (input) CHUNK :: nat where "CHUNK \<equiv> 3968"

definition chunk_count :: "nat \<Rightarrow> nat" where
  "chunk_count n = n div CHUNK + (if n mod CHUNK > 0 then 1 else 0)"

definition chunk_at :: "bytes \<Rightarrow> nat \<Rightarrow> bytes" where
  "chunk_at xs i = read_at xs (i * CHUNK) CHUNK"

lemma chunk_count_iff: "i < chunk_count n \<longleftrightarrow> i * CHUNK < n"
proof -
  define q r where "q = n div CHUNK" and "r = n mod CHUNK"
  have n: "n = q * CHUNK + r" and r: "r < CHUNK" by (simp_all add: q_def r_def)
  have "chunk_count n = q + (if r > 0 then 1 else 0)" by (simp add: chunk_count_def q_def r_def)
  then show ?thesis unfolding n using r by (cases "r > 0") auto
qed

lemma chunk_at_length: "length (chunk_at xs i) = min CHUNK (length xs - i * CHUNK)"
  by (simp add: chunk_at_def length_read_at)

lemma nth_chunk_at:
  "k < CHUNK \<Longrightarrow> i * CHUNK + k < length xs \<Longrightarrow> chunk_at xs i ! k = xs ! (i * CHUNK + k)"
  by (simp add: chunk_at_def read_at_def)

text \<open>A file that is not longer than the source and has all of its chunks is the source.\<close>

lemma chunks_determine:
  assumes "length xs \<le> length ys"
    and "\<And>i. i < chunk_count (length ys) \<Longrightarrow> chunk_at xs i = chunk_at ys i"
  shows "xs = ys"
proof -
  have "length xs = length ys"
  proof (rule ccontr)
    assume ne: "length xs \<noteq> length ys"
    define i where "i = length xs div CHUNK"
    have le: "i * CHUNK \<le> length xs" "length xs < i * CHUNK + CHUNK"
      using div_mod_decomp [of "length xs" CHUNK] mod_less_divisor [of CHUNK "length xs"] by (simp_all add: i_def)
    then have "chunk_at xs i = chunk_at ys i" using ne assms(1) by (intro assms(2)) (simp add: chunk_count_iff)
    then have "min CHUNK (length xs - i * CHUNK) = min CHUNK (length ys - i * CHUNK)"
      by (metis chunk_at_length)
    then show False using le ne assms(1) by linarith
  qed
  moreover have "xs ! j = ys ! j" if j: "j < length xs" for j
  proof -
    have "j div CHUNK < chunk_count (length ys)" using j assms(1) by (simp add: chunk_count_iff)
    then have "chunk_at xs (j div CHUNK) ! (j mod CHUNK) = chunk_at ys (j div CHUNK) ! (j mod CHUNK)"
      using assms(2) by simp
    then show ?thesis using j assms(1) by (simp add: chunk_at_def read_at_def mult.commute)
  qed
  ultimately show ?thesis by (rule nth_equalityI)
qed

text \<open>Bytes of the source at their own place, all of a chunk or some: right chunks stay right.\<close>

lemma right_length:
  assumes "length dat \<le> length src" and "i < chunk_count (length src)"
  shows "length (write_at dat (i * CHUNK) (take k (chunk_at src i))) \<le> length src"
  using assms by (auto simp: length_write_at chunk_at_length chunk_count_iff)

lemma right_kept:
  assumes len: "length dat \<le> length src" and i: "i < chunk_count (length src)"
    and right: "chunk_at dat j = chunk_at src j"
  shows "chunk_at (write_at dat (i * CHUNK) (take k (chunk_at src i))) j = chunk_at src j"
proof (rule nth_equalityI)
  let ?d = "take k (chunk_at src i)" and ?o = "i * CHUNK"
  have have_j: "min CHUNK (length dat - j * CHUNK) = min CHUNK (length src - j * CHUNK)"
    using arg_cong [OF right, of length] by (simp add: chunk_at_length)
  have "length dat \<le> length (write_at dat ?o ?d)" by (simp add: length_write_at)
  then show "length (chunk_at (write_at dat ?o ?d) j) = length (chunk_at src j)"
    using right_length [OF len i, of k] have_j unfolding chunk_at_length by linarith
  fix q assume q0: "q < length (chunk_at (write_at dat ?o ?d) j)"
  then have q: "q < CHUNK" "j * CHUNK + q < length src" "j * CHUNK + q < length dat"
    using right_length [OF len i, of k] have_j unfolding chunk_at_length by linarith+
  have dat: "dat ! (j * CHUNK + q) = src ! (j * CHUNK + q)"
    using right nth_chunk_at [OF q(1)] q(2,3) by metis
  have src: "?d ! (j * CHUNK + q - ?o) = src ! (j * CHUNK + q)"
    if "?o \<le> j * CHUNK + q" "j * CHUNK + q < ?o + length ?d"
    using that nth_chunk_at [of "j * CHUNK + q - ?o" i src] q(2) by (simp add: chunk_at_length)
  show "chunk_at (write_at dat ?o ?d) j ! q = chunk_at src j ! q"
    using nth_chunk_at [OF q(1), of j "write_at dat ?o ?d"] nth_chunk_at [OF q(1,2)] dat src q0
      nth_write_at [OF q(3), of ?o ?d] by (auto simp: chunk_at_length)
qed

lemma right_added:
  assumes len: "length dat \<le> length src" and i: "i < chunk_count (length src)"
  shows "chunk_at (write_at dat (i * CHUNK) (chunk_at src i)) i = chunk_at src i"
proof (rule nth_equalityI)
  let ?d = "chunk_at src i" and ?o = "i * CHUNK"
  have lt: "?o < length src" using i by (simp add: chunk_count_iff)
  then have ne: "?d \<noteq> []" by (auto simp: chunk_at_length simp flip: length_0_conv)
  then have l: "length (write_at dat ?o ?d) = max (length dat) (?o + length ?d)" by (simp add: length_write_at)
  then show "length (chunk_at (write_at dat ?o ?d) i) = length ?d"
    using len lt unfolding chunk_at_length by linarith
  fix q assume "q < length (chunk_at (write_at dat ?o ?d) i)"
  then have q: "q < CHUNK" "q < length ?d" using len lt unfolding chunk_at_length l by linarith+
  then show "chunk_at (write_at dat ?o ?d) i ! q = ?d ! q"
    using nth_chunk_at [OF q(1), of i "write_at dat ?o ?d"] nth_write_at_new [OF q(2)] l by simp
qed

lemma right_written:
  assumes "length dat \<le> length src" and "i < chunk_count (length src)"
    and "j = i \<or> chunk_at dat j = chunk_at src j"
  shows "chunk_at (write_at dat (i * CHUNK) (chunk_at src i)) j = chunk_at src j"
  using assms(3) right_added [OF assms(1,2)] right_kept [OF assms(1,2), of j CHUNK]
  by (auto simp: chunk_at_def read_at_def)

section \<open>The numbers of a remote file\<close>

lemma unat_CHUNK_SIZE [simp]: "unat CHUNK_SIZE = CHUNK"
  by (simp add: CHUNK_SIZE_def)

lemma CHUNK_SIZE_nonzero [simp]: "CHUNK_SIZE \<noteq> 0"
  by (simp add: CHUNK_SIZE_def payload_size_value)

lemma unat_ceil_div:
  fixes a b :: size_t
  assumes "1 < unat b"
  shows "unat (a div b + (if a mod b > 0 then 1 else 0)) =
    unat a div unat b + (if unat a mod unat b > 0 then 1 else 0)"
proof -
  have "unat (a div b) = unat a div unat b" "unat (a mod b) = unat a mod unat b"
    by (simp_all add: unat_div unat_mod)
  moreover have "unat a div unat b < 2 ^ 63"
  proof -
    have "unat a div unat b \<le> unat a div 2" using assms by (intro div_le_mono2) simp_all
    also have "\<dots> < 2 ^ 63" using unat_bounds(4) [of a] by simp
    finally show ?thesis .
  qed
  ultimately show ?thesis by (simp add: unat_word_ariths(1) word_less_nat_alt)
qed

lemma getNumOfChunks_count: "unat (getNumOfChunks f) = chunk_count (unat (f_size f))"
  unfolding getNumOfChunks_def chunk_count_def by (subst unat_ceil_div) simp_all

lemma ceil8: "(n :: nat) \<le> 8 * (n div 8 + (if n mod 8 > 0 then 1 else 0))"
  by presburger

lemma FileMetadata_fields:
  assumes "FileMetadata_new e sz CHUNK_SIZE h = Inr m"
  shows "fm_effective_path m = e" and "fm_file_size m = sz" and "fm_chunk_size m = CHUNK_SIZE"
    and "fm_hash m = h" and "fm_header_size m = 80" and "fm_metadata_file m = metadata_path e"
    and "unat (fm_n_chunks m) = chunk_count (unat sz)"
    and "unat (fm_n_chunks m) \<le> 8 * unat (fm_bitmap_size m)"
    and "unat (fm_bitmap_size m) \<le> chunk_count (unat sz) div 8 + 1"
proof -
  have m: "m = \<lparr>fm_effective_path = e, fm_file_size = sz, fm_chunk_size = CHUNK_SIZE, fm_hash = h,
      fm_n_chunks = fm_n_chunks m, fm_header_size = 80,
      fm_bitmap_size = fm_n_chunks m div 8 + (if fm_n_chunks m mod 8 > 0 then 1 else 0),
      fm_metadata_file = metadata_path e\<rparr>"
    and n: "fm_n_chunks m = sz div CHUNK_SIZE + (if sz mod CHUNK_SIZE > 0 then 1 else 0)"
    using assms by (auto simp: FileMetadata_new_def Let_def HASH_SIZE_def split: if_splits)
  from m show "fm_effective_path m = e" "fm_file_size m = sz" "fm_chunk_size m = CHUNK_SIZE"
    "fm_hash m = h" "fm_header_size m = 80" "fm_metadata_file m = metadata_path e"
    by (metis file_metadata.select_convs)+
  show count: "unat (fm_n_chunks m) = chunk_count (unat sz)"
    unfolding n chunk_count_def by (subst unat_ceil_div) simp_all
  have "fm_bitmap_size m = fm_n_chunks m div 8 + (if fm_n_chunks m mod 8 > 0 then 1 else 0)"
    using m by (metis file_metadata.select_convs(7))
  then have b: "unat (fm_bitmap_size m) = unat (fm_n_chunks m) div 8 +
      (if unat (fm_n_chunks m) mod 8 > 0 then 1 else 0)"
    by (simp only:) (subst unat_ceil_div, simp_all)
  show "unat (fm_n_chunks m) \<le> 8 * unat (fm_bitmap_size m)"
    unfolding b by (rule ceil8)
  show "unat (fm_bitmap_size m) \<le> chunk_count (unat sz) div 8 + 1" by (simp add: b count)
qed

section \<open>Remote files in a consistent state\<close>

text \<open>
  A remote file object, the metadata file it was made with and its data file: the header is
  the object's, the bitmap has its size, and the data file is not longer than announced.  It is
  shorter only when the server was killed before it extended the new file to its length.
\<close>

definition remote_state :: "ft_file \<Rightarrow> fsys \<Rightarrow> bytes \<Rightarrow> bytes \<Rightarrow> bool" where
  "remote_state f fs dat bm \<longleftrightarrow>
     is_FileRemote f \<and>
     FileMetadata_new (f_effective_path f) (f_size f) CHUNK_SIZE (f_hash f) = Inr (f_metadata f) \<and>
     (\<exists>p w. entry_path (f_effective_path f) p w \<and> dirs_ok fs (canon p)) \<and>
     length (f_hash f) = HASH_SIZE \<and> unat (f_size f) < 2 ^ 32 \<and>
     meta_layout (f_metadata f) fs (meta_header (f_metadata f)) bm \<and>
     length bm = unat (fm_bitmap_size (f_metadata f)) \<and>
     file_data fs (canon (f_effective_path f)) = Some dat \<and> length dat \<le> unat (f_size f)"

lemma entry_keys_differ:
  assumes "entry_path e p w"
  shows "canon (metadata_path e) \<noteq> canon e" and "canon e \<noteq> []" and "canon (metadata_path e) \<noteq> []"
proof -
  have "canon (metadata_path e) = canon p @ [meta_name w]" "canon e = canon p @ [w]"
    using entry_path_parts(3) [OF metadata_path_entry [OF assms]] entry_path_parts(3) [OF assms]
    by simp_all
  moreover have "meta_name w \<noteq> w"
  proof
    assume "meta_name w = w"
    then have "length (meta_name w) = length w" by simp
    then show False by (simp add: ascii_def)
  qed
  ultimately show "canon (metadata_path e) \<noteq> canon e" "canon e \<noteq> []" "canon (metadata_path e) \<noteq> []"
    by auto
qed

lemma remote_state_parts:
  assumes "remote_state f fs dat bm"
  shows "meta_layout (f_metadata f) fs (meta_header (f_metadata f)) bm"
    and "fm_metadata_file (f_metadata f) = metadata_path (f_effective_path f)"
    and "unat (fm_n_chunks (f_metadata f)) = chunk_count (unat (f_size f))"
    and "chunk_count (unat (f_size f)) \<le> 8 * length bm"
    and "canon (metadata_path (f_effective_path f)) \<noteq> canon (f_effective_path f)"
    and "canon (f_effective_path f) \<noteq> []" and "f_effective_path f \<noteq> []"
    and "file_data fs (canon (f_effective_path f)) = Some dat" and "length dat \<le> unat (f_size f)"
    and "unat (f_size f) < 2 ^ 32" and "length (f_hash f) = HASH_SIZE"
    and "f = FileRemote (f_path f) (f_hash f) (f_size f) (f_effective_path f) (f_metadata f)"
  using assms FileMetadata_fields [of "f_effective_path f" "f_size f" "f_hash f" "f_metadata f"]
  by (auto simp: remote_state_def entry_keys_differ dest: entry_path_parts(4))

text \<open>Any update of the data file within its length, or of the bitmap with the same length, keeps the state.\<close>

lemma remote_state_data:
  assumes "remote_state f fs dat bm" and "length dat' \<le> unat (f_size f)"
  shows "remote_state f (fs(canon (f_effective_path f) \<mapsto> Regular dat')) dat' bm"
proof -
  note parts = remote_state_parts [OF assms(1)]
  have "node_at fs (canon (f_effective_path f)) \<noteq> Some Dir" using parts(8) by (simp add: file_data_node_at)
  then show ?thesis
    using assms parts
    by (auto simp: remote_state_def meta_layout_def file_data_update intro: dirs_ok_update)
qed

lemma remote_state_bitmap:
  assumes "remote_state f fs dat bm" and "length bm' = length bm"
  shows "remote_state f (fs(canon (fm_metadata_file (f_metadata f)) \<mapsto>
    Regular (meta_header (f_metadata f) @ bm'))) dat bm'"
proof -
  note parts = remote_state_parts [OF assms(1)]
  have "node_at fs (canon (fm_metadata_file (f_metadata f))) \<noteq> Some Dir"
    using parts(1) by (simp add: meta_layout_def file_data_node_at)
  then show ?thesis
    using assms parts(2,5,8) meta_layout_key [OF parts(1)] meta_layout_update [OF parts(1) assms(2)]
    by (auto simp: remote_state_def file_data_update intro: dirs_ok_update)
qed

lemma remote_state_mark:
  assumes "remote_state f fs dat bm"
  shows "remote_state f (markChunk (f_metadata f) fs i True) dat
    (if unat i div 8 < length bm then set_chunk_bit bm (unat i) True else bm)"
  using assms remote_state_bitmap [OF assms] remote_state_parts(1) [OF assms]
  by (cases "unat i div 8 < length bm") (simp_all add: markChunk_inside markChunk_outside)

section \<open>Saving a chunk\<close>

text \<open>The length a chunk must have, and the offset arithmetic without wrap-around.\<close>

definition chunk_len :: "nat \<Rightarrow> nat \<Rightarrow> nat" where
  "chunk_len n i = min (n - i * CHUNK) CHUNK"

lemma chunk_at_len: "length (chunk_at xs i) = chunk_len (length xs) i"
  by (simp add: chunk_at_length chunk_len_def)

lemma unat_offset: "unat i < 2 ^ 32 \<Longrightarrow> unat (i * CHUNK_SIZE) = unat i * CHUNK"
  by (simp add: unat_word_ariths)

lemma unat_chunk_len:
  assumes "unat i < 2 ^ 32" and "i * CHUNK_SIZE \<le> n"
  shows "unat (if n - i * CHUNK_SIZE < CHUNK_SIZE then n - i * CHUNK_SIZE else CHUNK_SIZE) =
    chunk_len (unat n) (unat i)"
proof -
  have "unat (n - i * CHUNK_SIZE) = unat n - unat i * CHUNK"
    using assms by (simp add: unat_sub unat_offset)
  then show ?thesis by (simp add: word_less_nat_alt chunk_len_def)
qed

lemma saveChunk_rejected:
  assumes "remote_state f fs dat bm" and "unat (fc_idx c) < 2 ^ 32"
    and "unat (f_size f) < unat (fc_idx c) * CHUNK \<or>
      length (fc_data c) \<noteq> chunk_len (unat (f_size f)) (unat (fc_idx c))"
  shows "saveChunk f fs c = (Inr (), fs)"
proof (cases "f_size f < fc_idx c * CHUNK_SIZE")
  case True
  then show ?thesis
    by (subst remote_state_parts(12) [OF assms(1)]) (simp add: Let_def)
next
  case False
  then have "unat (fc_idx c) * CHUNK \<le> unat (f_size f)"
    using assms(2) by (simp add: word_less_nat_alt unat_offset)
  then have "length (fc_data c) \<noteq> chunk_len (unat (f_size f)) (unat (fc_idx c))" using assms(3) by simp
  then show ?thesis
    using False unat_chunk_len [OF assms(2), of "f_size f"]
    by (subst remote_state_parts(12) [OF assms(1)]) (simp add: Let_def)
qed

text \<open>The bytes of a chunk that fits, put at their place in the data file.\<close>

lemma save_data:
  assumes st: "remote_state f fs dat bm" and idx: "unat (fc_idx c) < 2 ^ 32"
    and ok: "unat (fc_idx c) * CHUNK \<le> unat (f_size f)"
      "length (fc_data c) = chunk_len (unat (f_size f)) (unat (fc_idx c))"
  defines "fs' \<equiv> fs(canon (f_effective_path f) \<mapsto> Regular (write_at dat (unat (fc_idx c) * CHUNK) (fc_data c)))"
  shows "\<not> f_size f < fc_idx c * CHUNK_SIZE"
    and "unat (if f_size f - fc_idx c * CHUNK_SIZE < CHUNK_SIZE then f_size f - fc_idx c * CHUNK_SIZE
      else CHUNK_SIZE) = length (fc_data c)"
    and "snd (st_write fs (st_seek (open_inout fs (f_effective_path f)) (fc_idx c * CHUNK_SIZE)) (fc_data c)) = fs'"
    and "remote_state f fs' (write_at dat (unat (fc_idx c) * CHUNK) (fc_data c)) bm"
proof -
  let ?i = "unat (fc_idx c)" and ?k = "canon (f_effective_path f)"
  let ?dat = "write_at dat (?i * CHUNK) (fc_data c)"
  note parts = remote_state_parts [OF st]
  have off: "unat (fc_idx c * CHUNK_SIZE) = ?i * CHUNK" using idx by (rule unat_offset)
  have le: "fc_idx c * CHUNK_SIZE \<le> f_size f" using ok(1) off by (simp add: word_le_nat_alt)
  then show "\<not> f_size f < fc_idx c * CHUNK_SIZE" by simp
  show "unat (if f_size f - fc_idx c * CHUNK_SIZE < CHUNK_SIZE then f_size f - fc_idx c * CHUNK_SIZE
      else CHUNK_SIZE) = length (fc_data c)" using unat_chunk_len [OF idx le] ok(2) by simp
  have "length ?dat \<le> unat (f_size f)" using ok parts(9) by (auto simp: chunk_len_def length_write_at)
  then show "remote_state f fs' ?dat bm" unfolding fs'_def by (rule remote_state_data [OF st])
  have seek: "st_seek (open_inout fs (f_effective_path f)) (fc_idx c * CHUNK_SIZE) =
      \<lparr>st_key = ?k, st_pos = ?i * CHUNK, st_ok = True\<rparr>"
    using parts(7,8,10) ok(1) off sint_nonneg [of "fc_idx c * CHUNK_SIZE"]
    by (simp add: open_in_def is_regular_file_def st_seek_def)
  show "snd (st_write fs (st_seek (open_inout fs (f_effective_path f)) (fc_idx c * CHUNK_SIZE)) (fc_data c)) = fs'"
  proof (cases "fc_data c = []")
    case True
    have "fs ?k = Some (Regular dat)" using parts(8) by (rule file_data_not_Dir)
    then show ?thesis using True by (auto simp: seek st_write_def fs'_def fun_upd_idem)
  next
    case False
    then show ?thesis using parts(8) by (simp add: seek st_write_def stream_data_def fs'_def)
  qed
qed

lemma saveChunk_accepted:
  assumes st: "remote_state f fs dat bm" and idx: "unat (fc_idx c) < 2 ^ 32"
    and ok: "unat (fc_idx c) * CHUNK \<le> unat (f_size f)"
      "length (fc_data c) = chunk_len (unat (f_size f)) (unat (fc_idx c))"
  shows "\<exists>fs'. saveChunk f fs c = (Inr (), fs') \<and>
    remote_state f fs' (write_at dat (unat (fc_idx c) * CHUNK) (fc_data c))
      (if unat (fc_idx c) div 8 < length bm then set_chunk_bit bm (unat (fc_idx c)) True else bm)"
proof -
  note data = save_data [OF assms]
  let ?fs = "fs(canon (f_effective_path f) \<mapsto> Regular (write_at dat (unat (fc_idx c) * CHUNK) (fc_data c)))"
  obtain os where "st_write fs (st_seek (open_inout fs (f_effective_path f)) (fc_idx c * CHUNK_SIZE)) (fc_data c) =
      (os, ?fs)" using data(3) by (metis prod.collapse)
  then have "saveChunk f fs c = (Inr (), markChunk (f_metadata f) ?fs (fc_idx c) True)"
    using data(1,2) by (subst remote_state_parts(12) [OF st]) (simp add: Let_def)
  then show ?thesis using remote_state_mark [OF data(4)] by blast
qed

section \<open>The specification of saving\<close>

text \<open>
  A remote file as its users see it: the bytes of the data file and the set of chunks that
  were received.  Saving replaces the bytes of one chunk and adds it to the set, when the
  index and the length fit; otherwise nothing happens.
\<close>

type_synonym remote_abs = "bytes \<times> nat set"

definition remote_view :: "ft_file \<Rightarrow> fsys \<Rightarrow> remote_abs" where
  "remote_view f fs =
     (case file_data fs (canon (f_effective_path f)) of Some d \<Rightarrow> d | None \<Rightarrow> [],
      {i. i < unat (fm_n_chunks (f_metadata f)) \<and> tracker_got (f_metadata f, fs) i})"

definition save_spec :: "nat \<Rightarrow> nat \<Rightarrow> bytes \<Rightarrow> remote_abs \<Rightarrow> remote_abs" where
  "save_spec n i d a =
     (if i * CHUNK \<le> n \<and> length d = chunk_len n i
      then (write_at (fst a) (i * CHUNK) d, if i < chunk_count n then insert i (snd a) else snd a)
      else a)"

lemma remote_view_state:
  assumes "remote_state f fs dat bm"
  shows "remote_view f fs = (dat, {i. i < chunk_count (unat (f_size f)) \<and> chunk_bit bm i})"
  using remote_state_parts [OF assms] tracker_got_layout [OF remote_state_parts(1) [OF assms]]
  by (simp add: remote_view_def)

lemma chunk_bits_after_mark:
  assumes "n \<le> 8 * length bm"
  shows "{j. j < n \<and> chunk_bit (if i div 8 < length bm then set_chunk_bit bm i True else bm) j} =
    (if i < n then insert i {j. j < n \<and> chunk_bit bm j} else {j. j < n \<and> chunk_bit bm j})"
proof (cases "i div 8 < length bm")
  case True
  then show ?thesis using chunk_bit_set [OF True, of True] by auto
next
  case False
  then have "\<not> i < n" using assms by linarith
  then show ?thesis using False by simp
qed

lemma saveChunk_spec:
  assumes st: "remote_state f fs dat bm" and idx: "unat (fc_idx c) < 2 ^ 32"
  obtains fs' dat' bm' where "saveChunk f fs c = (Inr (), fs')" and "remote_state f fs' dat' bm'"
    and "remote_view f fs' = save_spec (unat (f_size f)) (unat (fc_idx c)) (fc_data c) (remote_view f fs)"
proof (cases "unat (fc_idx c) * CHUNK \<le> unat (f_size f) \<and>
    length (fc_data c) = chunk_len (unat (f_size f)) (unat (fc_idx c))")
  case True
  then obtain fs' where fs': "saveChunk f fs c = (Inr (), fs')"
    "remote_state f fs' (write_at dat (unat (fc_idx c) * CHUNK) (fc_data c))
      (if unat (fc_idx c) div 8 < length bm then set_chunk_bit bm (unat (fc_idx c)) True else bm)"
    using saveChunk_accepted [OF st idx] by blast
  then show thesis
    using True remote_view_state [OF st] remote_view_state [OF fs'(2)]
      chunk_bits_after_mark [OF remote_state_parts(4) [OF st], of "unat (fc_idx c)"]
    by (intro that [OF fs']) (simp add: save_spec_def)
next
  case False
  then have "saveChunk f fs c = (Inr (), fs)" using saveChunk_rejected [OF st idx] by auto
  then show thesis using False st by (intro that [of fs dat bm]) (auto simp: save_spec_def)
qed

section \<open>Reading chunks of a local file\<close>

text \<open>A local file object that still describes the file it was made from.\<close>

definition local_state :: "ft_file \<Rightarrow> fsys \<Rightarrow> bytes \<Rightarrow> bool" where
  "local_state f fs src \<longleftrightarrow>
     is_FileLocal f \<and> f_effective_path f \<noteq> [] \<and>
     file_data fs (canon (f_effective_path f)) = Some src \<and>
     f_size f = word_of_nat (length src) \<and> length src < 2 ^ 63"

lemma makeLocalFile_state:
  assumes "makeLocalFile B prefix fs p = Inr f"
    and "\<And>d. file_data fs (canon (path_append prefix p)) = Some d \<Longrightarrow> length d < 2 ^ 63"
  shows "\<exists>src. local_state f fs src \<and> f_hash f = calc_hash_file B fs (path_append prefix p) \<and>
    f_path f = p"
  using assms
  by (auto simp: makeLocalFile_def Let_def local_state_def is_regular_file_def fs_file_size_def
      split: if_splits)

lemma local_getChunk:
  assumes st: "local_state f fs src" and i: "unat i < 2 ^ 32"
  shows "getChunk B f fs i =
    (if unat i * CHUNK \<le> length src
     then Inr \<lparr>fc_file = f, fc_idx = i, fc_data = chunk_at src (unat i),
               fc_hash = calc_hash_buf B (chunk_at src (unat i))\<rparr>
     else Inl (Range_error ''Chunk index outside file length range''))"
proof -
  obtain p h sz e where f: "f = FileLocal p h sz e" using st by (cases f) (auto simp: local_state_def)
  have fil: "e \<noteq> []" "file_data fs (canon e) = Some src" "length src < 2 ^ 63"
    and sz: "sz = word_of_nat (length src)"
    using st by (simp_all add: local_state_def f)
  have "length src < 2 ^ 64" using fil(3) by simp
  then have usz: "unat sz = length src" unfolding sz by (rule unat_of_nat_simps(4))
  have off: "unat (i * CHUNK_SIZE) = unat i * CHUNK" using i by (rule unat_offset)
  have gt: "i * CHUNK_SIZE > sz \<longleftrightarrow> \<not> unat i * CHUNK \<le> length src"
    by (simp add: word_less_nat_alt off usz not_le)
  show ?thesis
  proof (cases "unat i * CHUNK \<le> length src")
    case True
    let ?n = "chunk_len (length src) (unat i)"
    have "\<not> sz < i * CHUNK_SIZE" using True gt by simp
    then have n: "unat (if sz - i * CHUNK_SIZE < CHUNK_SIZE then sz - i * CHUNK_SIZE else CHUNK_SIZE) = ?n"
      using unat_chunk_len [OF i, of sz] usz by (simp add: not_less)
    have "st_seek (open_in fs e) (i * CHUNK_SIZE) =
        \<lparr>st_key = canon e, st_pos = unat i * CHUNK, st_ok = True\<rparr>"
      using fil True off sint_nonneg [of "i * CHUNK_SIZE"]
      by (simp add: open_in_def is_regular_file_def st_seek_def)
    moreover have "read_at src (unat i * CHUNK) ?n = chunk_at src (unat i)"
      using True by (simp add: chunk_at_def read_at_def chunk_len_def min_def)
    ultimately have read: "fst (st_read fs (st_seek (open_in fs e) (i * CHUNK_SIZE)) ?n) = chunk_at src (unat i)"
      using fil by (simp add: st_read_def stream_data_def Let_def)
    then obtain "is" where read: "st_read fs (st_seek (open_in fs e) (i * CHUNK_SIZE)) ?n =
        (chunk_at src (unat i), is)" by (metis prod.collapse)
    show ?thesis
      unfolding f getChunk.simps Let_def n read prod.case
      using True \<open>\<not> sz < i * CHUNK_SIZE\<close> by (simp add: chunk_at_len)
  next
    case False
    then show ?thesis using gt by (simp add: f Let_def)
  qed
qed

section \<open>Completeness of a remote file\<close>

lemma isComplete_state:
  assumes st: "remote_state f fs dat bm" and B: "blake2b_laws B"
  shows "isComplete B f fs =
    Inr ((\<forall>i < chunk_count (unat (f_size f)). chunk_bit bm i) \<and> calc_hash_buf B dat = f_hash f)"
proof -
  note parts = remote_state_parts [OF st]
  have ex: "fs_exists fs (f_effective_path f)"
    using parts(7,8) by (simp add: fs_exists_def file_data_node_at)
  have hash: "calc_hash_file B fs (f_effective_path f) = calc_hash_buf B dat"
    using B parts(7,8) by (rule calc_hash_file_eq)
  have "tracker_inv (f_metadata f, fs)"
    unfolding tracker_inv_def fst_conv snd_conv
    using parts(1,3,4) by (intro exI conjI) simp_all
  then have none: "nextMissingChunk (f_metadata f) fs 0 = UINT64_MAX \<longleftrightarrow>
      (\<forall>i < chunk_count (unat (f_size f)). chunk_bit bm i)"
    using tracker.next_none [of "(f_metadata f, fs)"] parts(3) tracker_got_layout [OF parts(1)] by simp
  have len: "length (calc_hash_buf B dat) = length (f_hash f)"
    using calc_hash_buf_length [OF B] parts(11) by (simp add: HASH_SIZE_def)
  show ?thesis
    by (subst remote_state_parts(12) [OF st])
      (simp add: ex none hash len Let_def)
qed

text \<open>Chunks received from a source file, and what follows once they are all there.\<close>

definition chunks_from :: "bytes \<Rightarrow> remote_abs \<Rightarrow> bool" where
  "chunks_from src a \<longleftrightarrow> length (fst a) \<le> length src \<and> (\<forall>i \<in> snd a. chunk_at (fst a) i = chunk_at src i)"

lemma chunks_from_all:
  assumes "chunks_from src a" and "{i. i < chunk_count (length src)} \<subseteq> snd a"
  shows "fst a = src"
proof (rule chunks_determine)
  show "length (fst a) \<le> length src" using assms(1) by (simp add: chunks_from_def)
  fix i assume "i < chunk_count (length src)"
  then have "i \<in> snd a" using assms(2) by auto
  then show "chunk_at (fst a) i = chunk_at src i" using assms(1) by (simp add: chunks_from_def)
qed

lemma chunks_from_save:
  assumes "chunks_from src a" and "snd a \<subseteq> {i. i < chunk_count (length src)}"
    and "i < chunk_count (length src)"
  shows "chunks_from src (save_spec (length src) i (chunk_at src i) a)"
proof -
  have le: "i * CHUNK \<le> length src" using assms(3) by (simp add: chunk_count_iff)
  have len: "length (fst a) \<le> length src" using assms(1) by (simp add: chunks_from_def)
  have "length (write_at (fst a) (i * CHUNK) (chunk_at src i)) \<le> length src"
    using right_length [OF len assms(3), of CHUNK] by (simp add: chunk_at_def read_at_def)
  then show ?thesis
    using assms le right_written [OF len assms(3)] by (auto simp: save_spec_def chunk_at_len chunks_from_def)
qed

section \<open>Making and reloading a remote file\<close>

text \<open>The data file of a new remote file: as many zero bytes as the file is long.\<close>

lemma new_data_file:
  assumes "path \<noteq> []" and "can_create fs (canon path)" and "unat sz < 2 ^ 32"
  shows "snd (case open_out fs path of (os, fs) \<Rightarrow> st_write fs (st_seek os (sz - 1)) [0]) =
    fs(canon path \<mapsto> Regular (replicate (unat sz) 0))"
proof -
  have k: "canon path \<noteq> []" using assms(2) by (rule can_create_key)
  have open_: "open_out fs path =
      (\<lparr>st_key = canon path, st_pos = 0, st_ok = True\<rparr>, fs(canon path \<mapsto> Regular []))"
    using assms by (simp add: open_out_def)
  show ?thesis
  proof (cases "sz = 0")
    case True
    then show ?thesis by (simp add: open_ st_seek_def st_write_def)
  next
    case False
    then have pos: "unat (sz - 1) = unat sz - 1" "0 < unat sz"
      by (simp_all add: unat_minus_one unat_gt_0)
    then have "0 \<le> sint (sz - 1)" using assms(3) by (intro sint_nonneg) simp
    moreover have "write_at [] (unat sz - 1) [0] = replicate (unat sz) 0"
      using pos(2) by (cases "unat sz") (simp_all add: write_at_def replicate_append_same)
    ultimately show ?thesis
      by (simp add: open_ st_seek_def st_write_def stream_data_def file_data_update [OF k] pos)
  qed
qed

text \<open>The metadata file is absent, or it is there with no chunk marked and the data file still to come.\<close>

definition blank_meta :: "path \<Rightarrow> size_t \<Rightarrow> bytes \<Rightarrow> fsys \<Rightarrow> bool" where
  "blank_meta e sz h fs \<longleftrightarrow>
     node_at fs (canon (metadata_path e)) = None \<or>
     (\<exists>m. FileMetadata_new e sz CHUNK_SIZE h = Inr m \<and> node_at fs (canon (metadata_path e)) =
        Some (Regular (meta_header m @ replicate (unat (fm_bitmap_size m)) 0)))"

lemma blank_meta_absent: "node_at fs (canon (metadata_path e)) = None \<Longrightarrow> blank_meta e sz h fs"
  by (simp add: blank_meta_def)

lemma createIfNotExist_blank:
  assumes e: "entry_path e p w" and m: "FileMetadata_new e sz CHUNK_SIZE h = Inr m"
    and h: "length h = HASH_SIZE" and small: "unat (fm_bitmap_size m) < 2 ^ 31"
    and dirs: "dirs_ok fs (canon p)" and new: "blank_meta e sz h fs"
  shows "createIfNotExist m fs = (Inr (), fs(canon (metadata_path e) \<mapsto>
    Regular (meta_header m @ replicate (unat (fm_bitmap_size m)) 0)))"
proof -
  note fields = FileMetadata_fields [OF m]
  note parts = entry_path_parts [OF e] and mparts = entry_path_parts [OF metadata_path_entry [OF e]]
  note keys = entry_keys_differ [OF e]
  have "p \<noteq> []" using e by (simp add: entry_path_def)
  then have again: "create_directories fs (parent_path e) = (Inr (), fs)"
    using dirs_ok_create [OF _ dirs] by (simp add: parts)
  have pdir: "node_at fs (canon p) = Some Dir" using dirs by (rule dirs_ok_dir)
  show ?thesis
  proof (cases "node_at fs (canon (metadata_path e)) = None")
    case True
    then have "can_create fs (canon (metadata_path e))"
      using mparts(3) pdir keys(3) by (auto simp: can_create_def node_at_def)
    then show ?thesis
      using again True h small mparts(4)
      by (subst createIfNotExist_new [of fs m "()" fs]) (simp_all add: fields fs_exists_def)
  next
    case False
    then have there: "node_at fs (canon (metadata_path e)) =
        Some (Regular (meta_header m @ replicate (unat (fm_bitmap_size m)) 0))"
      using new m by (auto simp: blank_meta_def)
    then have "fs(canon (metadata_path e) \<mapsto> Regular (meta_header m @ replicate (unat (fm_bitmap_size m)) 0)) = fs"
      by (intro fun_upd_idem) (auto simp: node_at_def split: if_splits)
    then show ?thesis
      using again there mparts(4) by (subst createIfNotExist_old [of fs m "()" fs]) (simp_all add: fields fs_exists_def)
  qed
qed

lemma blank_steps:
  assumes e: "entry_path e p w" and sz: "unat sz < 2 ^ 32" and h: "length h = HASH_SIZE"
    and m: "FileMetadata_new e sz CHUNK_SIZE h = Inr m" and ok: "dirs_ok fs (canon p)"
    and new: "blank_meta e sz h fs" "node_at fs (canon e) = None"
  defines "fs2 \<equiv> fs(canon (metadata_path e) \<mapsto> Regular (meta_header m @ replicate (unat (fm_bitmap_size m)) 0))"
  shows "createIfNotExist m fs = (Inr (), fs2)" and "node_at fs2 (canon e) = None"
    and "can_create fs2 (canon e)" and "dirs_ok fs2 (canon p)"
    and "length d \<le> unat sz \<Longrightarrow> remote_state (FileRemote pth h sz e m) (fs2(canon e \<mapsto> Regular d)) d
      (replicate (unat (fm_bitmap_size m)) 0)"
proof -
  note fields = FileMetadata_fields [OF m]
  note parts = entry_path_parts [OF e] and mparts = entry_path_parts [OF metadata_path_entry [OF e]]
  note keys = entry_keys_differ [OF e]
  let ?n = "unat (fm_bitmap_size m)"
  have "chunk_count (unat sz) \<le> 2 ^ 32 div CHUNK + 1"
    using div_le_mono [of "unat sz" "2 ^ 32" CHUNK] sz by (simp add: chunk_count_def)
  then have small: "?n < 2 ^ 31 - 81" using fields(9) by simp
  show "createIfNotExist m fs = (Inr (), fs2)"
    unfolding fs2_def by (rule createIfNotExist_blank [OF e m h _ ok new(1)]) (use small in simp)
  show new2: "node_at fs2 (canon e) = None" using new(2) keys by (simp add: fs2_def node_at_update)
  show ok2: "dirs_ok fs2 (canon p)"
    unfolding fs2_def using new(1) by (intro dirs_ok_update ok) (auto simp: blank_meta_def)
  show "can_create fs2 (canon e)"
    using parts(3) dirs_ok_dir [OF ok2] keys(2) new2 by (auto simp: can_create_def node_at_def)
  have "dirs_ok (fs2(canon e \<mapsto> Regular d)) (canon p)" using new2 by (intro dirs_ok_update ok2) simp
  then show "remote_state (FileRemote pth h sz e m) (fs2(canon e \<mapsto> Regular d)) d (replicate ?n 0)"
    if "length d \<le> unat sz"
    using that m e h sz small keys mparts(4) meta_header_length [of m]
    by (auto simp: remote_state_def meta_layout_def fields file_data_update HASH_SIZE_def fs2_def)
qed

lemma FileRemote_new_fresh:
  assumes e: "entry_path e p w" and sz: "unat sz < 2 ^ 32" and h: "length h = HASH_SIZE"
    and dirs: "create_directories fs p = (Inr u, fs1)"
    and new: "blank_meta e sz h fs1" "node_at fs1 (canon e) = None"
  obtains f fs' n where "FileRemote_new pth h sz e fs = (Inr f, fs')"
    and "f_path f = pth" and "f_hash f = h" and "f_size f = sz" and "f_effective_path f = e"
    and "remote_state f fs' (replicate (unat sz) 0) (replicate n 0)"
    and "fs' = fs1(canon (metadata_path e) \<mapsto> Regular (meta_header (f_metadata f) @ replicate n 0),
      canon e \<mapsto> Regular (replicate (unat sz) 0))"
proof -
  obtain m where m: "FileMetadata_new e sz CHUNK_SIZE h = Inr m"
    by (simp add: FileMetadata_new_def Let_def)
  note steps = blank_steps [OF e sz h m create_directories_dirs_ok [OF dirs] new]
  note parts = entry_path_parts [OF e]
  let ?n = "unat (fm_bitmap_size m)" and ?f = "FileRemote pth h sz e m"
  let ?fs2 = "fs1(canon (metadata_path e) \<mapsto> Regular (meta_header m @ replicate ?n 0))"
  let ?fs3 = "?fs2(canon e \<mapsto> Regular (replicate (unat sz) 0))"
  have "FileRemote_new pth h sz e fs = (Inr ?f, ?fs3)"
    using dirs new_data_file [OF parts(4) steps(3) sz] steps(2)
    by (simp add: FileRemote_new_def m parts steps(1) fs_exists_def Let_def split_beta)
  moreover have "remote_state ?f ?fs3 (replicate (unat sz) 0) (replicate ?n 0)" by (rule steps(5)) simp
  ultimately show thesis by (intro that [of ?f ?fs3 ?n]) (simp_all add: fun_upd_twist entry_keys_differ [OF e])
qed

text \<open>Making the object again, with the same size and hash, changes nothing.\<close>

lemma FileRemote_new_again:
  assumes st: "remote_state f fs dat bm"
  shows "FileRemote_new (f_path f) (f_hash f) (f_size f) (f_effective_path f) fs = (Inr f, fs)"
proof -
  obtain p w where e: "entry_path (f_effective_path f) p w" and ok: "dirs_ok fs (canon p)"
    using st by (auto simp: remote_state_def)
  note parts = remote_state_parts [OF st]
  have m: "FileMetadata_new (f_effective_path f) (f_size f) CHUNK_SIZE (f_hash f) = Inr (f_metadata f)"
    using st by (simp add: remote_state_def)
  have "p \<noteq> []" using e by (simp add: entry_path_def)
  then have dirs: "create_directories fs (parent_path (f_effective_path f)) = (Inr (), fs)"
    using dirs_ok_create [OF _ ok] by (simp add: entry_path_parts [OF e])
  have ex: "fs_exists fs (f_effective_path f)" "fs_exists fs (fm_metadata_file (f_metadata f))"
    using parts(1,7,8) by (auto simp: fs_exists_def file_data_node_at meta_layout_def)
  have "createIfNotExist (f_metadata f) fs = (Inr (), fs)"
    using dirs ex(2) by (intro createIfNotExist_old) (simp_all add: FileMetadata_fields [OF m])
  then show ?thesis
    using parts(12) by (simp add: FileRemote_new_def m dirs ex(1))
qed

lemma makeRemoteFile_load_state:
  assumes st: "remote_state f fs dat bm" and e: "f_effective_path f = path_append prefix (f_path f)"
  shows "makeRemoteFile_load prefix fs (f_path f) = (Inr (Some f), fs)"
proof -
  note parts = remote_state_parts [OF st]
  have m: "FileMetadata_new (f_effective_path f) (f_size f) CHUNK_SIZE (f_hash f) = Inr (f_metadata f)"
    using st by (simp add: remote_state_def)
  have "file_data fs (canon (metadata_path (f_effective_path f))) =
      Some (native64 (f_size f) @ native64 CHUNK_SIZE @ f_hash f @ bm)"
    using parts(1,2,11) by (simp add: meta_layout_def meta_header_def FileMetadata_fields [OF m])
  then have "readHeader fs (f_effective_path f) = (f_size f, CHUNK_SIZE, f_hash f)"
    using parts(1,2,11) by (intro readHeader_layout) (simp_all add: meta_layout_def)
  then show ?thesis
    using FileRemote_new_again [OF st]
    by (simp add: makeRemoteFile_load_def Let_def e [symmetric] word_neq_0_conv [symmetric])
qed

section \<open>What the file operations change\<close>

lemma FileRemote_new_touches:
  assumes run: "FileRemote_new p h sz e fs = (r, fs')" and K: "canon e \<in> K" "canon (metadata_path e) \<in> K"
    and D: "dirs_to (canon (parent_path e)) \<subseteq> D"
  shows "touches D K fs fs'"
proof -
  obtain m where m: "FileMetadata_new e sz CHUNK_SIZE h = Inr m"
    by (simp add: FileMetadata_new_def Let_def)
  obtain r1 fs1 where dirs: "create_directories fs (parent_path e) = (r1, fs1)" by fastforce
  obtain r2 fs2 where cr: "createIfNotExist m fs1 = (r2, fs2)" by fastforce
  obtain os fs3 where o: "open_out fs2 e = (os, fs3)" by fastforce
  obtain os4 fs4 where w: "st_write fs3 (st_seek os (sz - 1)) [0] = (os4, fs4)" by fastforce
  note t1 = create_directories_touches [OF dirs D, of K]
  have t2: "touches D K fs fs2"
    using t1 createIfNotExist_touches [OF cr, of K D] K(2) D FileMetadata_fields [OF m]
    by (auto intro: touches_trans)
  note t3 = open_out_touches [OF o K(1)]
  note t4 = st_write_touches [OF stream_on_seek [OF t3 [THEN conjunct2]] w K(1)]
  have "touches D K fs fs4" using t2 t3 t4 by (blast intro: touches_trans)
  then show ?thesis
    using run t1 t2 by (auto simp: FileRemote_new_def m dirs cr o w split: sum.splits if_splits)
qed

lemma makeRemoteFile_load_touches:
  assumes "makeRemoteFile_load prefix fs p = (r, fs')"
    and "canon (path_append prefix p) \<in> K" "canon (metadata_path (path_append prefix p)) \<in> K"
    and "dirs_to (canon (parent_path (path_append prefix p))) \<subseteq> D"
  shows "touches D K fs fs'"
  using assms FileRemote_new_touches [of p _ _ "path_append prefix p" fs _ _ K D]
  by (auto simp: makeRemoteFile_load_def Let_def split: prod.splits if_splits sum.splits)

lemma FileRemote_new_object:
  assumes "FileRemote_new p h sz e fs = (Inr f, fs')"
  shows "is_FileRemote f \<and> f_effective_path f = e \<and> fm_metadata_file (f_metadata f) = metadata_path e"
proof -
  obtain m where m: "FileMetadata_new e sz CHUNK_SIZE h = Inr m"
    by (simp add: FileMetadata_new_def Let_def)
  then show ?thesis
    using assms FileMetadata_fields(6) [OF m]
    by (auto simp: FileRemote_new_def split: prod.splits sum.splits)
qed

lemma saveChunk_touches:
  assumes "saveChunk f fs c = (r, fs')" and "canon (f_effective_path f) \<in> K"
    and "is_FileRemote f \<Longrightarrow> canon (fm_metadata_file (f_metadata f)) \<in> K"
  shows "touches D K fs fs'"
proof (cases f)
  case (FileLocal x1 x2 x3 x4)
  then show ?thesis using assms(1) by simp
next
  case (FileRemote p h sz e m)
  let ?os = "st_seek (open_inout fs e) (fc_idx c * CHUNK_SIZE)"
  obtain os fs1 where w: "st_write fs ?os (fc_data c) = (os, fs1)" by fastforce
  have "canon e \<in> K" using assms(2) FileRemote by simp
  then have "touches D K fs fs1"
    using st_write_touches [OF stream_on_seek [OF stream_on_open] w] by blast
  moreover have "touches D K fs1 (markChunk m fs1 (fc_idx c) True)"
    using assms(3) FileRemote by (intro markChunk_touches) simp
  ultimately have "touches D K fs (markChunk m fs1 (fc_idx c) True)" by (rule touches_trans)
  then show ?thesis
    using assms(1) by (auto simp: FileRemote Let_def w split: if_splits)
qed

section \<open>Chunks in any order\<close>

definition save_src :: "ft_file \<Rightarrow> bytes \<Rightarrow> nat \<Rightarrow> fsys \<Rightarrow> fsys" where
  "save_src f src i fs = snd (saveChunk f fs
     \<lparr>fc_file = f, fc_idx = word_of_nat i, fc_data = chunk_at src i, fc_hash = []\<rparr>)"

lemma save_src_step:
  assumes st: "remote_state f fs dat bm" and len: "length src = unat (f_size f)"
    and i: "i < chunk_count (length src)"
  shows "\<exists>bm'. remote_state f (save_src f src i fs) (write_at dat (i * CHUNK) (chunk_at src i)) bm' \<and>
    (\<forall>j < chunk_count (length src). chunk_bit bm' j = (j = i \<or> chunk_bit bm j))"
proof -
  let ?c = "\<lparr>fc_file = f, fc_idx = word_of_nat i :: size_t, fc_data = chunk_at src i, fc_hash = []\<rparr>"
  note parts = remote_state_parts [OF st]
  have lt: "i * CHUNK < length src" using i by (simp add: chunk_count_iff)
  then have small: "i < 2 ^ 32" using parts(10) len by simp
  then have "i < 2 ^ 64" by simp
  then have idx: "unat (fc_idx ?c) = i" by (simp add: unat_of_nat_simps(4) del: unat_of_nat)
  have bits: "i div 8 < length bm" using i parts(4) unfolding len by linarith
  from saveChunk_accepted [OF st, of ?c, unfolded idx] small lt len
  obtain fs' where "saveChunk f fs ?c = (Inr (), fs')"
    "remote_state f fs' (write_at dat (i * CHUNK) (chunk_at src i))
      (if i div 8 < length bm then set_chunk_bit bm i True else bm)"
    by (auto simp: chunk_at_len)
  then show ?thesis
    using bits chunk_bit_set [OF bits, of True]
    by (intro exI [of _ "set_chunk_bit bm i True"]) (simp add: save_src_def)
qed

lemma save_src_fold:
  assumes "remote_state f fs dat bm" and len: "length src = unat (f_size f)"
    and "set is \<subseteq> {..<chunk_count (length src)}" and "S \<subseteq> {..<chunk_count (length src)}"
    and "\<And>i. i \<in> S \<Longrightarrow> chunk_at dat i = chunk_at src i \<and> chunk_bit bm i"
  shows "\<exists>dat' bm'. remote_state f (fold (save_src f src) is fs) dat' bm' \<and>
    (\<forall>i \<in> S \<union> set is. chunk_at dat' i = chunk_at src i \<and> chunk_bit bm' i)"
  using assms(1,3,4,5)
proof (induction "is" arbitrary: fs dat bm S)
  case Nil
  then show ?case by auto
next
  case (Cons i "is")
  note st = Cons.prems(1)
  have i: "i < chunk_count (length src)" using Cons.prems(2) by simp
  obtain bm' where bm': "remote_state f (save_src f src i fs) (write_at dat (i * CHUNK) (chunk_at src i)) bm'"
    "\<And>j. j < chunk_count (length src) \<Longrightarrow> chunk_bit bm' j = (j = i \<or> chunk_bit bm j)"
    using save_src_step [OF st len i] by blast
  have "length dat \<le> length src" using remote_state_parts(9) [OF st] len by simp
  note at = right_written [OF this i]
  have "\<exists>dat' bm''. remote_state f (fold (save_src f src) is (save_src f src i fs)) dat' bm'' \<and>
      (\<forall>j \<in> insert i S \<union> set is. chunk_at dat' j = chunk_at src j \<and> chunk_bit bm'' j)"
    using Cons.prems(2-4) at bm'(2) i by (intro Cons.IH [OF bm'(1)]) auto
  then show ?case by (simp only: fold_simps list.simps(15) Un_insert_left Un_insert_right)
qed

lemma save_src_all:
  assumes "remote_state f fs dat bm" and "length src = unat (f_size f)"
    and "set is = {..<chunk_count (length src)}"
  obtains bm' where "remote_state f (fold (save_src f src) is fs) src bm'"
    and "\<And>i. i < chunk_count (length src) \<Longrightarrow> chunk_bit bm' i"
proof -
  obtain dat' bm' where st: "remote_state f (fold (save_src f src) is fs) dat' bm'"
    and all: "\<And>i. i < chunk_count (length src) \<Longrightarrow> chunk_at dat' i = chunk_at src i \<and> chunk_bit bm' i"
    using save_src_fold [OF assms(1,2), of "is" "{}"] assms(3) by auto
  have "length dat' \<le> length src" using remote_state_parts(9) [OF st] assms(2) by simp
  from chunks_determine [OF this] have "dat' = src" using all by blast
  then show thesis using that st all by blast
qed

section \<open>Properties of the files\<close>

text \<open>A hash with the documented behaviour, and a small remote file, for the examples.\<close>

definition b2_concat :: "bytes blake2b" where
  "b2_concat = \<lparr>b2_init = [], b2_update = (\<lambda>h d. h @ d), b2_final = (\<lambda>h n. take n (h @ replicate n 0))\<rparr>"

lemma b2_concat_fold: "fold (\<lambda>d h. b2_update b2_concat h d) xss h = h @ concat xss"
  by (induction xss arbitrary: h) (simp_all add: b2_concat_def)

lemma b2_concat_laws: "blake2b_laws b2_concat"
  by (simp add: blake2b_laws_def b2_concat_fold) (simp add: b2_concat_def min_def)

definition sample_file :: ft_file where
  "sample_file = FileRemote (ascii ''d/f'') (replicate HASH_SIZE 0) 5 (ascii ''/d/f'') sample_new"

definition sample_file_fs :: fsys where
  "sample_file_fs = [[ascii ''d''] \<mapsto> Dir,
     [ascii ''d'', ascii ''.f.meta''] \<mapsto> Regular (meta_header sample_new @ [0]),
     [ascii ''d'', ascii ''f''] \<mapsto> Regular (replicate 5 0)]"

lemma sample_keys:
  "canon (ascii ''/d/f'') = [ascii ''d'', ascii ''f'']" "canon (ascii ''/d'') = [ascii ''d'']"
  "canon (metadata_path (ascii ''/d/f'')) = [ascii ''d'', ascii ''.f.meta'']"
  "metadata_path (ascii ''/d/f'') \<noteq> []"
proof -
  show d: "canon (ascii ''/d'') = [ascii ''d'']" by (simp add: canon_def ascii_def)
  show "canon (ascii ''/d/f'') = [ascii ''d'', ascii ''f'']"
    using entry_path_parts(3) [OF sample_entry] d by simp
  show "canon (metadata_path (ascii ''/d/f'')) = [ascii ''d'', ascii ''.f.meta'']"
    using entry_path_parts(3) [OF metadata_path_entry [OF sample_entry]] d by (simp add: ascii_def)
  show "metadata_path (ascii ''/d/f'') \<noteq> []"
    using entry_path_parts(4) [OF metadata_path_entry [OF sample_entry]] .
qed

lemma sample_distinct: "ascii ''f'' \<noteq> ascii ''.f.meta''" by (simp add: ascii_def)

lemma sample_remote: "remote_state sample_file sample_file_fs (replicate 5 0) [0]"
  unfolding remote_state_def
proof (intro conjI)
  show "FileMetadata_new (f_effective_path sample_file) (f_size sample_file) CHUNK_SIZE (f_hash sample_file) =
      Inr (f_metadata sample_file)"
    by (simp add: FileMetadata_new_def Let_def sample_file_def sample_new_def HASH_SIZE_def CHUNK_SIZE_def
        payload_size_value)
  have "dirs_ok sample_file_fs (canon (ascii ''/d''))"
    by (auto simp: dirs_ok_def sample_keys sample_file_fs_def node_at_def le_Suc_eq)
  then show "\<exists>p w. entry_path (f_effective_path sample_file) p w \<and> dirs_ok sample_file_fs (canon p)"
    using sample_entry by (auto simp: sample_file_def)
  show "meta_layout (f_metadata sample_file) sample_file_fs (meta_header (f_metadata sample_file)) [0]"
    using sample_distinct
    by (simp add: meta_layout_def sample_file_def sample_new_def sample_keys sample_file_fs_def
        file_data_def node_at_def meta_header_def HASH_SIZE_def)
qed (use sample_distinct in \<open>simp_all add: sample_file_def sample_new_def sample_keys sample_file_fs_def
      file_data_def node_at_def HASH_SIZE_def\<close>)

text \<open>
  C8.  Saving a chunk refines its specification: on a consistent remote file \<open>saveChunk\<close> never
  throws, keeps the file consistent, and replaces the bytes of that chunk and adds it to the
  received ones, if its index and its length fit the file; otherwise it changes nothing.
\<close>

theorem saveChunk_refines:
  assumes "remote_state f fs dat bm" and "unat (fc_idx c) < 2 ^ 32"
  shows "\<exists>fs' dat' bm'. saveChunk f fs c = (Inr (), fs') \<and> remote_state f fs' dat' bm' \<and>
    remote_view f fs' = save_spec (unat (f_size f)) (unat (fc_idx c)) (fc_data c) (remote_view f fs)"
  using saveChunk_spec [OF assms] by metis

theorem saveChunk_refines_witness:
  "\<exists>fs' dat' bm'. saveChunk sample_file sample_file_fs
      \<lparr>fc_file = sample_file, fc_idx = 0, fc_data = [1, 2, 3, 4, 5], fc_hash = []\<rparr> = (Inr (), fs') \<and>
    remote_state sample_file fs' dat' bm' \<and>
    remote_view sample_file fs' =
      save_spec (unat (f_size sample_file)) 0 [1, 2, 3, 4, 5] (remote_view sample_file sample_file_fs)"
  using saveChunk_refines [OF sample_remote,
      of "\<lparr>fc_file = sample_file, fc_idx = 0, fc_data = [1, 2, 3, 4, 5], fc_hash = []\<rparr>"] by simp

text \<open>
  Chunks may arrive in any order and more than once: when every chunk of a source of the
  announced size was saved, the data file holds exactly the source, and the file is complete if
  the announced hash is the hash of the source.
\<close>

theorem save_any_order:
  assumes "remote_state f fs dat bm" and "length src = unat (f_size f)"
    and "set is = {..<chunk_count (length src)}" and "blake2b_laws B"
    and "f_hash f = calc_hash_buf B src"
  shows "file_data (fold (save_src f src) is fs) (canon (f_effective_path f)) = Some src \<and>
    isComplete B f (fold (save_src f src) is fs) = Inr True"
proof -
  obtain bm' where st: "remote_state f (fold (save_src f src) is fs) src bm'"
    and all: "\<And>i. i < chunk_count (length src) \<Longrightarrow> chunk_bit bm' i"
    using save_src_all [OF assms(1-3)] by blast
  then show ?thesis
    using remote_state_parts(8) [OF st] isComplete_state [OF st assms(4)] assms(2,5) by simp
qed

theorem save_any_order_witness:
  "file_data (fold (save_src sample_file [0, 0, 0, 0, 0]) [0, 0] sample_file_fs)
      (canon (f_effective_path sample_file)) = Some [0, 0, 0, 0, 0] \<and>
    isComplete b2_concat sample_file (fold (save_src sample_file [0, 0, 0, 0, 0]) [0, 0] sample_file_fs) =
      Inr True"
proof (rule save_any_order [OF sample_remote _ _ b2_concat_laws])
  show "length [0 :: byte, 0, 0, 0, 0] = unat (f_size sample_file)" by (simp add: sample_file_def)
  have "chunk_count (length [0 :: byte, 0, 0, 0, 0]) = 1" by (simp add: chunk_count_def)
  then show "set [0, 0] = {..<chunk_count (length [0 :: byte, 0, 0, 0, 0])}" by auto
  show "f_hash sample_file = calc_hash_buf b2_concat [0, 0, 0, 0, 0]"
    by (simp add: sample_file_def calc_hash_buf_def b2_concat_def HASH_SIZE_def numeral_eq_Suc)
qed

text \<open>
  The chunks of a local file are the pieces of its contents: chunk \<open>i\<close> has the bytes from
  \<open>i * 3968\<close> on, at most 3968 of them, with their hash; an index past the end raises
  \<open>range_error\<close>, and one right at the end gives an empty chunk.
\<close>

theorem local_chunks:
  assumes "local_state f fs src" and "unat i < 2 ^ 32"
  shows "getChunk B f fs i =
    (if unat i * CHUNK \<le> length src
     then Inr \<lparr>fc_file = f, fc_idx = i, fc_data = take CHUNK (drop (unat i * CHUNK) src),
               fc_hash = calc_hash_buf B (take CHUNK (drop (unat i * CHUNK) src))\<rparr>
     else Inl (Range_error ''Chunk index outside file length range''))"
  using local_getChunk [OF assms, of B] by (simp add: chunk_at_def read_at_def)

definition sample_local :: ft_file where
  "sample_local = FileLocal (ascii ''/f'') (replicate HASH_SIZE 0) 3 (ascii ''/f'')"

lemma sample_local_state: "local_state sample_local [[ascii ''f''] \<mapsto> Regular [7, 8, 9]] [7, 8, 9]"
proof -
  have "canon (ascii ''/f'') = [ascii ''f'']" by (simp add: canon_def ascii_def)
  then show ?thesis
    by (simp add: local_state_def sample_local_def file_data_def node_at_def) (simp add: ascii_def)
qed

theorem local_chunks_witness:
  "getChunk b2_concat sample_local [[ascii ''f''] \<mapsto> Regular [7, 8, 9]] 0 =
    (if unat (0 :: size_t) * CHUNK \<le> length [7 :: byte, 8, 9]
     then Inr \<lparr>fc_file = sample_local, fc_idx = 0, fc_data = take CHUNK (drop (unat (0 :: size_t) * CHUNK) [7, 8, 9]),
               fc_hash = calc_hash_buf b2_concat (take CHUNK (drop (unat (0 :: size_t) * CHUNK) [7, 8, 9]))\<rparr>
     else Inl (Range_error ''Chunk index outside file length range''))"
  by (rule local_chunks [OF sample_local_state]) simp

text \<open>
  C26.  The digest of a file, computed in blocks of 128 bytes until a read comes short, is the
  digest of its contents as a whole.
\<close>

theorem hash_of_file:
  assumes "blake2b_laws B" and "p \<noteq> []" and "file_data fs (canon p) = Some d"
  shows "calc_hash_file B fs p = calc_hash_buf B d"
  using assms by (rule calc_hash_file_eq)

theorem hash_of_file_witness:
  "calc_hash_file b2_concat [[ascii ''f''] \<mapsto> Regular [7, 8, 9]] (ascii ''/f'') = calc_hash_buf b2_concat [7, 8, 9]"
  using sample_local_state
  by (intro hash_of_file [OF b2_concat_laws]) (simp_all add: local_state_def sample_local_def)

end
