(* ===== verification/FT_Msg_Fctry.thy ===== *)
theory FT_Msg_Fctry
  imports FT_File
begin

text \<open>
  \<open>MessageFactory\<close> of \<open>src/protocol/ft_msg_fctry.hpp\<close> and \<open>src/protocol/ft_msg_fctry.cpp\<close>: the
  four kinds of messages made from a file.  Chunk indices arrive as \<open>uint16_t\<close>, whatever the
  width of the caller's index, and sizes are narrowed to the 32-bit fields of the message.
\<close>

definition buildMsgOffer :: "u16 \<Rightarrow> bytes \<Rightarrow> ft_file \<Rightarrow> message" where
  "buildMsgOffer sq uuid f =
     message_init
       \<lparr>msg_type := MSGTYPE_FILE_OFFER, seq_number := sq, client_uuid := uuid,
        file_name := path_filename (f_path f),
        offer := \<lparr>offer_file_size = ucast (f_size f),
                 offer_file_n_chunks = ucast (getNumOfChunks f),
                 offer_file_hash = f_hash f\<rparr>\<rparr>"

definition buildMsgChunkReq :: "u16 \<Rightarrow> bytes \<Rightarrow> ft_file \<Rightarrow> u16 \<Rightarrow> u16 \<Rightarrow> message" where
  "buildMsgChunkReq sq uuid f first last_idx =
     message_init
       \<lparr>msg_type := MSGTYPE_FILE_CHUNK_REQ, seq_number := sq, client_uuid := uuid,
        file_name := path_filename (f_path f),
        chunk_req := \<lparr>chunk_idx_first = ucast first, chunk_idx_last = ucast last_idx\<rparr>\<rparr>"

definition buildMsgChunkData ::
    "'s blake2b \<Rightarrow> fsys \<Rightarrow> u16 \<Rightarrow> bytes \<Rightarrow> ft_file \<Rightarrow> u16 \<Rightarrow> message result" where
  "buildMsgChunkData B fs sq uuid f chunk_idx =
     rbind (getChunk B f fs (ucast chunk_idx)) (\<lambda>fchunk.
       Inr (message_init
         \<lparr>msg_type := MSGTYPE_FILE_CHUNK_DATA, seq_number := sq, client_uuid := uuid,
          file_name := path_filename (f_path f),
          chunk_data := \<lparr>cdata_idx = ucast chunk_idx, cdata_data = fc_data fchunk,
                        cdata_hash = []\<rparr>\<rparr>))"

definition buildMsgComplete :: "u16 \<Rightarrow> bytes \<Rightarrow> ft_file \<Rightarrow> message" where
  "buildMsgComplete sq uuid f =
     message_init
       \<lparr>msg_type := MSGTYPE_FILE_COMPLETE, seq_number := sq, client_uuid := uuid,
        file_name := path_filename (f_path f)\<rparr>"

section \<open>The messages can be sent\<close>

lemma serialize_offer:
  "length (f_hash f) = HASH_SIZE \<Longrightarrow> \<exists>buf. serialize (buildMsgOffer sq uuid f) [] = Inr buf"
  by (simp add: serialize_def payload_eq body_fields_def buildMsgOffer_def)

lemma serialize_chunk_req: "\<exists>buf. serialize (buildMsgChunkReq sq uuid f i j) [] = Inr buf"
  by (simp add: serialize_def payload_eq body_fields_def buildMsgChunkReq_def)

lemma serialize_complete: "\<exists>buf. serialize (buildMsgComplete sq uuid f) [] = Inr buf"
  by (simp add: serialize_def payload_eq body_fields_def buildMsgComplete_def)

text \<open>A chunk of a local file can be sent unless it is empty.\<close>

lemma buildMsgChunkData_local:
  assumes "local_state f fs src"
  shows "buildMsgChunkData B fs sq uuid f i =
    (if unat i * CHUNK \<le> length src
     then Inr (message_init
         \<lparr>msg_type := MSGTYPE_FILE_CHUNK_DATA, seq_number := sq, client_uuid := uuid,
          file_name := path_filename (f_path f),
          chunk_data := \<lparr>cdata_idx = ucast i, cdata_data = chunk_at src (unat i), cdata_hash = []\<rparr>\<rparr>)
     else Inl (Range_error ''Chunk index outside file length range''))"
proof -
  have "unat (ucast i :: size_t) < 2 ^ 32" using unat_bounds(2) [of i] by simp
  then show ?thesis
    using local_getChunk [OF assms, of "ucast i" B] by (simp add: buildMsgChunkData_def)
qed

lemma serialize_chunk_data:
  assumes "i < chunk_count (length src)"
    and "m = message_init
       \<lparr>msg_type := MSGTYPE_FILE_CHUNK_DATA, seq_number := sq, client_uuid := uuid, file_name := name,
        chunk_data := \<lparr>cdata_idx = k, cdata_data = chunk_at src i, cdata_hash = []\<rparr>\<rparr>"
  shows "\<exists>buf. serialize m [] = Inr buf"
  using assms
  by (auto simp: serialize_def payload_eq body_fields_def chunk_at_length chunk_count_iff
      simp flip: length_0_conv)

end
