(* ===== verification/FT_Req_Hndlr.thy ===== *)
theory FT_Req_Hndlr
  imports FT_Conn FT_Msg_Fctry
begin

text \<open>
  The request handler interface of \<open>src/request/ft_req_hndlr.hpp\<close> and what both
  implementations share: they end by serializing the response, if there is one, and sending it
  on the request's connection, if that is still alive.  A handler maps its state and a request
  to the new state, the bytes put on the connections and the exception it ends with, if any;
  the worker that runs it prints the exception and goes on with the next request.
\<close>

text \<open>Live connections by id, what \<open>send\<close> answers, and the bytes sent per connection.\<close>

type_synonym conns = "nat \<rightharpoonup> connection"
type_synonym sends = "nat \<Rightarrow> bytes \<Rightarrow> send_result"
type_synonym outgoing = "(nat \<times> bytes) list"

definition respond ::
    "conns \<Rightarrow> sends \<Rightarrow> request \<Rightarrow> message option \<Rightarrow> outgoing \<times> ft_exn option" where
  "respond cs snds req response =
     (case (response, getConnection (dom cs) req) of
        (Some m, Some c) \<Rightarrow>
          (case serialize m [] of
             Inl e \<Rightarrow> ([], Some e)
           | Inr buf \<Rightarrow>
              (case sendBuffer (the (cs c)) (snds c buf) buf of (sent, x) \<Rightarrow> ([(c, sent)], x)))
      | _ \<Rightarrow> ([], None))"

type_synonym 's handler = "'s \<Rightarrow> request \<Rightarrow> 's \<times> outgoing \<times> ft_exn option"

text \<open>
  One worker handling requests one after the other: the tail of the loop in
  \<open>RequestBrokerWorker::run\<close>, where an exception is caught and printed.
\<close>

fun handle_all :: "'s handler \<Rightarrow> request list \<Rightarrow> 's \<Rightarrow> 's \<times> outgoing \<times> ft_exn list" where
  "handle_all h [] s = (s, [], [])"
| "handle_all h (r # rs) s =
     (case h s r of
        (s, out, x) \<Rightarrow>
          (case handle_all h rs s of
             (s, outs, xs) \<Rightarrow> (s, out @ outs, (case x of None \<Rightarrow> xs | Some e \<Rightarrow> e # xs))))"

text \<open>
  What the broker can rely on: a handler keeps its invariant, also when it throws, as long as
  only requests arrive that the invariant admits.
\<close>

locale guarded_handler =
  fixes handleRequest :: "'s handler"
    and inv :: "'s \<Rightarrow> bool"
    and admits :: "request \<Rightarrow> bool"
  assumes handle_admitted: "inv s \<Longrightarrow> admits r \<Longrightarrow> handleRequest s r = (s', out, x) \<Longrightarrow> inv s'"
begin

lemma handle_all_admitted:
  "inv s \<Longrightarrow> list_all admits rs \<Longrightarrow> handle_all handleRequest rs s = (s', outs, xs) \<Longrightarrow> inv s'"
proof (induction rs arbitrary: s s' outs xs)
  case Nil
  then show ?case by simp
next
  case (Cons r rs)
  obtain s1 out x where r: "handleRequest s r = (s1, out, x)" by (metis prod.collapse)
  obtain s2 outs2 xs2 where rs: "handle_all handleRequest rs s1 = (s2, outs2, xs2)"
    by (metis prod.collapse)
  have "inv s1" using handle_admitted [OF Cons.prems(1) _ r] Cons.prems(2) by simp
  from Cons.IH [OF this _ rs] show ?case using Cons.prems(2,3) r rs by simp
qed

end

text \<open>An invariant that holds whatever requests arrive.\<close>

locale request_handler =
  fixes handleRequest :: "'s handler"
    and inv :: "'s \<Rightarrow> bool"
  assumes handle_inv: "inv s \<Longrightarrow> handleRequest s r = (s', out, x) \<Longrightarrow> inv s'"

sublocale request_handler \<subseteq> any: guarded_handler handleRequest inv "\<lambda>_. True"
  by unfold_locales (rule handle_inv)

context request_handler
begin

lemma handle_all_inv: "inv s \<Longrightarrow> handle_all handleRequest rs s = (s', outs, xs) \<Longrightarrow> inv s'"
  by (rule any.handle_all_admitted) (simp_all add: list_all_iff)

end

section \<open>Responding on a good connection\<close>

lemma respond_none [simp]: "respond cs snds req None = ([], None)"
  by (simp add: respond_def)

lemma respond_gone: "cs (req_connection req) = None \<Longrightarrow> respond cs snds req m = ([], None)"
  by (auto simp: respond_def getConnection_def dom_def split: option.splits)

text \<open>A connection that takes all the bytes it is given.\<close>

definition good_conn :: "conns \<Rightarrow> sends \<Rightarrow> nat \<Rightarrow> bool" where
  "good_conn cs snds c \<longleftrightarrow> cs c \<noteq> None \<and> (\<forall>buf. snds c buf = Sent (length buf))"

lemma respond_sent:
  assumes "good_conn cs snds (req_connection req)" and "serialize m [] = Inr buf"
  shows "respond cs snds req (Some m) = ([(req_connection req, buf)], None)"
  using assms by (auto simp: respond_def good_conn_def getConnection_def dom_def sendBuffer_def)

lemma respond_unserializable:
  assumes "cs (req_connection req) \<noteq> None" and "serialize m [] = Inl e"
  shows "respond cs snds req (Some m) = ([], Some e)"
  using assms by (auto simp: respond_def getConnection_def dom_def)

end
