(* ===== verification/FT_Server.thy ===== *)
theory FT_Server
  imports FT_Req_Hndlr
begin

text \<open>
  The server's request handler, \<open>ServerRequestHandler\<close> of \<open>src/ft_server.cpp\<close>: it creates or
  reopens the file an offer or a chunk is about, saves the chunk, and answers with the
  completion of the file or with a request for its first missing chunk.  Its state is the file
  system.  \<open>to_string\<close> of Boost's UUID library is the parameter \<open>ustr\<close>.
\<close>

definition SERVER_BASE_PATH :: path where "SERVER_BASE_PATH = ascii ''/in''"

text \<open>
  The answer both branches end with.  The index of the missing chunk is narrowed to 16 bits by
  \<open>buildMsgChunkReq\<close>, and the sequence number wraps.
\<close>

definition next_response :: "'s blake2b \<Rightarrow> message \<Rightarrow> ft_file \<Rightarrow> fsys \<Rightarrow> message result" where
  "next_response B msg f fs =
     rbind (isComplete B f fs) (\<lambda>complete.
       if complete then Inr (buildMsgComplete (seq_number msg) (client_uuid msg) f)
       else let req_chunk_idx = getNextMissingChunk f fs 0
            in Inr (buildMsgChunkReq (seq_number msg + 1) (client_uuid msg) f
                 (ucast req_chunk_idx) UINT16_MAX))"

definition Server_handleRequest ::
    "'s blake2b \<Rightarrow> (bytes \<Rightarrow> bytes) \<Rightarrow> path \<Rightarrow> conns \<Rightarrow> sends \<Rightarrow> fsys handler" where
  "Server_handleRequest B ustr prefix cs snds fs req =
     (let msg = getMessage req;
          file_path = path_append (ustr (client_uuid msg)) (file_name msg)
      in if msg_type msg = MSGTYPE_FILE_OFFER then
           (case makeRemoteFile prefix fs file_path (offer_file_hash (offer msg))
                   (ucast (offer_file_size (offer msg))) of
              (Inl e, fs) \<Rightarrow> (fs, [], Some e)
            | (Inr f, fs) \<Rightarrow>
                (case next_response B msg f fs of
                   Inl e \<Rightarrow> (fs, [], Some e)
                 | Inr response \<Rightarrow> (fs, respond cs snds req (Some response))))
         else if msg_type msg = MSGTYPE_FILE_CHUNK_DATA then
           (case makeRemoteFile_load prefix fs file_path of
              (Inl e, fs) \<Rightarrow> (fs, [], Some e)
            | (Inr None, fs) \<Rightarrow> (fs, respond cs snds req None)
            | (Inr (Some f), fs) \<Rightarrow>
                let fchunk = \<lparr>fc_file = f, fc_idx = ucast (cdata_idx (chunk_data msg)),
                       fc_data = cdata_data (chunk_data msg), fc_hash = cdata_hash (chunk_data msg)\<rparr>
                in (case saveChunk f fs fchunk of
                      (Inl e, fs) \<Rightarrow> (fs, [], Some e)
                    | (Inr _, fs) \<Rightarrow>
                        (case next_response B msg f fs of
                           Inl e \<Rightarrow> (fs, [], Some e)
                         | Inr response \<Rightarrow> (fs, respond cs snds req (Some response)))))
         else (fs, respond cs snds req None))"

section \<open>Where the files of a client are\<close>

text \<open>The path of a plain file name below the client's directory.\<close>

lemma server_path:
  assumes "prefix \<noteq> []" and "last prefix \<noteq> slash" and "simple_name u" and "simple_name w"
  shows "path_filename (path_append u w) = w"
    and "entry_path (path_append prefix (path_append u w)) (prefix @ slash # u) w"
    and "path_append prefix (path_append u w) \<noteq> []"
    and "canon (path_append prefix (path_append u w)) = canon prefix @ [u, w]"
proof -
  have u: "u \<noteq> []" "hd u \<noteq> slash" "last u \<noteq> slash" and w: "w \<noteq> []" "hd w \<noteq> slash" "slash \<notin> set w"
    using assms(3,4) unfolding simple_name_def by (metis hd_in_set last_in_set)+
  then have uw: "path_append u w = u @ slash # w" by (simp add: path_append_def)
  have full: "path_append prefix (path_append u w) = (prefix @ slash # u) @ slash # w"
    using u w assms(1,2) by (simp add: uw path_append_def)
  show "path_filename (path_append u w) = w" using w by (simp add: uw path_simps)
  show e: "entry_path (path_append prefix (path_append u w)) (prefix @ slash # u) w"
    unfolding full using assms(4) u by (simp add: entry_path_def)
  show "path_append prefix (path_append u w) \<noteq> []" by (simp add: full)
  have "entry_path (prefix @ slash # u) prefix u" using assms by (simp add: entry_path_def)
  from entry_path_parts(3) [OF this] entry_path_parts(3) [OF e]
  show "canon (path_append prefix (path_append u w)) = canon prefix @ [u, w]" by simp
qed

section \<open>Answers for a consistent file\<close>

text \<open>
  The abstract server: from the data and the received chunks of a file, the first missing
  chunk and the answer they call for.
\<close>

definition first_missing :: "nat \<Rightarrow> nat set \<Rightarrow> size_t" where
  "first_missing n S = (case filter (\<lambda>i. i \<notin> S) [0..<n] of [] \<Rightarrow> UINT64_MAX | i # _ \<Rightarrow> word_of_nat i)"

definition answer :: "'s blake2b \<Rightarrow> message \<Rightarrow> ft_file \<Rightarrow> remote_abs \<Rightarrow> message" where
  "answer B msg f a =
     (let n = chunk_count (unat (f_size f))
      in if {..<n} \<subseteq> snd a \<and> calc_hash_buf B (fst a) = f_hash f
         then buildMsgComplete (seq_number msg) (client_uuid msg) f
         else buildMsgChunkReq (seq_number msg + 1) (client_uuid msg) f
                (ucast (first_missing n (snd a))) UINT16_MAX)"

lemma first_missing_none: "first_missing n S = UINT64_MAX" if "{..<n} \<subseteq> S"
proof -
  have "filter (\<lambda>i. i \<notin> S) [0..<n] = []" using that by (auto simp: filter_empty_conv)
  then show ?thesis by (simp add: first_missing_def del: filter_empty_conv)
qed

lemma first_missing_eq:
  assumes "i < n" and "i \<notin> S" and "\<And>j. j < i \<Longrightarrow> j \<in> S"
  shows "first_missing n S = word_of_nat i"
proof -
  have "[0..<n] = [0..<i] @ i # [Suc i..<n]"
    using assms(1) upt_add_eq_append [of 0 i "n - i"] upt_conv_Cons [of i n] by simp
  moreover have "filter (\<lambda>i. i \<notin> S) [0..<i] = []" using assms(3) by (auto simp: filter_empty_conv)
  ultimately have "filter (\<lambda>i. i \<notin> S) [0..<n] = i # filter (\<lambda>i. i \<notin> S) [Suc i..<n]"
    using assms(2) by simp
  then show ?thesis by (simp add: first_missing_def)
qed

lemma tracker_of_state:
  assumes "remote_state f fs dat bm"
  shows "tracker_inv (f_metadata f, fs)"
  unfolding tracker_inv_def fst_conv snd_conv
  using remote_state_parts(1,3,4) [OF assms] by (intro exI conjI) simp_all

lemma nextMissing_state:
  assumes "remote_state f fs dat bm"
  shows "nextMissingChunk (f_metadata f) fs 0 =
    first_missing (chunk_count (unat (f_size f))) (snd (remote_view f fs))"
proof -
  let ?t = "(f_metadata f, fs)" and ?n = "chunk_count (unat (f_size f))"
  note inv = tracker_of_state [OF assms] and n = remote_state_parts(3) [OF assms]
  have view: "snd (remote_view f fs) = {i. i < ?n \<and> tracker_got ?t i}"
    by (simp add: remote_view_def n)
  show ?thesis
  proof (cases "nextMissingChunk (f_metadata f) fs 0 = UINT64_MAX")
    case True
    then have "\<forall>i < ?n. tracker_got ?t i" using tracker.next_none [OF inv] n by simp
    then show ?thesis using True by (subst first_missing_none) (auto simp: view)
  next
    case False
    from tracker.next_some [OF inv] False n show ?thesis
      by (subst first_missing_eq [of "unat (nextMissingChunk (f_metadata f) fs 0)"]) (auto simp: view)
  qed
qed

lemma next_response_state:
  assumes st: "remote_state f fs dat bm" and B: "blake2b_laws B"
  shows "next_response B msg f fs = Inr (answer B msg f (remote_view f fs))"
proof -
  let ?n = "chunk_count (unat (f_size f))"
  have view: "remote_view f fs = (dat, {i. i < ?n \<and> chunk_bit bm i})" using st by (rule remote_view_state)
  have "getNextMissingChunk f fs 0 = nextMissingChunk (f_metadata f) fs 0"
    by (subst remote_state_parts(12) [OF st]) simp
  then have nxt: "getNextMissingChunk f fs 0 = first_missing ?n {i. i < ?n \<and> chunk_bit bm i}"
    using nextMissing_state [OF st] by (simp add: view)
  show ?thesis
    by (auto simp: next_response_def isComplete_state [OF st B] answer_def view nxt Let_def
        subset_eq)
qed

section \<open>The handler on a consistent file\<close>

text \<open>The file a message of client \<open>u\<close> about the plain name \<open>w\<close> is about.\<close>

definition serves :: "path \<Rightarrow> (bytes \<Rightarrow> bytes) \<Rightarrow> message \<Rightarrow> ft_file \<Rightarrow> bool" where
  "serves prefix ustr msg f \<longleftrightarrow>
     f_path f = path_append (ustr (client_uuid msg)) (file_name msg) \<and>
     f_effective_path f = path_append prefix (f_path f)"

lemma Server_chunk_data:
  assumes st: "remote_state f fs dat bm" and B: "blake2b_laws B"
    and msg: "getMessage req = msg" "msg_type msg = MSGTYPE_FILE_CHUNK_DATA"
    and f: "serves prefix ustr msg f"
  obtains fs' dat' bm' where "remote_state f fs' dat' bm'"
    and "remote_view f fs' = save_spec (unat (f_size f)) (unat (cdata_idx (chunk_data msg)))
      (cdata_data (chunk_data msg)) (remote_view f fs)"
    and "Server_handleRequest B ustr prefix cs snds fs req =
      (fs', respond cs snds req (Some (answer B msg f (remote_view f fs'))))"
proof -
  let ?c = "\<lparr>fc_file = f, fc_idx = ucast (cdata_idx (chunk_data msg)) :: size_t,
    fc_data = cdata_data (chunk_data msg), fc_hash = cdata_hash (chunk_data msg)\<rparr>"
  have idx: "unat (fc_idx ?c) < 2 ^ 32" using unat_bounds(3) [of "cdata_idx (chunk_data msg)"] by simp
  obtain fs' dat' bm' where save: "saveChunk f fs ?c = (Inr (), fs')" "remote_state f fs' dat' bm'"
    "remote_view f fs' = save_spec (unat (f_size f)) (unat (fc_idx ?c)) (fc_data ?c) (remote_view f fs)"
    using saveChunk_spec [OF st idx] by blast
  have path: "path_append (ustr (client_uuid msg)) (file_name msg) = f_path f"
    and eff: "f_effective_path f = path_append prefix (f_path f)" using f by (simp_all add: serves_def)
  show thesis
    using that [OF save(2)] save(3) msg
    by (simp add: Server_handleRequest_def path makeRemoteFile_load_state [OF st eff] save(1)
        next_response_state [OF save(2) B])
qed

text \<open>The two halves of an offer: the file object, and the answer.\<close>

lemma Server_offer:
  assumes "makeRemoteFile prefix fs (path_append (ustr (client_uuid msg)) (file_name msg))
      (offer_file_hash (offer msg)) (ucast (offer_file_size (offer msg))) = (Inr f, fs')"
    and "remote_state f fs' dat bm" and "blake2b_laws B"
    and "getMessage req = msg" "msg_type msg = MSGTYPE_FILE_OFFER"
  shows "Server_handleRequest B ustr prefix cs snds fs req =
    (fs', respond cs snds req (Some (answer B msg f (remote_view f fs'))))"
  using assms next_response_state [OF assms(2,3), of msg] by (simp add: Server_handleRequest_def)

lemma Server_offer_again:
  assumes "remote_state f fs dat bm" and "blake2b_laws B" and "getMessage req = msg"
    and "msg_type msg = MSGTYPE_FILE_OFFER" and "serves prefix ustr msg f"
    and "offer_file_hash (offer msg) = f_hash f" and "ucast (offer_file_size (offer msg)) = f_size f"
  shows "Server_handleRequest B ustr prefix cs snds fs req =
    (fs, respond cs snds req (Some (answer B msg f (remote_view f fs))))"
  using assms FileRemote_new_again [OF assms(1)]
  by (intro Server_offer) (simp_all add: makeRemoteFile_def serves_def)

lemma zero_bits: "\<not> chunk_bit (replicate n 0) i" if "i < 8 * n"
proof -
  have "i div 8 < n" using that by linarith
  then show ?thesis by (simp add: chunk_bit_def)
qed

lemma Server_offer_fresh:
  assumes B: "blake2b_laws B" and msg: "getMessage req = msg" "msg_type msg = MSGTYPE_FILE_OFFER"
    and hash: "length (offer_file_hash (offer msg)) = HASH_SIZE"
    and e: "entry_path e p w" "e = path_append prefix (path_append (ustr (client_uuid msg)) (file_name msg))"
    and dirs: "create_directories fs p = (Inr u, fs1)"
    and new: "blank_meta e (ucast (offer_file_size (offer msg))) (offer_file_hash (offer msg)) fs1"
      "node_at fs1 (canon e) = None"
  obtains f fs' dat bm where "remote_state f fs' dat bm" and "serves prefix ustr msg f"
    and "f_hash f = offer_file_hash (offer msg)" and "f_size f = ucast (offer_file_size (offer msg))"
    and "remote_view f fs' = (replicate (unat (offer_file_size (offer msg))) 0, {})"
    and "Server_handleRequest B ustr prefix cs snds fs req =
      (fs', respond cs snds req (Some (answer B msg f (remote_view f fs'))))"
proof -
  let ?sz = "ucast (offer_file_size (offer msg)) :: size_t"
  let ?p = "path_append (ustr (client_uuid msg)) (file_name msg)"
  have sz: "unat ?sz < 2 ^ 32" using unat_bounds(3) [of "offer_file_size (offer msg)"] by simp
  obtain f fs' n where f: "FileRemote_new ?p (offer_file_hash (offer msg)) ?sz e fs = (Inr f, fs')"
      "f_path f = ?p" "f_hash f = offer_file_hash (offer msg)" "f_size f = ?sz" "f_effective_path f = e"
    and st: "remote_state f fs' (replicate (unat ?sz) 0) (replicate n 0)"
    using FileRemote_new_fresh [OF e(1) sz hash dirs new, of ?p] by metis
  have "{i. i < chunk_count (unat (f_size f)) \<and> chunk_bit (replicate n 0) i} = {}"
    using zero_bits remote_state_parts(4) [OF st] by fastforce
  then have "remote_view f fs' = (replicate (unat (offer_file_size (offer msg))) 0, {})"
    using remote_view_state [OF st] by simp
  moreover have "makeRemoteFile prefix fs ?p (offer_file_hash (offer msg)) ?sz = (Inr f, fs')"
    using f(1) by (simp add: makeRemoteFile_def e(2))
  ultimately show thesis
    using that [OF st] f e(2) Server_offer [OF _ st B msg] by (simp add: serves_def)
qed

section \<open>Any request\<close>

text \<open>The data file and the metadata file a message is about.\<close>

definition target :: "path \<Rightarrow> (bytes \<Rightarrow> bytes) \<Rightarrow> message \<Rightarrow> path" where
  "target prefix ustr msg = path_append prefix (path_append (ustr (client_uuid msg)) (file_name msg))"

definition target_keys :: "path \<Rightarrow> (bytes \<Rightarrow> bytes) \<Rightarrow> message \<Rightarrow> key set" where
  "target_keys prefix ustr msg =
     {canon (target prefix ustr msg), canon (metadata_path (target prefix ustr msg))}"

definition target_dirs :: "path \<Rightarrow> (bytes \<Rightarrow> bytes) \<Rightarrow> message \<Rightarrow> key set" where
  "target_dirs prefix ustr msg = dirs_to (canon (parent_path (target prefix ustr msg)))"

lemma makeRemoteFile_load_object:
  assumes "makeRemoteFile_load prefix fs p = (Inr (Some f), fs')"
  shows "is_FileRemote f \<and> f_effective_path f = path_append prefix p \<and>
    fm_metadata_file (f_metadata f) = metadata_path (path_append prefix p)"
  using assms FileRemote_new_object [of p _ _ "path_append prefix p" fs f]
  by (auto simp: makeRemoteFile_load_def Let_def split: prod.splits if_splits sum.splits)

lemma Server_touches:
  assumes "Server_handleRequest B ustr prefix cs snds fs req = (fs', out, x)"
  shows "touches (target_dirs prefix ustr (getMessage req)) (target_keys prefix ustr (getMessage req)) fs fs'"
proof -
  let ?msg = "getMessage req" and ?K = "target_keys prefix ustr (getMessage req)"
  let ?D = "target_dirs prefix ustr (getMessage req)"
  let ?p = "path_append (ustr (client_uuid ?msg)) (file_name ?msg)"
  have K: "canon (path_append prefix ?p) \<in> ?K" "canon (metadata_path (path_append prefix ?p)) \<in> ?K"
    by (simp_all add: target_keys_def target_def)
  have D: "dirs_to (canon (parent_path (path_append prefix ?p))) \<subseteq> ?D" by (simp add: target_dirs_def target_def)
  obtain r1 fs1 where mk: "makeRemoteFile prefix fs ?p (offer_file_hash (offer ?msg))
      (ucast (offer_file_size (offer ?msg))) = (r1, fs1)" by fastforce
  have t1: "touches ?D ?K fs fs1" using mk K D unfolding makeRemoteFile_def by (rule FileRemote_new_touches)
  obtain r2 fs2 where ld: "makeRemoteFile_load prefix fs ?p = (r2, fs2)" by fastforce
  have t2: "touches ?D ?K fs fs2" using ld K D by (rule makeRemoteFile_load_touches)
  have t3: "touches ?D ?K fs fs3" if "r2 = Inr (Some f)" "saveChunk f fs2 c = (r, fs3)" for f c r fs3
    using makeRemoteFile_load_object [of prefix fs ?p f fs2] that ld K t2
      saveChunk_touches [OF that(2), of ?K ?D] by (auto intro: touches_trans)
  show ?thesis
    using assms t1 t2 t3
    by (auto simp: Server_handleRequest_def Let_def mk ld split: if_splits sum.splits option.splits
        prod.splits)
qed

text \<open>No request, whatever it contains, removes a file or turns a directory into one.\<close>

definition fs_keeps :: "fsys \<Rightarrow> fsys \<Rightarrow> bool" where
  "fs_keeps fs0 fs \<longleftrightarrow>
     (\<forall>k. (fs0 k = Some Dir \<longrightarrow> fs k = Some Dir) \<and>
        (\<forall>d. fs0 k = Some (Regular d) \<longrightarrow> (\<exists>d'. fs k = Some (Regular d'))))"

lemma fs_keeps_touches:
  assumes "fs_keeps fs0 fs" and "touches D K fs fs'"
  shows "fs_keeps fs0 fs'"
  unfolding fs_keeps_def
proof (intro allI conjI impI)
  fix k
  show "fs' k = Some Dir" if "fs0 k = Some Dir"
    using assms that unfolding fs_keeps_def touches_def by (metis option.distinct(1))
  show "\<exists>d'. fs' k = Some (Regular d')" if "fs0 k = Some (Regular d)" for d
    using assms that unfolding fs_keeps_def touches_def by (metis option.distinct(1))
qed

interpretation server: request_handler "Server_handleRequest B ustr prefix cs snds" "fs_keeps fs0"
  by unfold_locales (blast intro: fs_keeps_touches dest: Server_touches)

lemma server_target_plain:
  assumes "prefix \<noteq> []" and "last prefix \<noteq> slash" and "simple_name (ustr (client_uuid msg))"
    and "simple_name (file_name msg)"
  shows "target_keys prefix ustr msg =
    {canon prefix @ [ustr (client_uuid msg), file_name msg],
     canon prefix @ [ustr (client_uuid msg), meta_name (file_name msg)]}"
proof -
  note path = server_path [OF assms]
  have "canon (metadata_path (path_append prefix (path_append (ustr (client_uuid msg)) (file_name msg)))) =
      canon (prefix @ slash # ustr (client_uuid msg)) @ [meta_name (file_name msg)]"
    using entry_path_parts(3) [OF metadata_path_entry [OF path(2)]] .
  moreover have "canon (prefix @ slash # ustr (client_uuid msg)) = canon prefix @ [ustr (client_uuid msg)]"
    using entry_path_parts(3) [of "prefix @ slash # ustr (client_uuid msg)" prefix "ustr (client_uuid msg)"]
      assms by (simp add: entry_path_def)
  ultimately show ?thesis by (simp add: target_keys_def target_def path(4))
qed

lemma server_dirs_plain:
  assumes "prefix \<noteq> []" and "last prefix \<noteq> slash" and "simple_name (ustr (client_uuid msg))"
    and "simple_name (file_name msg)"
  shows "target_dirs prefix ustr msg = dirs_to (canon prefix @ [ustr (client_uuid msg)])"
proof -
  have "entry_path (prefix @ slash # ustr (client_uuid msg)) prefix (ustr (client_uuid msg))"
    using assms by (simp add: entry_path_def)
  then show ?thesis
    using entry_path_parts(3) entry_path_parts(2) [OF server_path(2) [OF assms]]
    by (simp add: target_dirs_def target_def)
qed

section \<open>An offer that does not match the old metadata\<close>

text \<open>
  An existing metadata file is kept whatever the offer says: only the object carries the new
  hash, and the search for missing chunks does not look at it.
\<close>

lemma nextMissing_hash: "nextMissingChunk (m\<lparr>fm_hash := h\<rparr>) fs i = nextMissingChunk m fs i"
  by (simp add: nextMissingChunk_def Let_def split_beta)

lemma FileMetadata_new_hash:
  "FileMetadata_new e sz csz h = Inr m \<Longrightarrow> FileMetadata_new e sz csz h' = Inr (m\<lparr>fm_hash := h'\<rparr>)"
  by (auto simp: FileMetadata_new_def Let_def split: if_splits)

lemma FileRemote_new_stale:
  assumes st: "remote_state f fs dat bm"
  shows "FileRemote_new (f_path f) h' (f_size f) (f_effective_path f) fs =
    (Inr (FileRemote (f_path f) h' (f_size f) (f_effective_path f) ((f_metadata f)\<lparr>fm_hash := h'\<rparr>)), fs)"
proof -
  have m: "FileMetadata_new (f_effective_path f) (f_size f) CHUNK_SIZE (f_hash f) = Inr (f_metadata f)"
    using st by (simp add: remote_state_def)
  have same: "createIfNotExist (m\<lparr>fm_hash := h'\<rparr>) fs = createIfNotExist m fs"
    if "fs_exists fs (fm_metadata_file m)" "create_directories fs (parent_path (fm_effective_path m)) = (Inr (), fs)" for m
    using that by (simp add: createIfNotExist_def)
  obtain p w where e: "entry_path (f_effective_path f) p w" "dirs_ok fs (canon p)" and "p \<noteq> []"
    using st by (auto simp: remote_state_def entry_path_def)
  then have dirs: "create_directories fs (parent_path (f_effective_path f)) = (Inr (), fs)"
    using dirs_ok_create entry_path_parts(2) by metis
  have "fs_exists fs (fm_metadata_file (f_metadata f))" "fs_exists fs (f_effective_path f)"
    using remote_state_parts(1,7,8) [OF st] by (auto simp: fs_exists_def file_data_node_at meta_layout_def)
  then show ?thesis
    using dirs FileMetadata_fields [OF m]
    by (simp add: FileRemote_new_def FileMetadata_new_hash [OF m] same createIfNotExist_def)
qed

text \<open>No chunk is missing and yet the hash is another one: the server asks for chunk 65535.\<close>

lemma next_response_stale:
  assumes B: "blake2b_laws B" and f: "f = FileRemote pth h sz e m" and h: "length h = HASH_SIZE"
    and none: "nextMissingChunk m fs 0 = UINT64_MAX" and dat: "e \<noteq> []" "file_data fs (canon e) = Some dat"
    and other: "calc_hash_buf B dat \<noteq> h"
  shows "next_response B msg f fs =
    Inr (buildMsgChunkReq (seq_number msg + 1) (client_uuid msg) f UINT16_MAX UINT16_MAX)"
proof -
  have ex: "fs_exists fs e" using dat by (simp add: fs_exists_def file_data_node_at)
  have hash: "calc_hash_file B fs e = calc_hash_buf B dat" using B dat by (rule calc_hash_file_eq)
  have len: "length (calc_hash_buf B dat) = HASH_SIZE"
    using calc_hash_buf_length [OF B] by (simp add: HASH_SIZE_def)
  have ucast: "(ucast UINT64_MAX :: u16) = UINT16_MAX" by (rule bit_word_eqI) (simp add: bit_simps)
  have "isComplete B f fs = Inr False" using none ex hash h len other by (simp add: f Let_def)
  then show ?thesis by (simp add: next_response_def f none ucast Let_def del: isComplete.simps)
qed

lemma Server_offer_stale:
  assumes st: "remote_state f fs dat bm" and B: "blake2b_laws B" and msg: "getMessage req = msg"
    "msg_type msg = MSGTYPE_FILE_OFFER" and f: "serves prefix ustr msg f"
    and offer: "length (offer_file_hash (offer msg)) = HASH_SIZE"
      "ucast (offer_file_size (offer msg)) = f_size f"
    and other: "calc_hash_buf B dat \<noteq> offer_file_hash (offer msg)"
    and all: "\<And>i. i < chunk_count (unat (f_size f)) \<Longrightarrow> chunk_bit bm i"
  obtains f' where "f_path f' = f_path f"
    and "Server_handleRequest B ustr prefix cs snds fs req =
      (fs, respond cs snds req
        (Some (buildMsgChunkReq (seq_number msg + 1) (client_uuid msg) f' UINT16_MAX UINT16_MAX)))"
proof -
  let ?h = "offer_file_hash (offer msg)"
  let ?f = "FileRemote (f_path f) ?h (f_size f) (f_effective_path f) ((f_metadata f)\<lparr>fm_hash := ?h\<rparr>)"
  note parts = remote_state_parts [OF st]
  have "nextMissingChunk (f_metadata f) fs 0 = UINT64_MAX"
    using all nextMissing_state [OF st] remote_view_state [OF st] by (auto intro: first_missing_none)
  then have nxt: "nextMissingChunk ((f_metadata f)\<lparr>fm_hash := ?h\<rparr>) fs 0 = UINT64_MAX"
    by (simp add: nextMissing_hash)
  have "next_response B msg ?f fs =
      Inr (buildMsgChunkReq (seq_number msg + 1) (client_uuid msg) ?f UINT16_MAX UINT16_MAX)"
    by (rule next_response_stale [OF B refl offer(1) nxt parts(7,8) other])
  moreover have "makeRemoteFile prefix fs (path_append (ustr (client_uuid msg)) (file_name msg)) ?h
      (ucast (offer_file_size (offer msg))) = (Inr ?f, fs)"
    using FileRemote_new_stale [OF st, of ?h] f offer(2) by (simp add: makeRemoteFile_def serves_def)
  ultimately show thesis
    using msg by (intro that [of ?f]) (simp_all add: Server_handleRequest_def)
qed

section \<open>Properties of the server\<close>

text \<open>
  C9.  A chunk for a file the server has in a consistent state is saved as specified (or ignored
  if its index or length does not fit), the file stays consistent, and the answer is the one
  the received chunks call for: completion, exactly when all chunks are there and the hash
  matches, or else a request for the first missing chunk.
\<close>

theorem server_saves_chunk:
  assumes "remote_state f fs dat bm" and "blake2b_laws B" and "getMessage req = msg"
    and "msg_type msg = MSGTYPE_FILE_CHUNK_DATA" and "serves prefix ustr msg f"
  shows "\<exists>fs' dat' bm'. remote_state f fs' dat' bm' \<and>
    remote_view f fs' = save_spec (unat (f_size f)) (unat (cdata_idx (chunk_data msg)))
      (cdata_data (chunk_data msg)) (remote_view f fs) \<and>
    Server_handleRequest B ustr prefix cs snds fs req =
      (fs', respond cs snds req (Some (answer B msg f (remote_view f fs'))))"
  using Server_chunk_data [OF assms, of cs snds] by metis

definition sample_data_req :: request where
  "sample_data_req = \<lparr>req_connection = 0, req_message = message_init\<lparr>msg_type := MSGTYPE_FILE_CHUNK_DATA,
     file_name := ascii ''f'', chunk_data := \<lparr>cdata_idx = 0, cdata_data = [1, 2, 3, 4, 5], cdata_hash = []\<rparr>\<rparr>\<rparr>"

lemma sample_serves:
  "file_name msg = ascii ''f'' \<Longrightarrow> serves (ascii ''/'') (\<lambda>_. ascii ''d'') msg sample_file"
  by (simp add: serves_def sample_file_def path_append_def ascii_def)

theorem server_saves_chunk_witness:
  "\<exists>fs' dat' bm'. remote_state sample_file fs' dat' bm' \<and>
    remote_view sample_file fs' = save_spec (unat (f_size sample_file))
      (unat (cdata_idx (chunk_data (getMessage sample_data_req))))
      (cdata_data (chunk_data (getMessage sample_data_req))) (remote_view sample_file sample_file_fs) \<and>
    Server_handleRequest b2_concat (\<lambda>_. ascii ''d'') (ascii ''/'') Map.empty (\<lambda>_ _. Sent 0) sample_file_fs
        sample_data_req =
      (fs', respond Map.empty (\<lambda>_ _. Sent 0) sample_data_req
        (Some (answer b2_concat (getMessage sample_data_req) sample_file (remote_view sample_file fs'))))"
  by (rule server_saves_chunk [OF sample_remote b2_concat_laws refl])
    (simp_all add: sample_data_req_def getMessage_def sample_serves)

text \<open>
  C25.  An offer of a file that is not there yet creates the directories, a data file of the
  announced size filled with zeros, and its metadata with no chunk received; the answer follows
  from that state (a request for chunk 0, or completion for a file without chunks whose hash
  matches).
\<close>

theorem server_accepts_offer:
  assumes "blake2b_laws B" and "getMessage req = msg" and "msg_type msg = MSGTYPE_FILE_OFFER"
    and "length (offer_file_hash (offer msg)) = HASH_SIZE" and "entry_path e p w"
    and "e = path_append prefix (path_append (ustr (client_uuid msg)) (file_name msg))"
    and "create_directories fs p = (Inr u, fs1)"
    and "node_at fs1 (canon (metadata_path e)) = None" and "node_at fs1 (canon e) = None"
  shows "\<exists>f fs' dat bm. remote_state f fs' dat bm \<and> serves prefix ustr msg f \<and>
    f_hash f = offer_file_hash (offer msg) \<and> f_size f = ucast (offer_file_size (offer msg)) \<and>
    remote_view f fs' = (replicate (unat (offer_file_size (offer msg))) 0, {}) \<and>
    Server_handleRequest B ustr prefix cs snds fs req =
      (fs', respond cs snds req (Some (answer B msg f (remote_view f fs'))))"
  by (rule Server_offer_fresh [where prefix = prefix and ustr = ustr and cs = cs and snds = snds,
      OF assms(1-7) blank_meta_absent [OF assms(8)] assms(9)]) metis

definition sample_offer_req :: request where
  "sample_offer_req = \<lparr>req_connection = 0, req_message = message_init\<lparr>msg_type := MSGTYPE_FILE_OFFER,
     file_name := ascii ''f'', offer := \<lparr>offer_file_size = 5, offer_file_n_chunks = 1,
       offer_file_hash = replicate HASH_SIZE 1\<rparr>\<rparr>\<rparr>"

theorem server_accepts_offer_witness:
  "\<exists>f fs' dat bm. remote_state f fs' dat bm \<and>
    serves (ascii ''/'') (\<lambda>_. ascii ''d'') (getMessage sample_offer_req) f \<and>
    f_hash f = offer_file_hash (offer (getMessage sample_offer_req)) \<and>
    f_size f = ucast (offer_file_size (offer (getMessage sample_offer_req))) \<and>
    remote_view f fs' = (replicate (unat (offer_file_size (offer (getMessage sample_offer_req)))) 0, {}) \<and>
    Server_handleRequest b2_concat (\<lambda>_. ascii ''d'') (ascii ''/'') Map.empty (\<lambda>_ _. Sent 0) Map.empty
        sample_offer_req =
      (fs', respond Map.empty (\<lambda>_ _. Sent 0) sample_offer_req
        (Some (answer b2_concat (getMessage sample_offer_req) f (remote_view f fs'))))"
proof (rule server_accepts_offer [OF b2_concat_laws refl _ _ sample_entry _ sample_dirs sample_meta_absent])
  show "node_at [[ascii ''d''] \<mapsto> Dir] (canon (ascii ''/d/f'')) = None"
    by (simp add: sample_keys node_at_def)
  show "ascii ''/d/f'' = path_append (ascii ''/'') (path_append (ascii ''d'') (file_name (getMessage sample_offer_req)))"
    by (simp add: sample_offer_req_def getMessage_def path_append_def ascii_def)
qed (simp_all add: sample_offer_req_def getMessage_def)



text \<open>
  Whatever requests the server handles, with or without exceptions, no file disappears and
  no directory is replaced.
\<close>

theorem server_keeps_files:
  "fs_keeps fs (fst (handle_all (Server_handleRequest B ustr prefix cs snds) rs fs))"
proof -
  have "fs_keeps fs fs" by (simp add: fs_keeps_def)
  then show ?thesis
    using server.handle_all_inv [of fs fs B ustr prefix cs snds rs] by (metis prod.collapse)
qed

text \<open>
  C38.  A file name that is an absolute path escapes the upload directory: the offer creates the
  file at that path, whatever the prefix and the client are.
\<close>

theorem absolute_name_escapes:
  assumes "blake2b_laws B" and "msg_type (getMessage req) = MSGTYPE_FILE_OFFER"
    and "length (offer_file_hash (offer (getMessage req))) = HASH_SIZE"
    and "entry_path (file_name (getMessage req)) p w" and "hd (file_name (getMessage req)) = slash"
    and "create_directories fs p = (Inr u, fs1)"
    and "node_at fs1 (canon (metadata_path (file_name (getMessage req)))) = None"
    and "node_at fs1 (canon (file_name (getMessage req))) = None"
  shows "file_data (fst (Server_handleRequest B ustr prefix cs snds fs req)) (canon (file_name (getMessage req))) =
    Some (replicate (unat (offer_file_size (offer (getMessage req)))) 0)"
proof -
  let ?msg = "getMessage req"
  have ne: "file_name ?msg \<noteq> []" using assms(4) by (auto simp: entry_path_def)
  have e: "file_name ?msg = path_append prefix (path_append (ustr (client_uuid ?msg)) (file_name ?msg))"
    using ne assms(5) by (simp add: path_append_def)
  obtain f fs' dat bm where f: "remote_state f fs' dat bm" "serves prefix ustr ?msg f"
    "remote_view f fs' = (replicate (unat (offer_file_size (offer ?msg))) 0, {})"
    "fst (Server_handleRequest B ustr prefix cs snds fs req) = fs'"
    using Server_offer_fresh [where prefix = prefix and ustr = ustr and cs = cs and snds = snds,
        OF assms(1) refl assms(2,3,4) e assms(6) blank_meta_absent [OF assms(7)] assms(8)] by (metis fst_conv)
  have "f_effective_path f = file_name ?msg" using f(2) e by (simp add: serves_def)
  then show ?thesis using remote_state_parts(8) [OF f(1)] remote_view_state [OF f(1)] f(3,4) by simp
qed

theorem absolute_name_witness:
  "file_data (fst (Server_handleRequest b2_concat (\<lambda>_. ascii ''d'') SERVER_BASE_PATH Map.empty (\<lambda>_ _. Sent 0)
      Map.empty (sample_offer_req\<lparr>req_message := (req_message sample_offer_req)\<lparr>file_name := ascii ''/d/f''\<rparr>\<rparr>)))
    (canon (ascii ''/d/f'')) = Some (replicate (unat (5 :: u32)) 0)"
  using absolute_name_escapes [OF b2_concat_laws, of
      "sample_offer_req\<lparr>req_message := (req_message sample_offer_req)\<lparr>file_name := ascii ''/d/f''\<rparr>\<rparr>"
      "ascii ''/d''" "ascii ''f''" Map.empty "()" "[[ascii ''d''] \<mapsto> Dir]" "\<lambda>_. ascii ''d''"
      SERVER_BASE_PATH Map.empty "\<lambda>_ _. Sent 0"] sample_entry sample_dirs sample_meta_absent
  by (simp add: sample_offer_req_def getMessage_def sample_keys node_at_def) (simp add: ascii_def)

text \<open>
  C35.  The index of a requested chunk is cut to 16 bits: a server that has the first 65536
  chunks of a longer file but not the next one asks for chunk 0 again, and saving chunk 0
  once more leaves the set of received chunks as it is.  Such a transfer never ends.
\<close>

theorem chunk_index_wraps:
  assumes "remote_state f fs dat bm" and "blake2b_laws B"
    and "65536 < chunk_count (unat (f_size f))" and "\<And>i. i < 65536 \<Longrightarrow> chunk_bit bm i"
    and "\<not> chunk_bit bm 65536"
  shows "next_response B msg f fs =
      Inr (buildMsgChunkReq (seq_number msg + 1) (client_uuid msg) f 0 UINT16_MAX) \<and>
    snd (save_spec (unat (f_size f)) 0 d (remote_view f fs)) = snd (remote_view f fs)"
proof -
  let ?n = "chunk_count (unat (f_size f))" and ?S = "snd (remote_view f fs)"
  have S: "?S = {i. i < ?n \<and> chunk_bit bm i}" using remote_view_state [OF assms(1)] by simp
  have "first_missing ?n ?S = word_of_nat 65536"
    using assms(3-5) by (intro first_missing_eq) (auto simp: S)
  moreover have "\<not> {..<?n} \<subseteq> ?S" using assms(3,5) by (auto simp: S)
  moreover have "(ucast (word_of_nat 65536 :: size_t) :: u16) = 0" by simp
  ultimately have "answer B msg f (remote_view f fs) =
      buildMsgChunkReq (seq_number msg + 1) (client_uuid msg) f 0 UINT16_MAX"
    by (simp only: answer_def Let_def simp_thms if_False)
  moreover have "0 \<in> ?S" using assms(3,4) by (simp add: S)
  ultimately show ?thesis
    using next_response_state [OF assms(1,2)] by (auto simp: save_spec_def)
qed

definition sample_big_meta :: file_metadata where
  "sample_big_meta = sample_new\<lparr>fm_file_size := 260050816, fm_n_chunks := 65537, fm_bitmap_size := 8193\<rparr>"

definition sample_big :: ft_file where
  "sample_big = FileRemote (ascii ''d/f'') (replicate HASH_SIZE 0) 260050816 (ascii ''/d/f'') sample_big_meta"

definition sample_big_bits :: bytes where "sample_big_bits = replicate 8192 0xFF @ [0]"

definition sample_big_fs :: fsys where
  "sample_big_fs = [[ascii ''d''] \<mapsto> Dir,
     [ascii ''d'', ascii ''.f.meta''] \<mapsto> Regular (meta_header sample_big_meta @ sample_big_bits),
     [ascii ''d'', ascii ''f''] \<mapsto> Regular (replicate 260050816 0)]"

lemma sample_big_remote: "remote_state sample_big sample_big_fs (replicate 260050816 0) sample_big_bits"
  unfolding remote_state_def
proof (intro conjI)
  show "FileMetadata_new (f_effective_path sample_big) (f_size sample_big) CHUNK_SIZE (f_hash sample_big) =
      Inr (f_metadata sample_big)"
    by (simp add: FileMetadata_new_def Let_def sample_big_def sample_big_meta_def sample_new_def
        HASH_SIZE_def CHUNK_SIZE_def payload_size_value)
  have "dirs_ok sample_big_fs (canon (ascii ''/d''))"
    by (auto simp: dirs_ok_def sample_keys sample_big_fs_def node_at_def le_Suc_eq)
  then show "\<exists>p w. entry_path (f_effective_path sample_big) p w \<and> dirs_ok sample_big_fs (canon p)"
    using sample_entry by (auto simp: sample_big_def)
  show "meta_layout (f_metadata sample_big) sample_big_fs (meta_header (f_metadata sample_big)) sample_big_bits"
    using sample_distinct
    by (simp add: meta_layout_def sample_big_def sample_big_meta_def sample_new_def sample_keys
        sample_big_fs_def sample_big_bits_def file_data_def node_at_def meta_header_def HASH_SIZE_def)
qed (use sample_distinct in \<open>simp_all add: sample_big_def sample_big_meta_def sample_new_def sample_keys
      sample_big_fs_def sample_big_bits_def file_data_def node_at_def HASH_SIZE_def\<close>)

lemma sample_big_bit: "chunk_bit sample_big_bits i \<longleftrightarrow> i < 65536" if "i \<le> 65536"
proof (cases "i < 65536")
  case True
  then have "i div 8 < 8192" by linarith
  then show ?thesis
    using True byte_full [of "0xFF"] by (simp add: chunk_bit_def sample_big_bits_def nth_append)
next
  case False
  then have "i = 65536" using that by simp
  then show ?thesis by (simp add: chunk_bit_def sample_big_bits_def nth_append)
qed

theorem chunk_index_wraps_witness:
  "next_response b2_concat message_init sample_big sample_big_fs =
      Inr (buildMsgChunkReq (seq_number message_init + 1) (client_uuid message_init) sample_big 0 UINT16_MAX) \<and>
    snd (save_spec (unat (f_size sample_big)) 0 [] (remote_view sample_big sample_big_fs)) =
      snd (remote_view sample_big sample_big_fs)"
  by (rule chunk_index_wraps [OF sample_big_remote b2_concat_laws])
    (simp_all add: sample_big_bit, simp add: sample_big_def chunk_count_def)

end
