(* ===== verification/FT_Client.thy ===== *)
theory FT_Client
  imports FT_Req_Hndlr
begin

text \<open>
  The client's request handler, \<open>ClientRequestHandler\<close> of \<open>src/ft_client.cpp\<close>: the map of the
  offered files, offering a file, answering chunk requests and dropping completed files.
\<close>

record client =
  cl_uuid :: bytes
  client_files :: "bytes \<rightharpoonup> ft_file"

text \<open>\<open>std::map::insert\<close> keeps an entry that is already there.\<close>

definition map_insert :: "('k \<rightharpoonup> 'v) \<Rightarrow> 'k \<Rightarrow> 'v \<Rightarrow> ('k \<rightharpoonup> 'v)" where
  "map_insert m k v = (case m k of None \<Rightarrow> m(k \<mapsto> v) | Some _ \<Rightarrow> m)"

text \<open>\<open>offer\<close> on connection \<open>c\<close>: the new client, the bytes sent and an exception.\<close>

definition Client_offer ::
    "conns \<Rightarrow> sends \<Rightarrow> client \<Rightarrow> nat \<Rightarrow> ft_file \<Rightarrow> client \<times> outgoing \<times> ft_exn option" where
  "Client_offer cs snds cl c f =
     (let cl = cl\<lparr>client_files := map_insert (client_files cl) (path_filename (f_path f)) f\<rparr>;
          msg = buildMsgOffer 1 (cl_uuid cl) f
      in case serialize msg [] of
           Inl e \<Rightarrow> (cl, [], Some e)
         | Inr buf \<Rightarrow>
            (case sendBuffer (the (cs c)) (snds c buf) buf of (sent, x) \<Rightarrow> (cl, [(c, sent)], x)))"

text \<open>
  \<open>handleRequest\<close>.  Unknown clients and files are ignored.  The completion branch falls
  through to the default one, and the requested index is narrowed to 16 bits.
\<close>

definition Client_handleRequest ::
    "'s blake2b \<Rightarrow> fsys \<Rightarrow> conns \<Rightarrow> sends \<Rightarrow> client handler" where
  "Client_handleRequest B fs cs snds cl req =
     (let msg = getMessage req
      in if client_uuid msg \<noteq> cl_uuid cl then (cl, [], None)
         else case client_files cl (file_name msg) of
           None \<Rightarrow> (cl, [], None)
         | Some f \<Rightarrow>
            if msg_type msg = MSGTYPE_FILE_CHUNK_REQ then
              (case buildMsgChunkData B fs (seq_number msg) (cl_uuid cl) f
                      (ucast (chunk_idx_first (chunk_req msg))) of
                 Inl e \<Rightarrow> (cl, [], Some e)
               | Inr m \<Rightarrow> (cl, respond cs snds req (Some m)))
            else if msg_type msg = MSGTYPE_FILE_COMPLETE then
              (cl\<lparr>client_files := (client_files cl)(file_name msg := None)\<rparr>, respond cs snds req None)
            else (cl, respond cs snds req None))"

definition uploadsCompleted :: "client \<Rightarrow> bool" where
  "uploadsCompleted cl \<longleftrightarrow> client_files cl = Map.empty"

section \<open>What a request can do to the client\<close>

lemma Client_handleRequest_files:
  assumes "Client_handleRequest B fs cs snds cl req = (cl', out, x)"
  shows "cl' = (if msg_type (getMessage req) = MSGTYPE_FILE_COMPLETE \<and> client_uuid (getMessage req) = cl_uuid cl
    then cl\<lparr>client_files := (client_files cl)(file_name (getMessage req) := None)\<rparr> else cl)"
proof -
  have "cl\<lparr>client_files := (client_files cl)(n := None)\<rparr> = cl" if "client_files cl n = None" for n
    using that by (simp add: fun_upd_idem)
  then show ?thesis
    using assms by (auto simp: Client_handleRequest_def Let_def MSGTYPE_FILE_CHUNK_REQ_def
        MSGTYPE_FILE_COMPLETE_def MAGIC_def split: if_splits option.splits sum.splits)
qed

lemma Client_handleRequest_out:
  assumes "Client_handleRequest B fs cs snds cl req = (cl', out, x)" and "out \<noteq> []"
  shows "msg_type (getMessage req) = MSGTYPE_FILE_CHUNK_REQ \<and> client_uuid (getMessage req) = cl_uuid cl \<and>
    file_name (getMessage req) \<in> dom (client_files cl)"
  using assms by (auto simp: Client_handleRequest_def Let_def split: if_splits option.splits sum.splits)

text \<open>The files on offer only get fewer, and the client keeps its identity.\<close>

interpretation client: request_handler "Client_handleRequest B fs cs snds"
    "\<lambda>cl. cl_uuid cl = u \<and> client_files cl \<subseteq>\<^sub>m m"
proof
  fix s r s' out x
  assume "cl_uuid s = u \<and> client_files s \<subseteq>\<^sub>m m" and "Client_handleRequest B fs cs snds s r = (s', out, x)"
  then show "cl_uuid s' = u \<and> client_files s' \<subseteq>\<^sub>m m"
    using Client_handleRequest_files [of B fs cs snds s r s' out x]
    by (auto intro: map_le_trans [OF upd_None_map_le])
qed

lemma Client_serves_chunk:
  fixes i :: u16
  assumes "local_state f fs src" and "client_files cl (file_name msg) = Some f"
    and "getMessage req = msg" and "client_uuid msg = cl_uuid cl"
    and "msg_type msg = MSGTYPE_FILE_CHUNK_REQ" and "chunk_idx_first (chunk_req msg) = ucast i"
    and "unat i < chunk_count (length src)" and "good_conn cs snds (req_connection req)"
  defines "m \<equiv> message_init\<lparr>msg_type := MSGTYPE_FILE_CHUNK_DATA, seq_number := seq_number msg,
      client_uuid := cl_uuid cl, file_name := path_filename (f_path f),
      chunk_data := \<lparr>cdata_idx = ucast i, cdata_data = chunk_at src (unat i), cdata_hash = []\<rparr>\<rparr>"
  obtains buf where "serialize m [] = Inr buf"
    and "Client_handleRequest B fs cs snds cl req = (cl, [(req_connection req, buf)], None)"
proof -
  have le: "unat i * CHUNK \<le> length src" using assms(7) by (simp add: chunk_count_iff)
  have i: "ucast (ucast (i :: u16) :: u32) = i" by (rule bit_word_eqI) (simp add: bit_simps)
  have "buildMsgChunkData B fs (seq_number msg) (cl_uuid cl) f i = Inr m"
    using buildMsgChunkData_local [OF assms(1), of B "seq_number msg" "cl_uuid cl" i] le
    by (simp add: m_def)
  moreover obtain buf where buf: "serialize m [] = Inr buf"
    using serialize_chunk_data [OF assms(7) m_def [THEN meta_eq_to_obj_eq]] by blast
  ultimately show thesis
    using that [OF buf] respond_sent [OF assms(8) buf] assms(2-6) i
    by (simp add: Client_handleRequest_def)
qed

lemma Client_past_end:
  fixes i :: u16
  assumes "local_state f fs src" and "client_files cl (file_name (getMessage req)) = Some f"
    and "client_uuid (getMessage req) = cl_uuid cl"
    and "msg_type (getMessage req) = MSGTYPE_FILE_CHUNK_REQ"
    and "chunk_idx_first (chunk_req (getMessage req)) = ucast i" and "length src < unat i * CHUNK"
  shows "Client_handleRequest B fs cs snds cl req =
    (cl, [], Some (Range_error ''Chunk index outside file length range''))"
proof -
  have "ucast (ucast i :: u32) = i" by (rule bit_word_eqI) (simp add: bit_simps)
  then show ?thesis
    using assms buildMsgChunkData_local [OF assms(1), of B _ _ i]
    by (simp add: Client_handleRequest_def Let_def)
qed

lemma Client_offer_sent:
  assumes "good_conn cs snds c" and "length (f_hash f) = HASH_SIZE"
    and "client_files cl (path_filename (f_path f)) = None"
  obtains buf where "serialize (buildMsgOffer 1 (cl_uuid cl) f) [] = Inr buf"
    and "Client_offer cs snds cl c f =
      (cl\<lparr>client_files := (client_files cl)(path_filename (f_path f) \<mapsto> f)\<rparr>, [(c, buf)], None)"
proof -
  obtain buf where "serialize (buildMsgOffer 1 (cl_uuid cl) f) [] = Inr buf"
    using serialize_offer [OF assms(2)] by blast
  then show thesis
    using that assms(1,3)
    by (simp add: Client_offer_def Let_def map_insert_def good_conn_def sendBuffer_def)
qed

section \<open>Properties of the client\<close>

text \<open>
  C28.  A completion message for this client drops the file it names, and nothing else; every
  other request leaves the client as it is.  Bytes are sent only in answer to a chunk request
  for this client about a file it has on offer.
\<close>

theorem client_request_effect:
  "case Client_handleRequest B fs cs snds cl req of (cl', out, x) \<Rightarrow>
     cl' = (if msg_type (getMessage req) = MSGTYPE_FILE_COMPLETE \<and> client_uuid (getMessage req) = cl_uuid cl
       then cl\<lparr>client_files := (client_files cl)(file_name (getMessage req) := None)\<rparr> else cl) \<and>
     (out = [] \<or> (msg_type (getMessage req) = MSGTYPE_FILE_CHUNK_REQ \<and>
        client_uuid (getMessage req) = cl_uuid cl \<and>
        file_name (getMessage req) \<in> dom (client_files cl)))"
proof (cases "Client_handleRequest B fs cs snds cl req")
  case (fields cl' out x)
  show ?thesis
    unfolding fields prod.case
    using Client_handleRequest_files [OF fields] Client_handleRequest_out [OF fields] by blast
qed

text \<open>
  Whatever requests arrive, the client keeps its identity and its files on offer only
  become fewer: nothing the server sends adds or exchanges a file.
\<close>

theorem client_files_shrink:
  "case handle_all (Client_handleRequest B fs cs snds) rs cl of (cl', outs, xs) \<Rightarrow>
     cl_uuid cl' = cl_uuid cl \<and> client_files cl' \<subseteq>\<^sub>m client_files cl"
proof -
  obtain cl' outs xs where r: "handle_all (Client_handleRequest B fs cs snds) rs cl = (cl', outs, xs)"
    by (metis prod.collapse)
  then show ?thesis
    using client.handle_all_inv [OF _ r, of "cl_uuid cl" "client_files cl"] by simp
qed

text \<open>
  A requested chunk inside the file is sent with the index, the bytes of the source at
  that index and the sequence number of the request; the client's state does not change.
\<close>

theorem client_serves_chunk:
  fixes i :: u16
  assumes "local_state f fs src" and "client_files cl (file_name (getMessage req)) = Some f"
    and "client_uuid (getMessage req) = cl_uuid cl"
    and "msg_type (getMessage req) = MSGTYPE_FILE_CHUNK_REQ"
    and "chunk_idx_first (chunk_req (getMessage req)) = ucast i"
    and "unat i < chunk_count (length src)" and "good_conn cs snds (req_connection req)"
  shows "\<exists>buf. serialize (message_init\<lparr>msg_type := MSGTYPE_FILE_CHUNK_DATA,
        seq_number := seq_number (getMessage req), client_uuid := cl_uuid cl,
        file_name := path_filename (f_path f),
        chunk_data := \<lparr>cdata_idx = ucast i, cdata_data = take CHUNK (drop (unat i * CHUNK) src),
          cdata_hash = []\<rparr>\<rparr>) [] = Inr buf \<and>
    Client_handleRequest B fs cs snds cl req = (cl, [(req_connection req, buf)], None)"
  using Client_serves_chunk [OF assms(1,2) refl assms(3-7), of B]
  unfolding chunk_at_def read_at_def by metis

definition sample_client :: client where
  "sample_client = \<lparr>cl_uuid = replicate UUID_SIZE 0, client_files = [[97, 98] \<mapsto> sample_local]\<rparr>"

definition sample_chunk_req :: request where
  "sample_chunk_req = \<lparr>req_connection = 0, req_message =
     sample_req\<lparr>chunk_req := \<lparr>chunk_idx_first = 0, chunk_idx_last = 0\<rparr>\<rparr>\<rparr>"

definition sample_conns :: conns where
  "sample_conns = [0 \<mapsto> \<lparr>conn_fd = 4, conn_msg_buf = [], conn_msg_len = 0\<rparr>]"

definition sample_sends :: sends where "sample_sends c buf = Sent (length buf)"

lemma sample_good: "good_conn sample_conns sample_sends 0"
  by (simp add: good_conn_def sample_conns_def sample_sends_def)

theorem client_serves_chunk_witness:
  "\<exists>buf. serialize (message_init\<lparr>msg_type := MSGTYPE_FILE_CHUNK_DATA,
        seq_number := seq_number (getMessage sample_chunk_req), client_uuid := cl_uuid sample_client,
        file_name := path_filename (f_path sample_local),
        chunk_data := \<lparr>cdata_idx = ucast (0 :: u16), cdata_data = take CHUNK (drop (unat (0 :: u16) * CHUNK) [7, 8, 9]),
          cdata_hash = []\<rparr>\<rparr>) [] = Inr buf \<and>
    Client_handleRequest b2_concat [[ascii ''f''] \<mapsto> Regular [7, 8, 9]] sample_conns sample_sends sample_client
      sample_chunk_req = (sample_client, [(req_connection sample_chunk_req, buf)], None)"
  by (rule client_serves_chunk [OF sample_local_state])
    (simp_all add: sample_client_def sample_chunk_req_def getMessage_def sample_req_def message_init_def
      chunk_count_def sample_good)

end
