(* ===== verification/FT_Session.thy ===== *)
theory FT_Session
  imports FT_Server FT_Client
begin

text \<open>
  A client and a server connected by a stream of bytes.  In a turn a process reads what has
  arrived through its connection (\<open>handleEvent\<close>), its worker handles the requests that were
  queued, and the bytes it sent travel to the other side.  A round is a turn of the server
  followed by one of the client.  The lemmas follow an upload from the offer to the completion
  message, one round per missing chunk.
\<close>

definition turn ::
    "'s handler \<Rightarrow> nat \<Rightarrow> bytes \<Rightarrow> rx \<Rightarrow> 's \<Rightarrow> rx \<times> 's \<times> bytes \<times> ft_exn list" where
  "turn h self bs r s =
     (case handleEvent self (map RecvByte bs) r EAGAIN of
        (_, r, _, x) \<Rightarrow>
          (case rx_broker r of
             None \<Rightarrow> (r, s, [], (case x of None \<Rightarrow> [] | Some e \<Rightarrow> [e]))
           | Some b \<Rightarrow>
              (case handle_all h (sm_req_list b) s of
                 (s, outs, xs) \<Rightarrow>
                   (r\<lparr>rx_broker := Some (b\<lparr>sm_req_list := [], taken := taken b @ sm_req_list b\<rparr>)\<rparr>,
                    s, concat (map snd outs), (case x of None \<Rightarrow> xs | Some e \<Rightarrow> e # xs)))))"

record session =
  ss_client :: client
  ss_client_rx :: rx
  ss_server_fs :: fsys
  ss_server_rx :: rx
  ss_up :: bytes \<comment> \<open>bytes on their way to the server\<close>
  ss_errors :: "ft_exn list"

record world =
  w_uuid_str :: "bytes \<Rightarrow> bytes"
  w_prefix :: path
  w_client_fs :: fsys
  w_client_conns :: conns
  w_client_sends :: sends
  w_server_conns :: conns
  w_server_sends :: sends

definition exchange :: "'s blake2b \<Rightarrow> world \<Rightarrow> session \<Rightarrow> session" where
  "exchange B w ss =
     (let (srx, sfs, down, xs) =
            turn (Server_handleRequest B (w_uuid_str w) (w_prefix w) (w_server_conns w) (w_server_sends w))
              0 (ss_up ss) (ss_server_rx ss) (ss_server_fs ss);
          (crx, cl, up, ys) =
            turn (Client_handleRequest B (w_client_fs w) (w_client_conns w) (w_client_sends w))
              0 down (ss_client_rx ss) (ss_client ss)
      in \<lparr>ss_client = cl, ss_client_rx = crx, ss_server_fs = sfs, ss_server_rx = srx, ss_up = up,
          ss_errors = ss_errors ss @ xs @ ys\<rparr>)"

section \<open>One message, one turn\<close>

definition rx_idle :: "rx \<Rightarrow> bool" where
  "rx_idle r \<longleftrightarrow> conn_msg_buf (rx_conn r) = [] \<and> (\<exists>b. rx_broker r = Some b \<and> sm_req_list b = [])"

lemma turn_message:
  assumes "serialize m [] = Inr buf" and "length (client_uuid m) = UUID_SIZE" and "rx_idle r"
    and "h s (arrived self m buf) = (s', out, x)"
  obtains r' where "rx_idle r'"
    and "turn h self buf r s = (r', s', concat (map snd out), (case x of None \<Rightarrow> [] | Some e \<Rightarrow> [e]))"
proof -
  obtain b where b: "rx_broker r = Some b" "sm_req_list b = []" using assms(3) by (auto simp: rx_idle_def)
  let ?r = "clear_buf (deliver [arrived self m buf] r)"
  let ?b = "queueRequest b (arrived self m buf)"
  have "feed self buf r = (?r, None)"
    using assms(1-3) by (intro feed_message) (simp_all add: rx_idle_def)
  then have ev: "handleEvent self (map RecvByte buf) r EAGAIN = ([], ?r, EAGAIN, None)"
    by (rule handleEvent_feed)
  have br: "rx_broker ?r = Some ?b" by (simp add: clear_buf_def deliver_def b)
  have q: "sm_req_list ?b = [arrived self m buf]" by (simp add: queueRequest_def b)
  let ?r' = "?r\<lparr>rx_broker := Some (?b\<lparr>sm_req_list := [], taken := taken ?b @ [arrived self m buf]\<rparr>)\<rparr>"
  have "turn h self buf r s = (?r', s', concat (map snd out), (case x of None \<Rightarrow> [] | Some e \<Rightarrow> [e]))"
    by (simp add: turn_def ev br q assms(4))
  moreover have "rx_idle ?r'" by (simp add: rx_idle_def clear_buf_def)
  ultimately show thesis using that by blast
qed

section \<open>An upload in progress\<close>

text \<open>
  The data of one upload: the source bytes, who offers them under which name, and the
  assumptions on the surroundings: both connections take what is sent, the name and the
  client's directory are plain names, and the chunk indices fit the 16 bits the factory has.
\<close>

definition upload_ok :: "world \<Rightarrow> ft_file \<Rightarrow> bytes \<Rightarrow> bytes \<Rightarrow> bytes \<Rightarrow> bool" where
  "upload_ok w lf src uuid name \<longleftrightarrow>
     local_state lf (w_client_fs w) src \<and> chunk_count (length src) \<le> 2 ^ 16 \<and>
     path_filename (f_path lf) = name \<and> length (f_hash lf) = HASH_SIZE \<and>
     simple_name name \<and> length name \<le> UINT8_MAX \<and> length uuid = UUID_SIZE \<and>
     simple_name (w_uuid_str w uuid) \<and> w_prefix w \<noteq> [] \<and> last (w_prefix w) \<noteq> slash \<and>
     good_conn (w_client_conns w) (w_client_sends w) 0 \<and>
     good_conn (w_server_conns w) (w_server_sends w) 0"

text \<open>The server's file for it, with chunks of the source only.\<close>

definition server_file :: "'s blake2b \<Rightarrow> world \<Rightarrow> bytes \<Rightarrow> bytes \<Rightarrow> bytes \<Rightarrow> ft_file \<Rightarrow> fsys \<Rightarrow> bool" where
  "server_file B w src uuid name f fs \<longleftrightarrow>
     (\<exists>dat bm. remote_state f fs dat bm) \<and>
     f_path f = path_append (w_uuid_str w uuid) name \<and>
     f_effective_path f = path_append (w_prefix w) (f_path f) \<and>
     unat (f_size f) = length src \<and> f_hash f = calc_hash_buf B src \<and>
     chunks_from src (remote_view f fs)"

definition missing :: "bytes \<Rightarrow> ft_file \<Rightarrow> fsys \<Rightarrow> nat set" where
  "missing src f fs = {..<chunk_count (length src)} - snd (remote_view f fs)"

definition data_msg :: "u16 \<Rightarrow> bytes \<Rightarrow> bytes \<Rightarrow> bytes \<Rightarrow> u16 \<Rightarrow> message" where
  "data_msg sq uuid name src i =
     message_init\<lparr>msg_type := MSGTYPE_FILE_CHUNK_DATA, seq_number := sq, client_uuid := uuid,
       file_name := name,
       chunk_data := \<lparr>cdata_idx = ucast i, cdata_data = chunk_at src (unat i), cdata_hash = []\<rparr>\<rparr>"

text \<open>Both sides are idle and the client has the file on offer.\<close>

definition both_idle :: "ft_file \<Rightarrow> bytes \<Rightarrow> bytes \<Rightarrow> session \<Rightarrow> bool" where
  "both_idle lf uuid name ss \<longleftrightarrow>
     rx_idle (ss_client_rx ss) \<and> rx_idle (ss_server_rx ss) \<and> cl_uuid (ss_client ss) = uuid \<and>
     client_files (ss_client ss) name = Some lf"

text \<open>\<open>k\<close> chunks are missing and one of them is on its way.\<close>

definition uploading ::
    "'s blake2b \<Rightarrow> world \<Rightarrow> ft_file \<Rightarrow> bytes \<Rightarrow> bytes \<Rightarrow> bytes \<Rightarrow> ft_file \<Rightarrow> nat \<Rightarrow> session \<Rightarrow> bool" where
  "uploading B w lf src uuid name f k ss \<longleftrightarrow>
     both_idle lf uuid name ss \<and> server_file B w src uuid name f (ss_server_fs ss) \<and>
     card (missing src f (ss_server_fs ss)) = k \<and>
     (\<exists>sq i. unat i \<in> missing src f (ss_server_fs ss) \<and>
        serialize (data_msg sq uuid name src i) [] = Inr (ss_up ss))"

text \<open>The server has the bytes of the source, and the client dropped the file.\<close>

definition uploaded :: "world \<Rightarrow> bytes \<Rightarrow> bytes \<Rightarrow> bytes \<Rightarrow> (bytes \<rightharpoonup> ft_file) \<Rightarrow> session \<Rightarrow> bool" where
  "uploaded w src uuid name offered ss \<longleftrightarrow>
     file_data (ss_server_fs ss)
       (canon (path_append (w_prefix w) (path_append (w_uuid_str w uuid) name))) = Some src \<and>
     client_files (ss_client ss) = offered(name := None) \<and> ss_up ss = []"

lemma server_answer:
  assumes ok: "upload_ok w lf src uuid name" and f: "server_file B w src uuid name f fs"
    and uuid: "client_uuid msg = uuid"
  shows "missing src f fs = {} \<Longrightarrow>
      answer B msg f (remote_view f fs) = buildMsgComplete (seq_number msg) uuid f"
    and "missing src f fs \<noteq> {} \<Longrightarrow>
      \<exists>i. unat i \<in> missing src f fs \<and>
        answer B msg f (remote_view f fs) = buildMsgChunkReq (seq_number msg + 1) uuid f i UINT16_MAX"
proof -
  let ?n = "chunk_count (length src)" and ?S = "snd (remote_view f fs)"
  have n: "chunk_count (unat (f_size f)) = ?n" and hash: "f_hash f = calc_hash_buf B src"
    and cf: "chunks_from src (remote_view f fs)"
    using f by (simp_all add: server_file_def)
  show "answer B msg f (remote_view f fs) = buildMsgComplete (seq_number msg) uuid f"
    if "missing src f fs = {}"
  proof -
    have all: "{..<?n} \<subseteq> ?S" using that by (auto simp: missing_def)
    then have "fst (remote_view f fs) = src" using chunks_from_all [OF cf] by (auto simp: lessThan_def)
    then show ?thesis using all by (simp add: answer_def n hash uuid)
  qed
  show "\<exists>i. unat i \<in> missing src f fs \<and>
      answer B msg f (remote_view f fs) = buildMsgChunkReq (seq_number msg + 1) uuid f i UINT16_MAX"
    if ne: "missing src f fs \<noteq> {}"
  proof -
    define j where "j = Min (missing src f fs)"
    have fin: "finite (missing src f fs)" by (simp add: missing_def)
    have j: "j \<in> missing src f fs" unfolding j_def using fin ne by (rule Min_in)
    then have jn: "j < ?n" "j \<notin> ?S" by (simp_all add: missing_def)
    have "k \<in> ?S" if "k < j" for k
    proof (rule ccontr)
      assume "k \<notin> ?S"
      then have "k \<in> missing src f fs" using that jn by (simp add: missing_def)
      then show False using Min_le [OF fin] that by (fastforce simp: j_def)
    qed
    then have "first_missing ?n ?S = word_of_nat j" using jn by (intro first_missing_eq)
    moreover have small: "j < 2 ^ 16" using jn ok by (simp add: upload_ok_def)
    then have "unat (word_of_nat j :: u16) = j" by (rule unat_of_nat_simps(2))
    moreover have "(ucast (word_of_nat j :: size_t) :: u16) = word_of_nat j"
      using small by (simp add: unsigned_of_nat take_bit_nat_eq_self)
    moreover have "\<not> {..<?n} \<subseteq> ?S" using jn by auto
    ultimately show ?thesis
      using j by (intro exI [of _ "word_of_nat j"]) (simp add: answer_def n uuid Let_def)
  qed
qed

text \<open>What arrives at the client, and the client's turn on it.\<close>

lemma filename_server:
  assumes "upload_ok w lf src uuid name" and "server_file B w src uuid name f fs"
  shows "path_filename (f_path f) = name"
proof -
  have "w_prefix w \<noteq> []" "last (w_prefix w) \<noteq> slash" "simple_name (w_uuid_str w uuid)" "simple_name name"
    using assms(1) by (simp_all add: upload_ok_def)
  from server_path(1) [OF this] show ?thesis using assms(2) by (simp add: server_file_def)
qed

lemma client_complete:
  assumes ok: "upload_ok w lf src uuid name" and f: "server_file B w src uuid name f fs"
    and cl: "cl_uuid cl = uuid" "client_files cl name = Some lf"
  obtains buf where "serialize (buildMsgComplete sq uuid f) [] = Inr buf"
    and "\<And>B' fs cs snds. Client_handleRequest B' fs cs snds cl (arrived 0 (buildMsgComplete sq uuid f) buf) =
      (cl\<lparr>client_files := (client_files cl)(name := None)\<rparr>, [], None)"
proof -
  obtain buf where buf: "serialize (buildMsgComplete sq uuid f) [] = Inr buf" using serialize_complete by blast
  have "length name \<le> UINT8_MAX" using ok by (simp add: upload_ok_def)
  then show thesis
    using that [OF buf] cl filename_server [OF ok f]
    by (simp add: Client_handleRequest_def getMessage_def arrived_def wire_view_def typed_fields_def
        buildMsgComplete_def Let_def)
qed

lemma client_chunk:
  assumes ok: "upload_ok w lf src uuid name" and f: "server_file B w src uuid name f fs"
    and cl: "cl_uuid cl = uuid" "client_files cl name = Some lf"
    and i: "unat i < chunk_count (length src)"
  obtains buf out where "serialize (buildMsgChunkReq sq uuid f i l) [] = Inr buf"
    and "serialize (data_msg sq uuid name src i) [] = Inr out"
    and "Client_handleRequest B' (w_client_fs w) (w_client_conns w) (w_client_sends w) cl
      (arrived 0 (buildMsgChunkReq sq uuid f i l) buf) = (cl, [(0, out)], None)"
proof -
  obtain buf where buf: "serialize (buildMsgChunkReq sq uuid f i l) [] = Inr buf"
    using serialize_chunk_req by blast
  let ?req = "arrived 0 (buildMsgChunkReq sq uuid f i l) buf"
  have "length name \<le> UINT8_MAX" using ok by (simp add: upload_ok_def)
  then have msg: "client_uuid (getMessage ?req) = uuid" "file_name (getMessage ?req) = name"
    "msg_type (getMessage ?req) = MSGTYPE_FILE_CHUNK_REQ" "seq_number (getMessage ?req) = sq"
    "chunk_idx_first (chunk_req (getMessage ?req)) = ucast i" "req_connection ?req = 0"
    using filename_server [OF ok f]
    by (simp_all add: getMessage_def arrived_def wire_view_def typed_fields_def buildMsgChunkReq_def)
  have loc: "local_state lf (w_client_fs w) src" and name: "path_filename (f_path lf) = name"
    and good: "good_conn (w_client_conns w) (w_client_sends w) (req_connection ?req)"
    using ok msg by (simp_all add: upload_ok_def)
  from Client_serves_chunk [OF loc _ refl _ msg(3,5) i good, of cl B'] msg(1,2,4,6) cl name
  obtain out where "serialize (data_msg sq uuid name src i) [] = Inr out"
    "Client_handleRequest B' (w_client_fs w) (w_client_conns w) (w_client_sends w) cl ?req =
      (cl, [(0, out)], None)"
    by (auto simp: data_msg_def)
  then show thesis using that buf by blast
qed

section \<open>One exchange\<close>

lemma server_file_done:
  assumes "server_file B w src uuid name f fs" and "missing src f fs = {}"
  shows "file_data fs (canon (path_append (w_prefix w) (path_append (w_uuid_str w uuid) name))) = Some src"
proof -
  obtain dat bm where st: "remote_state f fs dat bm" using assms(1) by (auto simp: server_file_def)
  have "fst (remote_view f fs) = src"
    using assms by (intro chunks_from_all) (auto simp: server_file_def missing_def)
  then have "dat = src" using remote_view_state [OF st] by simp
  then show ?thesis using remote_state_parts(8) [OF st] assms(1) by (simp add: server_file_def)
qed

text \<open>The server handles \<open>m\<close> and answers \<open>a\<close>, which the client handles in its turn.\<close>

abbreviation server_handler :: "'s blake2b \<Rightarrow> world \<Rightarrow> fsys handler" where
  "server_handler B w \<equiv>
     Server_handleRequest B (w_uuid_str w) (w_prefix w) (w_server_conns w) (w_server_sends w)"

abbreviation client_handler :: "'s blake2b \<Rightarrow> world \<Rightarrow> client handler" where
  "client_handler B w \<equiv> Client_handleRequest B (w_client_fs w) (w_client_conns w) (w_client_sends w)"

lemma exchange_run:
  assumes idle: "rx_idle (ss_server_rx ss)" "rx_idle (ss_client_rx ss)"
    and good: "good_conn (w_server_conns w) (w_server_sends w) 0"
    and m: "serialize m [] = Inr (ss_up ss)" "length (client_uuid m) = UUID_SIZE"
    and h: "server_handler B w (ss_server_fs ss) (arrived 0 m (ss_up ss)) =
      (fs', respond (w_server_conns w) (w_server_sends w) (arrived 0 m (ss_up ss)) (Some a))"
    and a: "serialize a [] = Inr buf" "length (client_uuid a) = UUID_SIZE"
    and c: "client_handler B w (ss_client ss) (arrived 0 a buf) = (cl', out, x)"
  obtains crx srx where "rx_idle crx" and "rx_idle srx" and "exchange B w ss =
      \<lparr>ss_client = cl', ss_client_rx = crx, ss_server_fs = fs', ss_server_rx = srx,
       ss_up = concat (map snd out),
       ss_errors = ss_errors ss @ (case x of None \<Rightarrow> [] | Some e \<Rightarrow> [e])\<rparr>"
proof -
  have "good_conn (w_server_conns w) (w_server_sends w) (req_connection (arrived 0 m (ss_up ss)))"
    using good by (simp add: arrived_def)
  then have "server_handler B w (ss_server_fs ss) (arrived 0 m (ss_up ss)) = (fs', [(0, buf)], None)"
    using h respond_sent [OF _ a(1)] by (simp add: arrived_def)
  from turn_message [where h = "server_handler B w", OF m idle(1) this] obtain srx where
    s: "rx_idle srx" "turn (server_handler B w) 0 (ss_up ss) (ss_server_rx ss) (ss_server_fs ss) =
      (srx, fs', buf, [])" by auto
  from turn_message [where h = "client_handler B w", OF a idle(2) c] obtain crx where
    "rx_idle crx" "turn (client_handler B w) 0 buf (ss_client_rx ss) (ss_client ss) =
      (crx, cl', concat (map snd out), (case x of None \<Rightarrow> [] | Some e \<Rightarrow> [e]))" by auto
  then show thesis using s by (intro that [of crx srx]) (simp_all add: exchange_def)
qed

text \<open>
  The server handled a message and answers from the state of the file: the exchange ends with
  the upload done, or with the next chunk on its way.
\<close>

definition answered :: "'s blake2b \<Rightarrow> world \<Rightarrow> bytes \<Rightarrow> ft_file \<Rightarrow> fsys \<Rightarrow> session \<Rightarrow> bool" where
  "answered B w uuid f fs' ss \<longleftrightarrow>
     (\<exists>m msg. serialize m [] = Inr (ss_up ss) \<and> length (client_uuid m) = UUID_SIZE \<and>
        client_uuid msg = uuid \<and>
        server_handler B w (ss_server_fs ss) (arrived 0 m (ss_up ss)) =
          (fs', respond (w_server_conns w) (w_server_sends w) (arrived 0 m (ss_up ss))
             (Some (answer B msg f (remote_view f fs')))))"

lemma upload_ok_parts:
  assumes "upload_ok w lf src uuid name"
  shows "good_conn (w_server_conns w) (w_server_sends w) 0" and "length uuid = UUID_SIZE"
    and "w_prefix w \<noteq> []" and "last (w_prefix w) \<noteq> slash" and "simple_name (w_uuid_str w uuid)"
    and "simple_name name" and "length name \<le> UINT8_MAX" and "length (f_hash lf) = HASH_SIZE"
    and "path_filename (f_path lf) = name" and "local_state lf (w_client_fs w) src"
    and "chunk_count (length src) \<le> 2 ^ 16" and "good_conn (w_client_conns w) (w_client_sends w) 0"
  using assms by (simp_all add: upload_ok_def)

lemma exchange_done:
  assumes ok: "upload_ok w lf src uuid name" and idle: "both_idle lf uuid name ss"
    and run: "answered B w uuid f fs' ss" and f: "server_file B w src uuid name f fs'"
    and none: "missing src f fs' = {}"
  shows "uploaded w src uuid name (client_files (ss_client ss)) (exchange B w ss) \<and>
    ss_errors (exchange B w ss) = ss_errors ss"
proof -
  have cl: "rx_idle (ss_client_rx ss)" "rx_idle (ss_server_rx ss)" "cl_uuid (ss_client ss) = uuid"
    "client_files (ss_client ss) name = Some lf" using idle by (simp_all add: both_idle_def)
  obtain m msg where m: "serialize m [] = Inr (ss_up ss)" "length (client_uuid m) = UUID_SIZE"
    "client_uuid msg = uuid"
    "server_handler B w (ss_server_fs ss) (arrived 0 m (ss_up ss)) =
      (fs', respond (w_server_conns w) (w_server_sends w) (arrived 0 m (ss_up ss))
        (Some (answer B msg f (remote_view f fs'))))" using run by (auto simp: answered_def)
  note a = server_answer(1) [OF ok f m(3) none]
  obtain buf where b: "serialize (buildMsgComplete (seq_number msg) uuid f) [] = Inr buf"
    "client_handler B w (ss_client ss) (arrived 0 (buildMsgComplete (seq_number msg) uuid f) buf) =
      ((ss_client ss)\<lparr>client_files := (client_files (ss_client ss))(name := None)\<rparr>, [], None)"
    using client_complete [OF ok f cl(3,4), of "seq_number msg"] by metis
  have u: "length (client_uuid (buildMsgComplete (seq_number msg) uuid f)) = UUID_SIZE"
    using upload_ok_parts(2) [OF ok] by (simp add: buildMsgComplete_def)
  obtain crx srx where x: "rx_idle crx" "rx_idle srx" "exchange B w ss =
      \<lparr>ss_client = (ss_client ss)\<lparr>client_files := (client_files (ss_client ss))(name := None)\<rparr>,
       ss_client_rx = crx, ss_server_fs = fs', ss_server_rx = srx, ss_up = concat (map snd ([] :: outgoing)),
       ss_errors = ss_errors ss @ (case None of None \<Rightarrow> [] | Some e \<Rightarrow> [e])\<rparr>"
    by (rule exchange_run [OF cl(2,1) upload_ok_parts(1) [OF ok] m(1,2) m(4) [unfolded a] b(1) u b(2)])
  show ?thesis unfolding x(3) using x(1,2) server_file_done [OF f none] by (auto simp: uploaded_def)
qed

lemma exchange_more:
  assumes ok: "upload_ok w lf src uuid name" and idle: "both_idle lf uuid name ss"
    and run: "answered B w uuid f fs' ss" and f: "server_file B w src uuid name f fs'"
    and some: "missing src f fs' \<noteq> {}"
  shows "uploading B w lf src uuid name f (card (missing src f fs')) (exchange B w ss) \<and>
    ss_client (exchange B w ss) = ss_client ss \<and> ss_errors (exchange B w ss) = ss_errors ss"
proof -
  have cl: "rx_idle (ss_client_rx ss)" "rx_idle (ss_server_rx ss)" "cl_uuid (ss_client ss) = uuid"
    "client_files (ss_client ss) name = Some lf" using idle by (simp_all add: both_idle_def)
  obtain m msg where m: "serialize m [] = Inr (ss_up ss)" "length (client_uuid m) = UUID_SIZE"
    "client_uuid msg = uuid"
    "server_handler B w (ss_server_fs ss) (arrived 0 m (ss_up ss)) =
      (fs', respond (w_server_conns w) (w_server_sends w) (arrived 0 m (ss_up ss))
        (Some (answer B msg f (remote_view f fs'))))" using run by (auto simp: answered_def)
  obtain i where i: "unat i \<in> missing src f fs'"
    and a: "answer B msg f (remote_view f fs') = buildMsgChunkReq (seq_number msg + 1) uuid f i UINT16_MAX"
    using server_answer(2) [OF ok f m(3) some] by blast
  then have lt: "unat i < chunk_count (length src)" by (simp add: missing_def)
  obtain buf out where b: "serialize (buildMsgChunkReq (seq_number msg + 1) uuid f i UINT16_MAX) [] = Inr buf"
      "serialize (data_msg (seq_number msg + 1) uuid name src i) [] = Inr out"
      "client_handler B w (ss_client ss)
         (arrived 0 (buildMsgChunkReq (seq_number msg + 1) uuid f i UINT16_MAX) buf) =
        (ss_client ss, [(0, out)], None)"
    using client_chunk [OF ok f cl(3,4) lt] by metis
  have u: "length (client_uuid (buildMsgChunkReq (seq_number msg + 1) uuid f i UINT16_MAX)) = UUID_SIZE"
    using upload_ok_parts(2) [OF ok] by (simp add: buildMsgChunkReq_def)
  obtain crx srx where x: "rx_idle crx" "rx_idle srx" "exchange B w ss =
      \<lparr>ss_client = ss_client ss,
       ss_client_rx = crx, ss_server_fs = fs', ss_server_rx = srx, ss_up = concat (map snd [(0 :: nat, out)]),
       ss_errors = ss_errors ss @ (case None of None \<Rightarrow> [] | Some e \<Rightarrow> [e])\<rparr>"
    by (rule exchange_run [OF cl(2,1) upload_ok_parts(1) [OF ok] m(1,2) m(4) [unfolded a] b(1) u b(3)])
  show ?thesis unfolding x(3) using x(1,2) f cl i b(2) by (auto simp: uploading_def both_idle_def)
qed

section \<open>Saving the chunk that is on its way\<close>

lemma data_msg_arrives:
  assumes "length name \<le> UINT8_MAX"
  shows "getMessage (arrived 0 (data_msg sq uuid name src i) up) =
    wire_view (data_msg sq uuid name src i) (word_of_nat (length up - 6))"
    and "msg_type (wire_view (data_msg sq uuid name src i) l) = MSGTYPE_FILE_CHUNK_DATA"
    and "client_uuid (wire_view (data_msg sq uuid name src i) l) = uuid"
    and "file_name (wire_view (data_msg sq uuid name src i) l) = name"
    and "cdata_idx (chunk_data (wire_view (data_msg sq uuid name src i) l)) = ucast i"
    and "cdata_data (chunk_data (wire_view (data_msg sq uuid name src i) l)) = chunk_at src (unat i)"
  using assms by (simp_all add: getMessage_def arrived_def wire_view_def typed_fields_def data_msg_def)

lemma server_file_view:
  assumes "server_file B w src uuid name f fs"
  shows "snd (remote_view f fs) \<subseteq> {..<chunk_count (length src)}"
proof -
  obtain dat bm where st: "remote_state f fs dat bm" using assms by (auto simp: server_file_def)
  show ?thesis using remote_view_state [OF st] assms by (auto simp: server_file_def)
qed

lemma server_file_save:
  assumes f: "server_file B w src uuid name f fs" and st: "remote_state f fs' dat bm"
    and i: "i < chunk_count (length src)"
    and view: "remote_view f fs' = save_spec (length src) i (chunk_at src i) (remote_view f fs)"
  shows "server_file B w src uuid name f fs'" and "missing src f fs' = missing src f fs - {i}"
proof -
  have cf: "chunks_from src (remote_view f fs)" using f by (simp add: server_file_def)
  have sub: "snd (remote_view f fs) \<subseteq> {j. j < chunk_count (length src)}"
    using server_file_view [OF f] by auto
  have "chunks_from src (remote_view f fs')" unfolding view using cf sub i by (rule chunks_from_save)
  then show "server_file B w src uuid name f fs'" using f st by (auto simp: server_file_def)
  have "snd (remote_view f fs') = insert i (snd (remote_view f fs))"
    unfolding view using i by (simp add: save_spec_def chunk_at_len chunk_count_iff)
  then show "missing src f fs' = missing src f fs - {i}" by (auto simp: missing_def)
qed

lemma data_handled:
  assumes ok: "upload_ok w lf src uuid name" and B: "blake2b_laws B"
    and f: "server_file B w src uuid name f fs" and i: "unat i \<in> missing src f fs"
  obtains fs' msg where "client_uuid msg = uuid"
    and "server_handler B w fs (arrived 0 (data_msg sq uuid name src i) buf) =
      (fs', respond (w_server_conns w) (w_server_sends w) (arrived 0 (data_msg sq uuid name src i) buf)
        (Some (answer B msg f (remote_view f fs'))))"
    and "server_file B w src uuid name f fs'" and "missing src f fs' = missing src f fs - {unat i}"
proof -
  note name = data_msg_arrives [OF upload_ok_parts(7) [OF ok]]
  obtain dat bm where st: "remote_state f fs dat bm" using f by (auto simp: server_file_def)
  let ?msg = "wire_view (data_msg sq uuid name src i) (word_of_nat (length buf - 6))"
  let ?req = "arrived 0 (data_msg sq uuid name src i) buf"
  have srv: "serves (w_prefix w) (w_uuid_str w) ?msg f"
    using f by (simp add: serves_def server_file_def name)
  obtain fs' dat' bm' where fs': "remote_state f fs' dat' bm'"
    "remote_view f fs' = save_spec (length src) (unat i) (chunk_at src (unat i)) (remote_view f fs)"
    "server_handler B w fs ?req = (fs', respond (w_server_conns w) (w_server_sends w) ?req
      (Some (answer B ?msg f (remote_view f fs'))))"
    using Server_chunk_data [OF st B name(1,2) srv, of "w_server_conns w" "w_server_sends w"] f
    by (auto simp: name server_file_def)
  have "unat i < chunk_count (length src)" using i by (simp add: missing_def)
  from server_file_save [OF f fs'(1) this fs'(2)] show thesis using that [of ?msg fs'] name(3) fs'(3) by blast
qed

lemma uploading_answered:
  assumes ok: "upload_ok w lf src uuid name" and B: "blake2b_laws B"
    and up: "uploading B w lf src uuid name f (Suc k) ss"
  obtains fs' where "answered B w uuid f fs' ss" and "server_file B w src uuid name f fs'"
    and "card (missing src f fs') = k"
proof -
  have f: "server_file B w src uuid name f (ss_server_fs ss)"
    and card: "card (missing src f (ss_server_fs ss)) = Suc k" using up by (simp_all add: uploading_def)
  obtain sq i where i: "unat i \<in> missing src f (ss_server_fs ss)"
    and m: "serialize (data_msg sq uuid name src i) [] = Inr (ss_up ss)"
    using up by (auto simp: uploading_def)
  obtain fs' msg where h: "client_uuid msg = uuid"
    "server_handler B w (ss_server_fs ss) (arrived 0 (data_msg sq uuid name src i) (ss_up ss)) =
      (fs', respond (w_server_conns w) (w_server_sends w) (arrived 0 (data_msg sq uuid name src i) (ss_up ss))
        (Some (answer B msg f (remote_view f fs'))))"
    "server_file B w src uuid name f fs'" "missing src f fs' = missing src f (ss_server_fs ss) - {unat i}"
    by (rule data_handled [OF ok B f i])
  have "answered B w uuid f fs' ss"
    unfolding answered_def using m h(1,2) upload_ok_parts(2) [OF ok]
    by (intro exI conjI) (simp_all add: data_msg_def)
  moreover have "card (missing src f fs') = k" using h(4) card i by (simp add: missing_def)
  ultimately show thesis using that h(3) by blast
qed

text \<open>One exchange per missing chunk finishes the upload.\<close>

lemma upload_run:
  assumes ok: "upload_ok w lf src uuid name" and B: "blake2b_laws B"
    and up: "uploading B w lf src uuid name f (Suc k) ss"
  shows "uploaded w src uuid name (client_files (ss_client ss)) ((exchange B w ^^ Suc k) ss) \<and>
    ss_errors ((exchange B w ^^ Suc k) ss) = ss_errors ss"
  using up
proof (induction k arbitrary: ss)
  case 0
  obtain fs' where fs': "answered B w uuid f fs' ss" "server_file B w src uuid name f fs'"
    "card (missing src f fs') = 0" using uploading_answered [OF ok B 0] by blast
  then have "missing src f fs' = {}" by (simp add: missing_def)
  then show ?case using exchange_done [OF ok _ fs'(1,2)] 0 by (simp add: uploading_def)
next
  case (Suc k)
  obtain fs' where fs': "answered B w uuid f fs' ss" "server_file B w src uuid name f fs'"
    "card (missing src f fs') = Suc k" using uploading_answered [OF ok B Suc.prems] by blast
  then have "missing src f fs' \<noteq> {}" by auto
  then have "uploading B w lf src uuid name f (Suc k) (exchange B w ss)"
    "ss_client (exchange B w ss) = ss_client ss" "ss_errors (exchange B w ss) = ss_errors ss"
    using exchange_more [OF ok _ fs'(1,2)] Suc.prems fs'(3) by (simp_all add: uploading_def)
  from Suc.IH [OF this(1)] this(2,3) show ?case by (simp add: funpow_swap1)
qed

section \<open>From the offer on\<close>

text \<open>After the offer was handled: the answer starts the transfer or completes it at once.\<close>

lemma offer_run:
  assumes ok: "upload_ok w lf src uuid name" and B: "blake2b_laws B"
    and idle: "both_idle lf uuid name ss" and run: "answered B w uuid f fs' ss"
    and f: "server_file B w src uuid name f fs'"
  shows "uploaded w src uuid name (client_files (ss_client ss))
      ((exchange B w ^^ Suc (card (missing src f fs'))) ss) \<and>
    ss_errors ((exchange B w ^^ Suc (card (missing src f fs'))) ss) = ss_errors ss"
proof (cases "card (missing src f fs')")
  case 0
  then have "missing src f fs' = {}" by (simp add: missing_def)
  then show ?thesis using exchange_done [OF ok idle run f] 0 by simp
next
  case (Suc k)
  then have "missing src f fs' \<noteq> {}" by auto
  then have "uploading B w lf src uuid name f (Suc k) (exchange B w ss)"
    "ss_client (exchange B w ss) = ss_client ss" "ss_errors (exchange B w ss) = ss_errors ss"
    using exchange_more [OF ok idle run f] Suc by simp_all
  from upload_run [OF ok B this(1)] this(2,3) show ?thesis by (simp add: Suc funpow_swap1)
qed

lemma chunk_limit: "chunk_count n \<le> 2 ^ 16 \<Longrightarrow> n < 2 ^ 32"
  using chunk_count_iff [of "2 ^ 16" n] by simp

lemma offer_arrives:
  fixes sq l :: u16
  assumes ok: "upload_ok w lf src uuid name"
  defines "msg \<equiv> wire_view (buildMsgOffer sq uuid lf) l"
  shows "msg_type msg = MSGTYPE_FILE_OFFER" and "client_uuid msg = uuid" and "file_name msg = name"
    and "offer_file_hash (offer msg) = f_hash lf"
    and "unat (offer_file_size (offer msg)) = length src"
    and "ucast (offer_file_size (offer msg)) = f_size lf"
proof -
  note parts = upload_ok_parts [OF ok]
  show "msg_type msg = MSGTYPE_FILE_OFFER" "client_uuid msg = uuid" "file_name msg = name"
    "offer_file_hash (offer msg) = f_hash lf"
    using parts by (simp_all add: msg_def wire_view_def typed_fields_def buildMsgOffer_def)
  have src: "length src < 2 ^ 32" using parts(11) by (rule chunk_limit)
  have sz: "f_size lf = word_of_nat (length src)" using parts(10) by (simp add: local_state_def)
  have o: "offer_file_size (offer msg) = word_of_nat (length src)"
    using src by (simp add: msg_def wire_view_def typed_fields_def buildMsgOffer_def sz unsigned_of_nat
        take_bit_nat_eq_self)
  then show len: "unat (offer_file_size (offer msg)) = length src"
    using unat_of_nat_simps(3) [OF src] by simp
  show "ucast (offer_file_size (offer msg)) = f_size lf"
    using src by (simp add: o sz unsigned_of_nat take_bit_nat_eq_self)
qed

text \<open>The client has sent the offer.\<close>

definition offer_sent :: "ft_file \<Rightarrow> bytes \<Rightarrow> session \<Rightarrow> bool" where
  "offer_sent lf uuid ss \<longleftrightarrow> (\<exists>sq. serialize (buildMsgOffer sq uuid lf) [] = Inr (ss_up ss))"

lemma offer_answered:
  assumes ok: "upload_ok w lf src uuid name" and m: "serialize (buildMsgOffer sq uuid lf) [] = Inr (ss_up ss)"
    and h: "client_uuid msg = uuid"
      "server_handler B w (ss_server_fs ss) (arrived 0 (buildMsgOffer sq uuid lf) (ss_up ss)) =
      (fs', respond (w_server_conns w) (w_server_sends w) (arrived 0 (buildMsgOffer sq uuid lf) (ss_up ss))
        (Some (answer B msg f (remote_view f fs'))))"
  shows "answered B w uuid f fs' ss"
  unfolding answered_def using m h upload_ok_parts(2) [OF ok]
  by (intro exI conjI) (simp_all add: buildMsgOffer_def)

lemma offer_known:
  assumes ok: "upload_ok w lf src uuid name" and B: "blake2b_laws B"
    and f: "server_file B w src uuid name f fs" and hash: "f_hash lf = calc_hash_buf B src"
  obtains msg where "client_uuid msg = uuid"
    and "server_handler B w fs (arrived 0 (buildMsgOffer sq uuid lf) buf) =
      (fs, respond (w_server_conns w) (w_server_sends w) (arrived 0 (buildMsgOffer sq uuid lf) buf)
        (Some (answer B msg f (remote_view f fs))))"
proof -
  let ?l = "word_of_nat (length buf - 6)"
  let ?msg = "wire_view (buildMsgOffer sq uuid lf) ?l"
  note o = offer_arrives [OF ok, of sq ?l]
  obtain dat bm where st: "remote_state f fs dat bm" using f by (auto simp: server_file_def)
  have "f_size f = f_size lf"
    using f upload_ok_parts(10,11) [OF ok] chunk_limit
    by (metis local_state_def server_file_def word_unat_eq_iff o(5) o(6) unat_ucast_simps(6))
  then have "server_handler B w fs (arrived 0 (buildMsgOffer sq uuid lf) buf) =
      (fs, respond (w_server_conns w) (w_server_sends w) (arrived 0 (buildMsgOffer sq uuid lf) buf)
        (Some (answer B ?msg f (remote_view f fs))))"
    using f hash o Server_offer_again [OF st B, of "arrived 0 (buildMsgOffer sq uuid lf) buf" ?msg]
    by (simp add: getMessage_def arrived_def serves_def server_file_def)
  then show thesis using that o(2) by blast
qed

lemma offer_resumed:
  assumes ok: "upload_ok w lf src uuid name" and B: "blake2b_laws B" and sent: "offer_sent lf uuid ss"
    and f: "server_file B w src uuid name f (ss_server_fs ss)" and hash: "f_hash lf = calc_hash_buf B src"
  shows "answered B w uuid f (ss_server_fs ss) ss"
proof -
  obtain sq where m: "serialize (buildMsgOffer sq uuid lf) [] = Inr (ss_up ss)"
    using sent by (auto simp: offer_sent_def)
  show ?thesis by (rule offer_known [OF ok B f hash, of sq "ss_up ss"]) (rule offer_answered [OF ok m])
qed

lemma place_meta:
  assumes "upload_ok w lf src uuid name"
  shows "canon (metadata_path (path_append (w_prefix w) (path_append (w_uuid_str w uuid) name))) =
    canon (w_prefix w) @ [w_uuid_str w uuid, meta_name name]"
proof -
  note parts = upload_ok_parts [OF assms]
  let ?msg = "message_init\<lparr>client_uuid := uuid, file_name := name\<rparr>"
  show ?thesis
    using server_target_plain [of "w_prefix w" "w_uuid_str w" ?msg] server_path(4) [OF parts(3-6)] parts
    by (auto simp: target_keys_def target_def doubleton_eq_iff)
qed

lemma offer_new:
  assumes ok: "upload_ok w lf src uuid name" and B: "blake2b_laws B"
    and hash: "f_hash lf = calc_hash_buf B src"
    and dirs: "create_directories fs (w_prefix w @ slash # w_uuid_str w uuid) = (Inr u, fs1)"
    and new: "node_at fs1 (canon (w_prefix w) @ [w_uuid_str w uuid, name]) = None"
      "blank_meta (path_append (w_prefix w) (path_append (w_uuid_str w uuid) name)) (f_size lf) (f_hash lf) fs1"
  obtains f fs' msg where "client_uuid msg = uuid"
    and "server_handler B w fs (arrived 0 (buildMsgOffer sq uuid lf) buf) =
      (fs', respond (w_server_conns w) (w_server_sends w) (arrived 0 (buildMsgOffer sq uuid lf) buf)
        (Some (answer B msg f (remote_view f fs'))))"
    and "server_file B w src uuid name f fs'" and "snd (remote_view f fs') = {}"
proof -
  let ?l = "word_of_nat (length buf - 6)"
  let ?msg = "wire_view (buildMsgOffer sq uuid lf) ?l"
  let ?req = "arrived 0 (buildMsgOffer sq uuid lf) buf"
  note o = offer_arrives [OF ok, of sq ?l] and parts = upload_ok_parts [OF ok]
  let ?e = "path_append (w_prefix w) (path_append (w_uuid_str w uuid) name)"
  note path = server_path [OF parts(3-6)]
  have n: "blank_meta ?e (ucast (offer_file_size (offer ?msg))) (offer_file_hash (offer ?msg)) fs1"
      "node_at fs1 (canon ?e) = None"
    using new path(4) o by simp_all
  have req: "getMessage ?req = ?msg" by (simp add: getMessage_def arrived_def)
  have hl: "length (offer_file_hash (offer ?msg)) = HASH_SIZE" using o parts by simp
  have e: "?e = path_append (w_prefix w) (path_append (w_uuid_str w (client_uuid ?msg)) (file_name ?msg))"
    by (simp add: o)
  obtain f fs' dat bm where f: "remote_state f fs' dat bm" "serves (w_prefix w) (w_uuid_str w) ?msg f"
    "f_hash f = f_hash lf" "f_size f = f_size lf"
    "remote_view f fs' = (replicate (length src) 0, {})"
    "server_handler B w fs ?req = (fs', respond (w_server_conns w) (w_server_sends w) ?req
      (Some (answer B ?msg f (remote_view f fs'))))"
    using Server_offer_fresh [where ustr = "w_uuid_str w" and prefix = "w_prefix w", OF B req o(1) hl path(2) e dirs n, of "w_server_conns w" "w_server_sends w"] o
    by metis
  have "unat (f_size f) = length src" using f(4) o(5,6) by (metis unat_ucast_simps(6))
  then have "server_file B w src uuid name f fs'"
    using f hash o by (auto simp: server_file_def serves_def chunks_from_def)
  then show thesis using that [OF o(2) f(6)] f(5) by simp
qed

lemma offer_fresh:
  assumes ok: "upload_ok w lf src uuid name" and B: "blake2b_laws B" and sent: "offer_sent lf uuid ss"
    and hash: "f_hash lf = calc_hash_buf B src"
    and dirs: "create_directories (ss_server_fs ss) (w_prefix w @ slash # w_uuid_str w uuid) = (Inr u, fs1)"
    and new: "node_at fs1 (canon (w_prefix w) @ [w_uuid_str w uuid, name]) = None"
      "node_at fs1 (canon (w_prefix w) @ [w_uuid_str w uuid, meta_name name]) = None"
  obtains f fs' where "answered B w uuid f fs' ss" and "server_file B w src uuid name f fs'"
    and "missing src f fs' = {..<chunk_count (length src)}"
proof -
  obtain sq where m: "serialize (buildMsgOffer sq uuid lf) [] = Inr (ss_up ss)"
    using sent by (auto simp: offer_sent_def)
  show thesis
  proof (rule offer_new [OF ok B hash dirs new(1) _, of sq "ss_up ss"])
    fix f fs' msg
    assume h: "client_uuid msg = uuid" "server_handler B w (ss_server_fs ss)
        (arrived 0 (buildMsgOffer sq uuid lf) (ss_up ss)) =
        (fs', respond (w_server_conns w) (w_server_sends w) (arrived 0 (buildMsgOffer sq uuid lf) (ss_up ss))
          (Some (answer B msg f (remote_view f fs'))))"
      and f: "server_file B w src uuid name f fs'" "snd (remote_view f fs') = {}"
    from that [OF offer_answered [OF ok m h] f(1)] f(2) show thesis by (simp add: missing_def)
  qed (use new(2) place_meta [OF ok] in \<open>simp add: blank_meta_absent\<close>)
qed

section \<open>An offer that contradicts the stored file\<close>

text \<open>
  The server takes no chunk for missing and yet does not find the file complete: it asks for chunk
  65535, which the client does not have.
\<close>

lemma exchange_past_end:
  assumes ok: "upload_ok w lf src uuid name" and idle: "both_idle lf uuid name ss"
    and m: "serialize (buildMsgOffer sq uuid lf) [] = Inr (ss_up ss)"
    and h: "server_handler B w (ss_server_fs ss) (arrived 0 (buildMsgOffer sq uuid lf) (ss_up ss)) =
      (fs', respond (w_server_conns w) (w_server_sends w) (arrived 0 (buildMsgOffer sq uuid lf) (ss_up ss))
        (Some (buildMsgChunkReq sq' uuid f' UINT16_MAX UINT16_MAX)))"
    and f': "f_path f' = path_append (w_uuid_str w uuid) name" and few: "length src < 65535 * CHUNK"
  shows "ss_server_fs (exchange B w ss) = fs' \<and> ss_client (exchange B w ss) = ss_client ss \<and>
    ss_up (exchange B w ss) = [] \<and>
    ss_errors (exchange B w ss) = ss_errors ss @ [Range_error ''Chunk index outside file length range'']"
proof -
  note parts = upload_ok_parts [OF ok]
  let ?a = "buildMsgChunkReq sq' uuid f' UINT16_MAX UINT16_MAX"
  obtain buf where buf: "serialize ?a [] = Inr buf" using serialize_chunk_req by blast
  have name: "path_filename (f_path f') = name" using server_path(1) [OF parts(3-6)] f' by simp
  have c: "client_handler B w (ss_client ss) (arrived 0 ?a buf) =
      (ss_client ss, [], Some (Range_error ''Chunk index outside file length range''))"
  proof (rule Client_past_end [OF parts(10), where i = UINT16_MAX])
    show "length src < unat UINT16_MAX * CHUNK" unfolding unat_UINT16_MAX using few by simp
  qed (use idle parts(7) name in \<open>simp_all add: both_idle_def getMessage_def arrived_def wire_view_def
      typed_fields_def buildMsgChunkReq_def\<close>)
  have rx: "rx_idle (ss_server_rx ss)" "rx_idle (ss_client_rx ss)" using idle by (simp_all add: both_idle_def)
  have u: "length (client_uuid (buildMsgOffer sq uuid lf)) = UUID_SIZE" "length (client_uuid ?a) = UUID_SIZE"
    using parts(2) by (simp_all add: buildMsgOffer_def buildMsgChunkReq_def)
  obtain crx srx where "exchange B w ss =
      \<lparr>ss_client = ss_client ss, ss_client_rx = crx, ss_server_fs = fs', ss_server_rx = srx,
       ss_up = concat (map snd ([] :: outgoing)), ss_errors = ss_errors ss @
         (case Some (Range_error ''Chunk index outside file length range'') of None \<Rightarrow> [] | Some e \<Rightarrow> [e])\<rparr>"
    by (rule exchange_run [OF rx parts(1) m u(1) h buf u(2) c])
  then show ?thesis by simp
qed

lemma stale_exchange:
  assumes ok: "upload_ok w lf src uuid name" and B: "blake2b_laws B" and sent: "offer_sent lf uuid ss"
    and idle: "both_idle lf uuid name ss"
    and st: "remote_state f (ss_server_fs ss) dat bm"
    and f: "f_path f = path_append (w_uuid_str w uuid) name"
      "f_effective_path f = path_append (w_prefix w) (f_path f)" "unat (f_size f) = length src"
    and all: "\<And>i. i < chunk_count (length src) \<Longrightarrow> chunk_bit bm i"
    and other: "calc_hash_buf B dat \<noteq> f_hash lf" and few: "length src < 65535 * CHUNK"
  shows "ss_server_fs (exchange B w ss) = ss_server_fs ss \<and> ss_client (exchange B w ss) = ss_client ss \<and>
    ss_up (exchange B w ss) = [] \<and>
    ss_errors (exchange B w ss) = ss_errors ss @ [Range_error ''Chunk index outside file length range'']"
proof -
  note parts = upload_ok_parts [OF ok]
  obtain sq where m: "serialize (buildMsgOffer sq uuid lf) [] = Inr (ss_up ss)"
    using sent by (auto simp: offer_sent_def)
  let ?l = "word_of_nat (length (ss_up ss) - 6)"
  let ?msg = "wire_view (buildMsgOffer sq uuid lf) ?l"
  let ?req = "arrived 0 (buildMsgOffer sq uuid lf) (ss_up ss)"
  note o = offer_arrives [OF ok, of sq ?l]
  have req: "getMessage ?req = ?msg" by (simp add: getMessage_def arrived_def)
  have srv: "serves (w_prefix w) (w_uuid_str w) ?msg f" using f o by (simp add: serves_def)
  have hl: "length (offer_file_hash (offer ?msg)) = HASH_SIZE" using o parts by simp
  have sz: "ucast (offer_file_size (offer ?msg)) = f_size f"
    using o(5) f(3) by (simp add: word_unat_eq_iff)
  have ne: "calc_hash_buf B dat \<noteq> offer_file_hash (offer ?msg)" using other o by simp
  obtain f' where f': "f_path f' = f_path f" and h: "server_handler B w (ss_server_fs ss) ?req =
      (ss_server_fs ss, respond (w_server_conns w) (w_server_sends w) ?req
        (Some (buildMsgChunkReq (seq_number ?msg + 1) (client_uuid ?msg) f' UINT16_MAX UINT16_MAX)))"
    using Server_offer_stale [OF st B req o(1) srv hl sz ne, of "w_server_conns w" "w_server_sends w"] all f(3)
    by metis
  show ?thesis by (rule exchange_past_end [OF ok idle m h [unfolded o(2)] _ few]) (simp add: f' f(1))
qed

section \<open>Starting an upload\<close>

text \<open>The surroundings of an upload, apart from the file itself.\<close>

definition plain_world :: "world \<Rightarrow> bytes \<Rightarrow> bytes \<Rightarrow> bool" where
  "plain_world w uuid name \<longleftrightarrow>
     simple_name name \<and> length name \<le> UINT8_MAX \<and> length uuid = UUID_SIZE \<and>
     simple_name (w_uuid_str w uuid) \<and> w_prefix w \<noteq> [] \<and> last (w_prefix w) \<noteq> slash \<and>
     good_conn (w_client_conns w) (w_client_sends w) 0 \<and>
     good_conn (w_server_conns w) (w_server_sends w) 0"

definition start_session :: "client \<Rightarrow> rx \<Rightarrow> fsys \<Rightarrow> rx \<Rightarrow> outgoing \<Rightarrow> session" where
  "start_session cl crx fs srx out =
     \<lparr>ss_client = cl, ss_client_rx = crx, ss_server_fs = fs, ss_server_rx = srx,
      ss_up = concat (map snd out), ss_errors = []\<rparr>"

lemma local_file_ready:
  assumes B: "blake2b_laws B" and lf: "makeLocalFile B [] (w_client_fs w) p = Inr lf"
    and src: "file_data (w_client_fs w) (canon p) = Some src" "chunk_count (length src) \<le> 2 ^ 16"
    and w: "plain_world w uuid (path_filename p)"
  shows "upload_ok w lf src uuid (path_filename p)" and "f_hash lf = calc_hash_buf B src"
    and "f_path lf = p"
proof -
  have p: "path_append [] p = p" by (simp add: path_append_def)
  have "length src < 2 ^ 63" using chunk_limit [OF src(2)] by simp
  then have "\<exists>src'. local_state lf (w_client_fs w) src' \<and>
      f_hash lf = calc_hash_file B (w_client_fs w) p \<and> f_path lf = p"
    using makeLocalFile_state [OF lf] src(1) by (simp add: p)
  moreover have "f_effective_path lf = p"
    using lf by (auto simp: p makeLocalFile_def Let_def split: if_splits)
  ultimately obtain src' where lf': "local_state lf (w_client_fs w) src'" "f_path lf = p"
      "f_hash lf = calc_hash_file B (w_client_fs w) p" "f_effective_path lf = p" by blast
  then have "src' = src" using src(1) by (simp add: local_state_def)
  moreover have "f_hash lf = calc_hash_buf B src"
    using lf' src(1) calc_hash_file_eq [OF B _ src(1)] by (simp add: local_state_def)
  moreover from this have "length (f_hash lf) = HASH_SIZE"
    using calc_hash_buf_length [OF B] by (simp add: HASH_SIZE_def)
  ultimately show "upload_ok w lf src uuid (path_filename p)" "f_hash lf = calc_hash_buf B src" "f_path lf = p"
    using lf' src(2) w by (simp_all add: upload_ok_def plain_world_def)
qed

lemma offer_starts:
  assumes ok: "upload_ok w lf src uuid name" and cl: "cl_uuid cl = uuid" "client_files cl name = None"
    and offer: "Client_offer (w_client_conns w) (w_client_sends w) cl 0 lf = (cl', out, x)"
    and rx: "rx_idle crx" "rx_idle srx"
  shows "both_idle lf uuid name (start_session cl' crx fs srx out)"
    and "offer_sent lf uuid (start_session cl' crx fs srx out)"
    and "client_files cl' = (client_files cl)(name \<mapsto> lf)"
proof -
  note parts = upload_ok_parts [OF ok]
  obtain buf where "serialize (buildMsgOffer 1 uuid lf) [] = Inr buf"
    "Client_offer (w_client_conns w) (w_client_sends w) cl 0 lf =
      (cl\<lparr>client_files := (client_files cl)(name \<mapsto> lf)\<rparr>, [(0, buf)], None)"
    using Client_offer_sent [OF parts(12,8), of cl] cl parts(9) by metis
  then show "both_idle lf uuid name (start_session cl' crx fs srx out)"
    "offer_sent lf uuid (start_session cl' crx fs srx out)"
    "client_files cl' = (client_files cl)(name \<mapsto> lf)"
    using offer cl rx by (auto simp: both_idle_def offer_sent_def start_session_def)
qed

section \<open>A small world\<close>

definition sample_world :: world where
  "sample_world = \<lparr>w_uuid_str = (\<lambda>_. ascii ''d''), w_prefix = SERVER_BASE_PATH,
     w_client_fs = [[ascii ''f''] \<mapsto> Regular [7, 8, 9]],
     w_client_conns = sample_conns, w_client_sends = sample_sends,
     w_server_conns = sample_conns, w_server_sends = sample_sends\<rparr>"

definition sample_new_client :: client where
  "sample_new_client = \<lparr>cl_uuid = replicate UUID_SIZE 0, client_files = Map.empty\<rparr>"

definition sample_upload :: ft_file where
  "sample_upload = FileLocal (ascii ''/f'') (calc_hash_buf b2_concat [7, 8, 9]) 3 (ascii ''/f'')"

lemma sample_f: "canon (ascii ''/f'') = [ascii ''f'']" "path_filename (ascii ''/f'') = ascii ''f''"
  by (simp_all add: canon_def path_filename_def ascii_def)

lemma sample_plain: "plain_world sample_world (replicate UUID_SIZE 0) (path_filename (ascii ''/f''))"
proof -
  have "simple_name (ascii ''d'')" "simple_name (ascii ''f'')" "length (ascii ''f'') \<le> 255"
    "ascii ''/in'' \<noteq> []" "last (ascii ''/in'') \<noteq> slash"
    by (simp_all add: simple_name_def ascii_def)
  then show ?thesis
    by (simp add: plain_world_def sample_world_def SERVER_BASE_PATH_def sample_f sample_good)
qed

lemma sample_src: "file_data (w_client_fs sample_world) (canon (ascii ''/f'')) = Some [7, 8, 9]"
  by (simp add: sample_world_def sample_f file_data_def node_at_def)

lemma sample_made: "makeLocalFile b2_concat [] (w_client_fs sample_world) (ascii ''/f'') = Inr sample_upload"
proof -
  have ne: "ascii ''/f'' \<noteq> []" by (simp add: ascii_def)
  have p: "path_append [] (ascii ''/f'') = ascii ''/f''" by (simp add: path_append_def)
  have "is_regular_file (w_client_fs sample_world) (ascii ''/f'')"
    "fs_exists (w_client_fs sample_world) (ascii ''/f'')"
    "fs_file_size (w_client_fs sample_world) (ascii ''/f'') = 3"
    using ne sample_src file_data_node_at [THEN iffD1, OF sample_src]
    by (simp_all add: is_regular_file_def fs_exists_def fs_file_size_def)
  then show ?thesis
    using calc_hash_file_eq [OF b2_concat_laws ne sample_src]
    by (simp add: makeLocalFile_def Let_def p sample_upload_def)
qed

lemma sample_server_dirs:
  "create_directories Map.empty (w_prefix sample_world @ slash # w_uuid_str sample_world u) =
    (Inr (), [[ascii ''in''] \<mapsto> Dir, [ascii ''in'', ascii ''d''] \<mapsto> Dir])"
  by (simp add: create_directories_def canon_def sample_world_def SERVER_BASE_PATH_def ascii_def)

lemma sample_prefix: "canon (w_prefix sample_world) = [ascii ''in'']"
  by (simp add: canon_def sample_world_def SERVER_BASE_PATH_def ascii_def)

lemma sample_rx_idle: "rx_idle sample_rx"
  by (simp add: rx_idle_def sample_rx_def broker_init_def startWorkers_def)

text \<open>A three-byte file of the client \<open>d\<close> in the server's directory, with any contents and bitmap.\<close>

definition stored_meta :: "bytes \<Rightarrow> file_metadata" where
  "stored_meta h = \<lparr>fm_effective_path = ascii ''/in/d/f'', fm_file_size = 3, fm_chunk_size = 3968,
     fm_hash = h, fm_n_chunks = 1, fm_header_size = 80, fm_bitmap_size = 1,
     fm_metadata_file = metadata_path (ascii ''/in/d/f'')\<rparr>"

definition stored :: "bytes \<Rightarrow> ft_file" where
  "stored h = FileRemote (ascii ''d/f'') h 3 (ascii ''/in/d/f'') (stored_meta h)"

definition stored_fs :: "bytes \<Rightarrow> bytes \<Rightarrow> bytes \<Rightarrow> fsys" where
  "stored_fs h dat bm = [[ascii ''in''] \<mapsto> Dir, [ascii ''in'', ascii ''d''] \<mapsto> Dir,
     [ascii ''in'', ascii ''d'', ascii ''.f.meta''] \<mapsto> Regular (meta_header (stored_meta h) @ bm),
     [ascii ''in'', ascii ''d'', ascii ''f''] \<mapsto> Regular dat]"

lemma stored_entry: "entry_path (ascii ''/in/d/f'') (ascii ''/in/d'') (ascii ''f'')"
  by (simp add: entry_path_def simple_name_def ascii_def)

lemma stored_keys:
  "canon (ascii ''/in/d'') = [ascii ''in'', ascii ''d'']"
  "canon (ascii ''/in/d/f'') = [ascii ''in'', ascii ''d'', ascii ''f'']"
  "canon (metadata_path (ascii ''/in/d/f'')) = [ascii ''in'', ascii ''d'', ascii ''.f.meta'']"
  "metadata_path (ascii ''/in/d/f'') \<noteq> []"
proof -
  show d: "canon (ascii ''/in/d'') = [ascii ''in'', ascii ''d'']" by (simp add: canon_def ascii_def)
  show "canon (ascii ''/in/d/f'') = [ascii ''in'', ascii ''d'', ascii ''f'']"
    using entry_path_parts(3) [OF stored_entry] d by simp
  show "canon (metadata_path (ascii ''/in/d/f'')) = [ascii ''in'', ascii ''d'', ascii ''.f.meta'']"
    using entry_path_parts(3) [OF metadata_path_entry [OF stored_entry]] d by (simp add: ascii_def)
  show "metadata_path (ascii ''/in/d/f'') \<noteq> []"
    using entry_path_parts(4) [OF metadata_path_entry [OF stored_entry]] .
qed

lemma stored_state:
  assumes "length h = HASH_SIZE" and "length dat = 3" and "length bm = 1"
  shows "remote_state (stored h) (stored_fs h dat bm) dat bm"
  unfolding remote_state_def
proof (intro conjI)
  show "FileMetadata_new (f_effective_path (stored h)) (f_size (stored h)) CHUNK_SIZE (f_hash (stored h)) =
      Inr (f_metadata (stored h))"
    by (simp add: FileMetadata_new_def Let_def stored_def stored_meta_def HASH_SIZE_def CHUNK_SIZE_def
        payload_size_value)
  have "dirs_ok (stored_fs h dat bm) (canon (ascii ''/in/d''))"
    by (auto simp: dirs_ok_def stored_keys stored_fs_def node_at_def le_Suc_eq)
  then show "\<exists>p w. entry_path (f_effective_path (stored h)) p w \<and> dirs_ok (stored_fs h dat bm) (canon p)"
    using stored_entry by (auto simp: stored_def)
  show "meta_layout (f_metadata (stored h)) (stored_fs h dat bm) (meta_header (f_metadata (stored h))) bm"
    using sample_distinct assms
    by (simp add: meta_layout_def stored_def stored_meta_def stored_keys stored_fs_def
        file_data_def node_at_def meta_header_def HASH_SIZE_def)
qed (use sample_distinct assms in \<open>simp_all add: stored_def stored_meta_def stored_keys stored_fs_def
      file_data_def node_at_def\<close>)

lemma stored_paths:
  "f_path (stored h) = path_append (w_uuid_str sample_world u) (path_filename (ascii ''/f''))"
  "f_effective_path (stored h) = path_append (w_prefix sample_world) (f_path (stored h))"
  unfolding sample_f by (simp_all add: stored_def sample_world_def SERVER_BASE_PATH_def path_append_def ascii_def)

lemma stored_part:
  "server_file b2_concat sample_world [7, 8, 9] u (path_filename (ascii ''/f''))
    (stored (calc_hash_buf b2_concat [7, 8, 9])) (stored_fs (calc_hash_buf b2_concat [7, 8, 9]) [0, 0, 0] [0])"
proof -
  let ?h = "calc_hash_buf b2_concat [7, 8, 9]"
  have "length ?h = HASH_SIZE" using calc_hash_buf_length [OF b2_concat_laws] by (simp add: HASH_SIZE_def)
  then have st: "remote_state (stored ?h) (stored_fs ?h [0, 0, 0] [0]) [0, 0, 0] [0]"
    by (intro stored_state) simp_all
  have "{i. i < chunk_count (unat (f_size (stored ?h))) \<and> chunk_bit [0] i} = {}"
    by (auto simp: stored_def chunk_count_def chunk_bit_def)
  then have "chunks_from [7, 8, 9] (remote_view (stored ?h) (stored_fs ?h [0, 0, 0] [0]))"
    using remote_view_state [OF st] by (auto simp: chunks_from_def)
  then show ?thesis
    using st stored_paths(1) [of ?h u] stored_paths(2) [of ?h] by (auto simp: server_file_def stored_def)
qed

lemma sample_plain_client:
  "plain_world sample_world (cl_uuid sample_new_client) (path_filename (ascii ''/f''))"
  using sample_plain by (simp add: sample_new_client_def)

lemma sample_offer_result:
  "Client_offer (w_client_conns sample_world) (w_client_sends sample_world) sample_new_client 0 sample_upload =
    (fst (Client_offer sample_conns sample_sends sample_new_client 0 sample_upload),
     fst (snd (Client_offer sample_conns sample_sends sample_new_client 0 sample_upload)),
     snd (snd (Client_offer sample_conns sample_sends sample_new_client 0 sample_upload)))"
  by (simp add: sample_world_def)

end
