(* ===== verification/FT_Isolation.thy ===== *)
theory FT_Isolation
  imports FT_Server
begin

text \<open>
  Files that do not get in each other's way: requests about one file leave every other file of
  the server as it is, on disk and in the server's answers.  The exception is a file whose name is
  the name of another file's metadata (\<open>.NAME.meta\<close>): the two share a file on disk.
\<close>

section \<open>Frames\<close>

lemma touches_file_data:
  assumes "touches D K fs fs'" and "file_data fs k = Some d" and "k \<notin> K"
  shows "file_data fs' k = Some d"
proof -
  have k: "fs k = Some (Regular d)" using assms(2) by (rule file_data_not_Dir)
  then have "fs' k = Some (Regular d)" using assms(1,3) unfolding touches_def by (metis option.distinct(1))
  then show ?thesis using assms(2) k by (simp add: file_data_def node_at_def split: if_splits)
qed

lemma touches_dirs_ok:
  assumes "touches D K fs fs'" and "dirs_ok fs k"
  shows "dirs_ok fs' k"
proof -
  have "node_at fs' j = Some Dir" if "node_at fs j = Some Dir" for j
    using that assms(1) unfolding touches_def node_at_def by (metis option.distinct(1))
  then show ?thesis using assms(2) by (simp add: dirs_ok_def)
qed

text \<open>The two files on disk that belong to a remote file.\<close>

definition file_keys :: "ft_file \<Rightarrow> key set" where
  "file_keys f = {canon (f_effective_path f), canon (metadata_path (f_effective_path f))}"

lemma remote_state_frame:
  assumes "remote_state f fs dat bm" and "touches D K fs fs'" and "file_keys f \<inter> K = {}"
  shows "remote_state f fs' dat bm"
proof -
  note parts = remote_state_parts [OF assms(1)]
  have "file_data fs' (canon (f_effective_path f)) = Some dat"
    using touches_file_data [OF assms(2) parts(8)] assms(3) by (simp add: file_keys_def)
  moreover have "meta_layout (f_metadata f) fs' (meta_header (f_metadata f)) bm"
    using parts(1,2) touches_file_data [OF assms(2)] assms(3) by (simp add: meta_layout_def file_keys_def)
  ultimately show ?thesis
    using assms(1) touches_dirs_ok [OF assms(2)] by (auto simp: remote_state_def)
qed

interpretation isolated: guarded_handler "Server_handleRequest B ustr prefix cs snds"
    "\<lambda>fs. remote_state f fs dat bm"
    "\<lambda>req. file_keys f \<inter> target_keys prefix ustr (getMessage req) = {}"
  by unfold_locales (blast intro: remote_state_frame dest: Server_touches)

section \<open>Files of other clients and other names\<close>

text \<open>A request about a plain name that shares no file on disk with name \<open>n\<close> of client \<open>u\<close>.\<close>

definition other_file :: "bytes \<Rightarrow> bytes \<Rightarrow> (bytes \<Rightarrow> bytes) \<Rightarrow> request \<Rightarrow> bool" where
  "other_file u n ustr req \<longleftrightarrow>
     (let v = ustr (client_uuid (getMessage req)); m = file_name (getMessage req)
      in simple_name v \<and> simple_name m \<and>
         (v \<noteq> u \<or> (m \<noteq> n \<and> m \<noteq> meta_name n \<and> meta_name m \<noteq> n)))"

lemma file_keys_plain:
  assumes "prefix \<noteq> []" and "last prefix \<noteq> slash" and "simple_name u" and "simple_name n"
    and "f_effective_path f = path_append prefix (path_append u n)"
  shows "file_keys f = {canon prefix @ [u, n], canon prefix @ [u, meta_name n]}"
  using server_target_plain [of prefix "\<lambda>_. u" "message_init\<lparr>file_name := n\<rparr>"] assms
  by (simp add: file_keys_def target_keys_def target_def)

lemma other_file_disjoint:
  assumes "prefix \<noteq> []" and "last prefix \<noteq> slash" and "simple_name u" and "simple_name n"
    and "f_effective_path f = path_append prefix (path_append u n)" and "other_file u n ustr req"
  shows "file_keys f \<inter> target_keys prefix ustr (getMessage req) = {}"
proof -
  have plain: "simple_name (ustr (client_uuid (getMessage req)))" "simple_name (file_name (getMessage req))"
    and other: "ustr (client_uuid (getMessage req)) \<noteq> u \<or> (file_name (getMessage req) \<noteq> n \<and>
      file_name (getMessage req) \<noteq> meta_name n \<and> meta_name (file_name (getMessage req)) \<noteq> n)"
    using assms(6) by (simp_all add: other_file_def Let_def)
  show ?thesis
    unfolding file_keys_plain [OF assms(1-5)] server_target_plain [of prefix ustr, OF assms(1,2) plain]
    using other by auto
qed

section \<open>Instances\<close>

text \<open>File \<open>f\<close> of client \<open>d\<close>, and the file whose name is the name of its metadata.\<close>

definition iso_meta :: "path \<Rightarrow> size_t \<Rightarrow> file_metadata" where
  "iso_meta e sz = \<lparr>fm_effective_path = e, fm_file_size = sz, fm_chunk_size = CHUNK_SIZE,
     fm_hash = replicate HASH_SIZE 0, fm_n_chunks = 1, fm_header_size = 80, fm_bitmap_size = 1,
     fm_metadata_file = metadata_path e\<rparr>"

definition iso_file :: "bytes \<Rightarrow> size_t \<Rightarrow> ft_file" where
  "iso_file n sz = FileRemote (ascii ''d/'' @ n) (replicate HASH_SIZE 0) sz (ascii ''/in/d/'' @ n)
     (iso_meta (ascii ''/in/d/'' @ n) sz)"

definition iso_fs :: fsys where
  "iso_fs = [[ascii ''in''] \<mapsto> Dir, [ascii ''in'', ascii ''d''] \<mapsto> Dir,
     [ascii ''in'', ascii ''d'', ascii ''f''] \<mapsto> Regular (replicate 5 0),
     [ascii ''in'', ascii ''d'', ascii ''.f.meta''] \<mapsto>
       Regular (meta_header (iso_meta (ascii ''/in/d/f'') 5) @ [0]),
     [ascii ''in'', ascii ''d'', ascii ''..f.meta.meta''] \<mapsto>
       Regular (meta_header (iso_meta (ascii ''/in/d/.f.meta'') 81) @ [0])]"

lemma iso_paths:
  assumes "simple_name n"
  shows "entry_path (ascii ''/in/d/'' @ n) (ascii ''/in/d'') n"
    and "canon (ascii ''/in/d/'' @ n) = [ascii ''in'', ascii ''d'', n]"
    and "canon (metadata_path (ascii ''/in/d/'' @ n)) = [ascii ''in'', ascii ''d'', meta_name n]"
    and "canon (ascii ''/in/d'') = [ascii ''in'', ascii ''d'']"
proof -
  show d: "canon (ascii ''/in/d'') = [ascii ''in'', ascii ''d'']" by (simp add: canon_def ascii_def)
  show e: "entry_path (ascii ''/in/d/'' @ n) (ascii ''/in/d'') n"
    using assms by (simp add: entry_path_def ascii_def)
  show "canon (ascii ''/in/d/'' @ n) = [ascii ''in'', ascii ''d'', n]"
    using entry_path_parts(3) [OF e] d by simp
  show "canon (metadata_path (ascii ''/in/d/'' @ n)) = [ascii ''in'', ascii ''d'', meta_name n]"
    using entry_path_parts(3) [OF metadata_path_entry [OF e]] d by simp
qed

lemma iso_remote:
  assumes "simple_name n" and "sz = 5 \<or> sz = 81"
    and "iso_fs [ascii ''in'', ascii ''d'', n] = Some (Regular dat)" and "length dat = unat sz"
    and "iso_fs [ascii ''in'', ascii ''d'', meta_name n] =
      Some (Regular (meta_header (iso_meta (ascii ''/in/d/'' @ n) sz) @ [0]))"
  shows "remote_state (iso_file n sz) iso_fs dat [0]"
  unfolding remote_state_def
proof (intro conjI)
  note paths = iso_paths [OF assms(1)]
  show "FileMetadata_new (f_effective_path (iso_file n sz)) (f_size (iso_file n sz)) CHUNK_SIZE
      (f_hash (iso_file n sz)) = Inr (f_metadata (iso_file n sz))"
    using assms(2) by (auto simp: FileMetadata_new_def Let_def iso_file_def iso_meta_def HASH_SIZE_def
        CHUNK_SIZE_def payload_size_value)
  have "dirs_ok iso_fs (canon (ascii ''/in/d''))"
    by (auto simp: dirs_ok_def paths iso_fs_def node_at_def le_Suc_eq)
  then show "\<exists>p w. entry_path (f_effective_path (iso_file n sz)) p w \<and> dirs_ok iso_fs (canon p)"
    using paths(1) by (auto simp: iso_file_def)
  show "meta_layout (f_metadata (iso_file n sz)) iso_fs (meta_header (f_metadata (iso_file n sz))) [0]"
    using paths assms(5) entry_path_parts(4) [OF metadata_path_entry [OF paths(1)]]
    by (simp add: meta_layout_def iso_file_def iso_meta_def file_data_def node_at_def meta_header_def HASH_SIZE_def)
  show "file_data iso_fs (canon (f_effective_path (iso_file n sz))) = Some dat"
    using paths assms(3) by (simp add: iso_file_def file_data_def node_at_def)
qed (use assms in \<open>auto simp: iso_file_def iso_meta_def HASH_SIZE_def\<close>)

lemma iso_f: "remote_state (iso_file (ascii ''f'') 5) iso_fs (replicate 5 0) [0]"
  by (rule iso_remote) (simp_all add: iso_fs_def simple_name_def ascii_def)

lemma iso_g: "remote_state (iso_file (ascii ''.f.meta'') 81) iso_fs
    (meta_header (iso_meta (ascii ''/in/d/f'') 5) @ [0]) [0]"
  by (rule iso_remote) (simp_all add: iso_fs_def simple_name_def ascii_def iso_meta_def meta_header_def HASH_SIZE_def)

definition iso_req :: request where
  "iso_req = \<lparr>req_connection = 0, req_message = message_init\<lparr>msg_type := MSGTYPE_FILE_CHUNK_DATA,
     file_name := ascii ''.f.meta'',
     chunk_data := \<lparr>cdata_idx = 0, cdata_data = replicate 81 0xFF, cdata_hash = []\<rparr>\<rparr>\<rparr>"

section \<open>Properties\<close>



text \<open>
  C39.  The metadata of a file is within reach of the clients: where \<open>f\<close> is a file and \<open>g\<close> the one
  whose name is the name of \<open>f\<close>'s metadata file, a chunk of \<open>g\<close> replaces the metadata of \<open>f\<close>,
  header and marks, by bytes the client chose.
\<close>

theorem metadata_overwritten:
  assumes "remote_state f fs dat bm" and "remote_state g fs dat' bm'"
    and "f_effective_path g = metadata_path (f_effective_path f)"
    and "blake2b_laws B" and "getMessage req = msg" and "msg_type msg = MSGTYPE_FILE_CHUNK_DATA"
    and "serves prefix ustr msg g" and "cdata_idx (chunk_data msg) = 0"
    and "length (cdata_data (chunk_data msg)) = unat (f_size g)" and "unat (f_size g) \<le> CHUNK"
  shows "file_data (fst (Server_handleRequest B ustr prefix cs snds fs req))
    (canon (fm_metadata_file (f_metadata f))) = Some (cdata_data (chunk_data msg))"
proof -
  obtain fs' dat2 bm2 where g: "remote_state g fs' dat2 bm2"
    "remote_view g fs' = save_spec (unat (f_size g)) (unat (cdata_idx (chunk_data msg)))
      (cdata_data (chunk_data msg)) (remote_view g fs)"
    "fst (Server_handleRequest B ustr prefix cs snds fs req) = fs'"
    using Server_chunk_data [OF assms(2,4-7), of cs snds] by (metis fst_conv)
  have "fst (remote_view g fs') = cdata_data (chunk_data msg)"
    using g(2) assms(8-10) remote_state_parts(9) [OF assms(2)]
    by (auto simp: save_spec_def chunk_len_def remote_view_state [OF assms(2)] write_at_def)
  then have "dat2 = cdata_data (chunk_data msg)" by (simp add: remote_view_state [OF g(1)])
  then show ?thesis
    using remote_state_parts(8) [OF g(1)] g(3) assms(3) remote_state_parts(2) [OF assms(1)] by simp
qed

theorem metadata_overwritten_witness:
  "file_data (fst (Server_handleRequest b2_concat (\<lambda>_. ascii ''d'') SERVER_BASE_PATH Map.empty
      (\<lambda>_ _. Sent 0) iso_fs iso_req)) (canon (fm_metadata_file (f_metadata (iso_file (ascii ''f'') 5)))) =
    Some (cdata_data (chunk_data (getMessage iso_req)))"
proof (rule metadata_overwritten [OF iso_f iso_g _ b2_concat_laws refl])
  have "metadata_path (ascii ''/in/d/f'') = ascii ''/in/d/.f.meta''"
    by (simp add: metadata_path_def path_simps parent_path_def path_append_def path_filename_def ascii_def)
  then show "f_effective_path (iso_file (ascii ''.f.meta'') 81) =
      metadata_path (f_effective_path (iso_file (ascii ''f'') 5))" by (simp add: iso_file_def ascii_def)
qed (simp_all add: iso_req_def getMessage_def serves_def iso_file_def SERVER_BASE_PATH_def path_append_def ascii_def)

end
