(* ===== verification/FT_Multi.thy ===== *)
theory FT_Multi
  imports FT_Session FT_Isolation
begin

text \<open>
  An upload on a server that is busy with other files: before every exchange of the upload the
  server's workers handle any number of requests that other connections delivered.  What they do
  to the files of others does not reach the upload (\<open>FT_Isolation\<close>), so that it takes the same
  number of exchanges as alone.
\<close>

definition others :: "'s blake2b \<Rightarrow> world \<Rightarrow> request list \<Rightarrow> session \<Rightarrow> session" where
  "others B w rs ss = ss\<lparr>ss_server_fs := fst (handle_all (server_handler B w) rs (ss_server_fs ss))\<rparr>"

definition busy_exchange :: "'s blake2b \<Rightarrow> world \<Rightarrow> request list \<Rightarrow> session \<Rightarrow> session" where
  "busy_exchange B w rs ss = exchange B w (others B w rs ss)"

text \<open>None of the requests is about the file \<open>name\<close> of the client \<open>uuid\<close>, or its metadata.\<close>

definition about_others :: "world \<Rightarrow> bytes \<Rightarrow> bytes \<Rightarrow> request list \<Rightarrow> bool" where
  "about_others w uuid name rs \<longleftrightarrow> list_all (other_file (w_uuid_str w uuid) name (w_uuid_str w)) rs"

lemma others_simps [simp]:
  "ss_client (others B w rs ss) = ss_client ss" "ss_client_rx (others B w rs ss) = ss_client_rx ss"
  "ss_server_rx (others B w rs ss) = ss_server_rx ss" "ss_up (others B w rs ss) = ss_up ss"
  "ss_errors (others B w rs ss) = ss_errors ss"
  by (simp_all add: others_def)

lemma others_idle [simp]: "both_idle lf uuid name (others B w rs ss) = both_idle lf uuid name ss"
  by (simp add: both_idle_def)

lemma others_offer [simp]: "offer_sent lf uuid (others B w rs ss) = offer_sent lf uuid ss"
  by (simp add: offer_sent_def)

lemma file_undisturbed:
  assumes ok: "upload_ok w lf src uuid name" and rs: "about_others w uuid name rs"
    and f: "server_file B w src uuid name f fs"
    and h: "handle_all (server_handler B w) rs fs = (fs', outs, xs)"
  shows "server_file B w src uuid name f fs'" and "remote_view f fs' = remote_view f fs"
proof -
  note parts = upload_ok_parts [OF ok]
  obtain dat bm where st: "remote_state f fs dat bm" using f by (auto simp: server_file_def)
  have e: "f_effective_path f = path_append (w_prefix w) (path_append (w_uuid_str w uuid) name)"
    using f by (simp add: server_file_def)
  have "list_all (\<lambda>req. file_keys f \<inter> target_keys (w_prefix w) (w_uuid_str w) (getMessage req) = {}) rs"
    using rs other_file_disjoint [OF parts(3-6) e] by (simp add: about_others_def list_all_iff)
  then have st': "remote_state f fs' dat bm"
    using isolated.handle_all_admitted [of f fs dat bm, OF st _ h] by simp
  then show view: "remote_view f fs' = remote_view f fs" using st by (simp add: remote_view_state)
  show "server_file B w src uuid name f fs'" using f st' view by (auto simp: server_file_def)
qed

lemma others_file:
  assumes ok: "upload_ok w lf src uuid name" and rs: "about_others w uuid name rs"
    and f: "server_file B w src uuid name f (ss_server_fs ss)"
  shows "server_file B w src uuid name f (ss_server_fs (others B w rs ss))"
    and "missing src f (ss_server_fs (others B w rs ss)) = missing src f (ss_server_fs ss)"
proof -
  obtain fs' outs xs where h: "handle_all (server_handler B w) rs (ss_server_fs ss) = (fs', outs, xs)"
    by (metis prod.collapse)
  note kept = file_undisturbed [OF ok rs f h]
  show "server_file B w src uuid name f (ss_server_fs (others B w rs ss))"
    "missing src f (ss_server_fs (others B w rs ss)) = missing src f (ss_server_fs ss)"
    using kept by (simp_all add: others_def h missing_def)
qed

lemma others_uploading:
  assumes "upload_ok w lf src uuid name" and "about_others w uuid name rs"
    and "uploading B w lf src uuid name f k ss"
  shows "uploading B w lf src uuid name f k (others B w rs ss)"
  using assms(3) others_file [OF assms(1,2), of B f ss] by (auto simp: uploading_def)

lemma busy_run:
  assumes ok: "upload_ok w lf src uuid name" and B: "blake2b_laws B"
    and "uploading B w lf src uuid name f (length rss) ss" and "rss \<noteq> []"
    and "list_all (about_others w uuid name) rss"
  shows "uploaded w src uuid name (client_files (ss_client ss)) (fold (busy_exchange B w) rss ss) \<and>
    ss_errors (fold (busy_exchange B w) rss ss) = ss_errors ss"
  using assms(3-)
proof (induction rss arbitrary: ss)
  case Nil
  then show ?case by simp
next
  case (Cons rs rss)
  let ?s = "others B w rs ss"
  have "uploading B w lf src uuid name f (Suc (length rss)) ?s"
    using others_uploading [OF ok, of rs B f _ ss] Cons.prems by simp
  then obtain fs' where fs': "answered B w uuid f fs' ?s" "server_file B w src uuid name f fs'"
    "card (missing src f fs') = length rss" by (rule uploading_answered [OF ok B])
  have idle: "both_idle lf uuid name ?s" using Cons.prems(1) by (simp add: uploading_def)
  show ?case
  proof (cases "rss = []")
    case True
    then have "missing src f fs' = {}" using fs'(3) by (simp add: missing_def)
    then show ?thesis using exchange_done [OF ok idle fs'(1,2)] True by (simp add: busy_exchange_def)
  next
    case False
    then have "missing src f fs' \<noteq> {}" using fs'(3) by auto
    note more = exchange_more [OF ok idle fs'(1,2) this, unfolded fs'(3)]
    from Cons.IH [of "busy_exchange B w rs ss"] more False Cons.prems(3)
    show ?thesis by (simp add: busy_exchange_def)
  qed
qed

text \<open>From the offer on: one exchange for it and one per missing chunk, each after other work.\<close>

lemma busy_offer_run:
  assumes ok: "upload_ok w lf src uuid name" and B: "blake2b_laws B"
    and idle: "both_idle lf uuid name ss" and sent: "offer_sent lf uuid ss"
    and f: "server_file B w src uuid name f (ss_server_fs ss)" and hash: "f_hash lf = calc_hash_buf B src"
    and rss: "length rss = Suc (card (missing src f (ss_server_fs ss)))"
      "list_all (about_others w uuid name) rss"
  shows "uploaded w src uuid name (client_files (ss_client ss)) (fold (busy_exchange B w) rss ss) \<and>
    ss_errors (fold (busy_exchange B w) rss ss) = ss_errors ss"
proof -
  obtain rs rss' where r: "rss = rs # rss'" using rss(1) by (cases rss) simp_all
  let ?s = "others B w rs ss"
  have rs: "about_others w uuid name rs" "list_all (about_others w uuid name) rss'" using rss(2) r by simp_all
  note f' = others_file [OF ok rs(1) f]
  have idle': "both_idle lf uuid name ?s" using idle by simp
  have run: "answered B w uuid f (ss_server_fs ?s) ?s"
    using offer_resumed [OF ok B _ f'(1) hash] sent by simp
  show ?thesis
  proof (cases "rss' = []")
    case True
    then have "missing src f (ss_server_fs ?s) = {}" using rss(1) r f'(2) by (simp add: missing_def)
    then show ?thesis using exchange_done [OF ok idle' run f'(1)] True r by (simp add: busy_exchange_def)
  next
    case False
    have len: "card (missing src f (ss_server_fs ?s)) = length rss'" using rss(1) r f'(2) by simp
    then have "missing src f (ss_server_fs ?s) \<noteq> {}" using False by auto
    note more = exchange_more [OF ok idle' run f'(1) this, unfolded len]
    with busy_run [OF ok B _ False rs(2), of f "exchange B w ?s"]
    show ?thesis by (simp add: r busy_exchange_def)
  qed
qed

section \<open>Instance\<close>

definition sample_other_req :: request where
  "sample_other_req = \<lparr>req_connection = 7, req_message = message_init\<lparr>msg_type := MSGTYPE_FILE_OFFER,
     file_name := ascii ''g''\<rparr>\<rparr>"

lemma sample_others: "about_others sample_world u (path_filename (ascii ''/f'')) [sample_other_req]"
  by (simp add: about_others_def other_file_def sample_other_req_def getMessage_def sample_f sample_world_def)
    (simp add: simple_name_def ascii_def)

end
