(* ===== verification/FT_Net.thy ===== *)
theory FT_Net
  imports FT_Multi
begin

text \<open>
  A client and a server under any schedule.  The bytes on their way in each direction are part of
  the state; either side may read any number of them at any time, its worker may handle the next
  queued request at any time, and the server may handle requests of other connections in between.
  The states an upload goes through are related to an abstract transfer, a set of received chunks
  that grows until it is complete, with a rank that bounds the number of events.
\<close>

section \<open>Events\<close>

record net =
  nt_client :: client
  nt_crx :: rx
  nt_fs :: fsys
  nt_srx :: rx
  nt_up :: bytes
  nt_down :: bytes
  nt_errors :: "ft_exn list"

datatype net_event = Server_Reads nat | Server_Works | Client_Reads nat | Client_Works | Other request

definition rx_queue :: "rx \<Rightarrow> request list" where
  "rx_queue r = (case rx_broker r of None \<Rightarrow> [] | Some b \<Rightarrow> sm_req_list b)"

text \<open>A worker takes the first request; a read consumes bytes until the socket is empty.\<close>

definition take_request :: "rx \<Rightarrow> rx" where
  "take_request r =
     (case rx_broker r of
        None \<Rightarrow> r
      | Some b \<Rightarrow> r\<lparr>rx_broker := Some (b\<lparr>sm_req_list := tl (sm_req_list b),
          taken := taken b @ take 1 (sm_req_list b)\<rparr>)\<rparr>)"

definition exn_list :: "ft_exn option \<Rightarrow> ft_exn list" where
  "exn_list x = (case x of None \<Rightarrow> [] | Some e \<Rightarrow> [e])"

definition net_read :: "bytes \<Rightarrow> rx \<Rightarrow> rx \<times> ft_exn list" where
  "net_read bs r =
     (case handleEvent 0 (map RecvByte bs) r EAGAIN of (_, r, _, x) \<Rightarrow> (r, exn_list x))"

text \<open>The bytes put on connection 0, the one between the two.\<close>

definition sent_here :: "outgoing \<Rightarrow> bytes" where
  "sent_here out = concat (map snd (filter (\<lambda>p. fst p = 0) out))"

fun net_step :: "'s blake2b \<Rightarrow> world \<Rightarrow> net_event \<Rightarrow> net \<Rightarrow> net" where
  "net_step B w (Server_Reads k) n =
     (case net_read (take k (nt_up n)) (nt_srx n) of
        (r, xs) \<Rightarrow> n\<lparr>nt_srx := r, nt_up := drop k (nt_up n), nt_errors := nt_errors n @ xs\<rparr>)"
| "net_step B w Server_Works n =
     (case rx_queue (nt_srx n) of
        [] \<Rightarrow> n
      | r # _ \<Rightarrow>
         (case server_handler B w (nt_fs n) r of
            (fs, out, x) \<Rightarrow> n\<lparr>nt_fs := fs, nt_srx := take_request (nt_srx n),
              nt_down := nt_down n @ sent_here out, nt_errors := nt_errors n @ exn_list x\<rparr>))"
| "net_step B w (Client_Reads k) n =
     (case net_read (take k (nt_down n)) (nt_crx n) of
        (r, xs) \<Rightarrow> n\<lparr>nt_crx := r, nt_down := drop k (nt_down n), nt_errors := nt_errors n @ xs\<rparr>)"
| "net_step B w Client_Works n =
     (case rx_queue (nt_crx n) of
        [] \<Rightarrow> n
      | r # _ \<Rightarrow>
         (case client_handler B w (nt_client n) r of
            (cl, out, x) \<Rightarrow> n\<lparr>nt_client := cl, nt_crx := take_request (nt_crx n),
              nt_up := nt_up n @ sent_here out, nt_errors := nt_errors n @ exn_list x\<rparr>))"
| "net_step B w (Other r) n =
     (case server_handler B w (nt_fs n) r of
        (fs, out, _) \<Rightarrow> n\<lparr>nt_fs := fs, nt_down := nt_down n @ sent_here out\<rparr>)"

text \<open>
  The requests of others come from other connections and are about other files than \<open>name\<close> of
  client \<open>uuid\<close>.  An event counts when there is something to read or to handle.
\<close>

fun net_admits :: "world \<Rightarrow> bytes \<Rightarrow> bytes \<Rightarrow> net_event \<Rightarrow> bool" where
  "net_admits w uuid name (Other r) \<longleftrightarrow>
     req_connection r \<noteq> 0 \<and> other_file (w_uuid_str w uuid) name (w_uuid_str w) r"
| "net_admits w uuid name _ \<longleftrightarrow> True"

fun net_counts :: "net_event \<Rightarrow> net \<Rightarrow> bool" where
  "net_counts (Server_Reads k) n \<longleftrightarrow> 0 < k \<and> nt_up n \<noteq> []"
| "net_counts Server_Works n \<longleftrightarrow> rx_queue (nt_srx n) \<noteq> []"
| "net_counts (Client_Reads k) n \<longleftrightarrow> 0 < k \<and> nt_down n \<noteq> []"
| "net_counts Client_Works n \<longleftrightarrow> rx_queue (nt_crx n) \<noteq> []"
| "net_counts (Other r) n \<longleftrightarrow> False"

definition net_start :: "client \<Rightarrow> rx \<Rightarrow> fsys \<Rightarrow> rx \<Rightarrow> outgoing \<Rightarrow> net" where
  "net_start cl crx fs srx out =
     \<lparr>nt_client = cl, nt_crx = crx, nt_fs = fs, nt_srx = srx, nt_up = sent_here out, nt_down = [],
      nt_errors = []\<rparr>"

text \<open>
  The client opens the file \<open>p\<close> and offers it, as its \<open>main\<close> does; the connection with its broker, which
  \<open>main\<close> wires up in between (\<open>client_start\<close> in \<open>FT_Main\<close>), is the argument \<open>crx\<close>.
\<close>

definition begin_upload :: "'s blake2b \<Rightarrow> world \<Rightarrow> client \<Rightarrow> path \<Rightarrow> rx \<Rightarrow> fsys \<Rightarrow> rx \<Rightarrow> net result" where
  "begin_upload B w cl p crx fs srx =
     rbind (makeLocalFile B [] (w_client_fs w) p) (\<lambda>lf.
       case Client_offer (w_client_conns w) (w_client_sends w) cl 0 lf of
         (_, _, Some e) \<Rightarrow> Inl e
       | (cl, out, None) \<Rightarrow> Inr (net_start cl crx fs srx out))"

section \<open>A message on its way\<close>

text \<open>
  One part of the message is in the receiver's buffer and the rest, \<open>way\<close>, still on the wire; when
  nothing is left on the wire the message is the only request in the queue.
\<close>

definition carries :: "message \<Rightarrow> bytes \<Rightarrow> rx \<Rightarrow> bool" where
  "carries m way r \<longleftrightarrow> length (client_uuid m) = UUID_SIZE \<and>
     (\<exists>got r0. serialize m [] = Inr (got @ way) \<and> rx_idle r0 \<and> feed 0 got r0 = (r, None))"

lemma carries_start:
  "rx_idle r \<Longrightarrow> serialize m [] = Inr buf \<Longrightarrow> length (client_uuid m) = UUID_SIZE \<Longrightarrow> carries m buf r"
  unfolding carries_def by (intro conjI exI [of _ "[]"] exI [of _ r]) simp_all

lemma net_read_feed: "feed 0 bs r = (r', None) \<Longrightarrow> net_read bs r = (r', [])"
  using handleEvent_feed [of 0 bs r r'] by (simp add: net_read_def exn_list_def)

lemma net_read_idle [simp]: "net_read [] r = (r, [])"
  by (rule net_read_feed) simp

lemma carries_read:
  assumes "carries m way r"
  obtains r' where "net_read (take k way) r = (r', [])" and "carries m (drop k way) r'"
proof -
  obtain got r0 where c: "length (client_uuid m) = UUID_SIZE" "serialize m [] = Inr (got @ way)"
    "rx_idle r0" "feed 0 got r0 = (r, None)" using assms by (auto simp: carries_def)
  have whole: "feed 0 way r = (clear_buf (deliver [arrived 0 m (got @ way)] r0), None)"
    using feed_message [OF c(2,1), of r0 0] c(3,4) by (simp add: rx_idle_def feed_append)
  obtain r' x where p: "feed 0 (take k way) r = (r', x)" by fastforce
  have "x = None"
    using feed_append [of 0 "take k way" "drop k way" r] whole p by (simp split: option.splits)
  with p have ok: "feed 0 (take k way) r = (r', None)" by simp
  have "carries m (drop k way) r'"
    unfolding carries_def using c ok
    by (intro conjI exI [of _ "got @ take k way"] exI [of _ r0]) (simp_all add: feed_append)
  then show thesis using that net_read_feed [OF ok] by blast
qed

lemma carries_waiting:
  assumes "carries m way r" and "way \<noteq> []"
  shows "rx_queue r = []"
proof -
  obtain got r0 where c: "length (client_uuid m) = UUID_SIZE" "serialize m [] = Inr (got @ way)"
    "rx_idle r0" "feed 0 got r0 = (r, None)" using assms by (auto simp: carries_def)
  obtain ty x d where f: "got @ way = [MAGIC1, MAGIC2, MAGIC3, ty] @ putU16 x @ d" "0 < ty"
    "ty < MAX_MSG_TYPE" "unat x = length d" "length (got @ way) = 6 + length d"
    using serialize_frame [OF c(2,1)] by metis
  have "length got < 6 + length d" using f(5) assms(2) by (cases way) simp_all
  from feed_cut [OF _ f(2-4) this, of r0 0, folded f(1)] c(3,4)
  have "rx_broker r = rx_broker r0" by (auto simp: rx_idle_def)
  then show ?thesis using c(3) by (auto simp: rx_queue_def rx_idle_def)
qed

lemma carries_arrived:
  assumes "carries m [] r"
  obtains buf where "serialize m [] = Inr buf" and "rx_queue r = [arrived 0 m buf]"
    and "rx_idle (take_request r)"
proof -
  obtain buf r0 where c: "length (client_uuid m) = UUID_SIZE" "serialize m [] = Inr buf"
    "rx_idle r0" "feed 0 buf r0 = (r, None)" using assms by (auto simp: carries_def)
  obtain b where b: "rx_broker r0 = Some b" "sm_req_list b = []" using c(3) by (auto simp: rx_idle_def)
  have "r = clear_buf (deliver [arrived 0 m buf] r0)"
    using feed_message [OF c(2,1), of r0 0] c(3,4) by (simp add: rx_idle_def)
  then have "rx_broker r = Some (queueRequest b (arrived 0 m buf))" "conn_msg_buf (rx_conn r) = []"
    by (simp_all add: clear_buf_def deliver_def b)
  then show thesis
    using that [OF c(2)] b(2) by (auto simp: rx_queue_def take_request_def rx_idle_def queueRequest_def)
qed

lemma carries_busy: "carries m way r \<Longrightarrow> way \<noteq> [] \<or> rx_queue r \<noteq> []"
  by (metis carries_arrived list.distinct(1))

lemma idle_queue [simp]: "rx_idle r \<Longrightarrow> rx_queue r = []"
  by (auto simp: rx_idle_def rx_queue_def)

section \<open>The place of the file on the server\<close>

text \<open>
  Either the server has the file with some of its chunks, or nothing is in the way of creating
  it: its directory and those above are directories or absent, its data file is absent, and its
  metadata file is absent or there with no chunk marked.
\<close>

abbreviation place_path :: "world \<Rightarrow> bytes \<Rightarrow> bytes \<Rightarrow> path" where
  "place_path w uuid name \<equiv> path_append (w_prefix w) (path_append (w_uuid_str w uuid) name)"

definition fresh_place :: "'s blake2b \<Rightarrow> world \<Rightarrow> bytes \<Rightarrow> bytes \<Rightarrow> bytes \<Rightarrow> fsys \<Rightarrow> bool" where
  "fresh_place B w src uuid name fs \<longleftrightarrow>
     (\<forall>k \<in> dirs_to (canon (w_prefix w) @ [w_uuid_str w uuid]). node_at fs k \<in> {None, Some Dir}) \<and>
     node_at fs (canon (w_prefix w) @ [w_uuid_str w uuid, name]) = None \<and>
     blank_meta (place_path w uuid name) (word_of_nat (length src)) (calc_hash_buf B src) fs"

definition stored_chunks ::
    "'s blake2b \<Rightarrow> world \<Rightarrow> bytes \<Rightarrow> bytes \<Rightarrow> bytes \<Rightarrow> ft_file \<Rightarrow> nat set \<Rightarrow> fsys \<Rightarrow> bool" where
  "stored_chunks B w src uuid name f S fs \<longleftrightarrow>
     server_file B w src uuid name f fs \<and> snd (remote_view f fs) = S"

definition place_ok :: "'s blake2b \<Rightarrow> world \<Rightarrow> bytes \<Rightarrow> bytes \<Rightarrow> bytes \<Rightarrow> nat set \<Rightarrow> fsys \<Rightarrow> bool" where
  "place_ok B w src uuid name S fs \<longleftrightarrow>
     (S = {} \<and> fresh_place B w src uuid name fs) \<or> (\<exists>f. stored_chunks B w src uuid name f S fs)"

lemma upload_size: "upload_ok w lf src uuid name \<Longrightarrow> f_size lf = word_of_nat (length src)"
  using upload_ok_parts(10) [of w lf src uuid name] by (simp add: local_state_def)

lemma place_canon:
  assumes "upload_ok w lf src uuid name"
  shows "canon (w_prefix w @ slash # w_uuid_str w uuid) = canon (w_prefix w) @ [w_uuid_str w uuid]"
  using upload_ok_parts(3-5) [OF assms] entry_path_parts(3) [of _ "w_prefix w" "w_uuid_str w uuid"]
  by (simp add: entry_path_def)

lemma fresh_create:
  assumes ok: "upload_ok w lf src uuid name" and fresh: "fresh_place B w src uuid name fs"
  obtains fs1 where "create_directories fs (w_prefix w @ slash # w_uuid_str w uuid) = (Inr (), fs1)"
    and "node_at fs1 (canon (w_prefix w) @ [w_uuid_str w uuid, name]) = None"
    and "blank_meta (place_path w uuid name) (word_of_nat (length src)) (calc_hash_buf B src) fs1"
proof (rule create_directories_free [of "w_prefix w @ slash # w_uuid_str w uuid" fs])
  fix fs1
  assume fs1: "create_directories fs (w_prefix w @ slash # w_uuid_str w uuid) = (Inr (), fs1)"
    and none: "\<And>k. k \<notin> dirs_to (canon (w_prefix w @ slash # w_uuid_str w uuid)) \<Longrightarrow>
      node_at fs k = None \<Longrightarrow> node_at fs1 k = None"
  have "canon (w_prefix w) @ [w_uuid_str w uuid, n] \<notin> dirs_to (canon (w_prefix w) @ [w_uuid_str w uuid])" for n
    using dirs_to_length by fastforce
  then have none: "node_at fs1 (canon (w_prefix w) @ [w_uuid_str w uuid, n]) = None"
    if "node_at fs (canon (w_prefix w) @ [w_uuid_str w uuid, n]) = None" for n
    using none that by (simp add: place_canon [OF ok])
  have "file_data fs1 k = Some d" if "file_data fs k = Some d" for k d
    using create_directories_keeps [OF fs1 that] .
  then have "blank_meta (place_path w uuid name) (word_of_nat (length src)) (calc_hash_buf B src) fs1"
    using fresh none by (auto simp: fresh_place_def blank_meta_def place_meta [OF ok] file_data_node_at)
  then show thesis using that [OF fs1] none fresh by (simp add: fresh_place_def)
qed (use fresh place_canon [OF ok] in \<open>auto simp: fresh_place_def\<close>)

text \<open>Requests about other files leave the place as it is.\<close>

lemma other_target:
  assumes "upload_ok w lf src uuid name" and "other_file (w_uuid_str w uuid) name (w_uuid_str w) r"
    and "server_handler B w fs r = (fs', out, x)"
  obtains D K where "touches D K fs fs'" and "\<And>k. k \<in> D \<Longrightarrow> length k \<le> Suc (length (canon (w_prefix w)))"
    and "\<And>k. k \<in> K \<Longrightarrow> length k = Suc (Suc (length (canon (w_prefix w))))"
    and "canon (w_prefix w) @ [w_uuid_str w uuid, name] \<notin> K"
    and "canon (w_prefix w) @ [w_uuid_str w uuid, meta_name name] \<notin> K"
proof -
  note parts = upload_ok_parts [OF assms(1)]
  let ?m = "getMessage r"
  have plain: "simple_name (w_uuid_str w (client_uuid ?m))" "simple_name (file_name ?m)"
    using assms(2) by (simp_all add: other_file_def Let_def)
  note keys = server_target_plain [of "w_prefix w" "w_uuid_str w" ?m, OF parts(3,4) plain]
    and dirs = server_dirs_plain [of "w_prefix w" "w_uuid_str w" ?m, OF parts(3,4) plain]
  show thesis
  proof (rule that [OF Server_touches [OF assms(3)]])
    show "length k \<le> Suc (length (canon (w_prefix w)))" if "k \<in> target_dirs (w_prefix w) (w_uuid_str w) ?m" for k
      using dirs_to_length [OF that [unfolded dirs]] by simp
  qed (use assms(2) in \<open>auto simp: keys other_file_def Let_def\<close>)
qed

lemma fresh_touches:
  assumes ok: "upload_ok w lf src uuid name" and t: "touches D K fs fs'"
    and D: "\<And>k. k \<in> D \<Longrightarrow> length k \<le> Suc (length (canon (w_prefix w)))"
    and K: "\<And>k. k \<in> K \<Longrightarrow> length k = Suc (Suc (length (canon (w_prefix w))))"
    and new: "canon (w_prefix w) @ [w_uuid_str w uuid, name] \<notin> K"
      "canon (w_prefix w) @ [w_uuid_str w uuid, meta_name name] \<notin> K"
    and fresh: "fresh_place B w src uuid name fs"
  shows "fresh_place B w src uuid name fs'"
proof -
  have "node_at fs' k \<in> {None, Some Dir}"
    if "k \<in> dirs_to (canon (w_prefix w) @ [w_uuid_str w uuid])" for k
  proof -
    have "k \<notin> K" using dirs_to_length [OF that] K by fastforce
    moreover have "node_at fs k \<in> {None, Some Dir}" using fresh that by (simp add: fresh_place_def)
    ultimately show ?thesis using t unfolding touches_def node_at_def by (metis insertCI)
  qed
  moreover have "fs' k = fs k" if "k \<notin> D" "k \<notin> K" for k using t that unfolding touches_def by metis
  moreover have "canon (w_prefix w) @ [w_uuid_str w uuid, n] \<notin> D" for n using D by fastforce
  ultimately show ?thesis
    using fresh new by (simp add: fresh_place_def blank_meta_def place_meta [OF ok] node_at_def)
qed

lemma fresh_other:
  assumes ok: "upload_ok w lf src uuid name" and o: "other_file (w_uuid_str w uuid) name (w_uuid_str w) r"
    and h: "server_handler B w fs r = (fs', out, x)" and fresh: "fresh_place B w src uuid name fs"
  shows "fresh_place B w src uuid name fs'"
  by (rule other_target [OF ok o h]) (rule fresh_touches [OF ok _ _ _ _ _ fresh])

lemma stored_other:
  assumes ok: "upload_ok w lf src uuid name" and o: "other_file (w_uuid_str w uuid) name (w_uuid_str w) r"
    and h: "server_handler B w fs r = (fs', out, x)" and f: "stored_chunks B w src uuid name f S fs"
  shows "stored_chunks B w src uuid name f S fs'"
proof -
  have "about_others w uuid name [r]" using o by (simp add: about_others_def)
  moreover have "handle_all (server_handler B w) [r] fs = (fs', out, exn_list x)"
    by (simp add: h exn_list_def)
  ultimately show ?thesis using file_undisturbed [OF ok _ _, of "[r]" B f fs] f by (simp add: stored_chunks_def)
qed

section \<open>The abstract transfer\<close>

text \<open>A set of received chunks of \<open>n\<close>, and whether the client knows that it is complete.\<close>

inductive transfer :: "nat \<Rightarrow> nat set \<times> bool \<Rightarrow> nat set \<times> bool \<Rightarrow> bool" for n :: nat where
  receive: "i < n \<Longrightarrow> i \<notin> S \<Longrightarrow> transfer n (S, False) (insert i S, False)"
| finish: "transfer n ({..<n}, False) ({..<n}, True)"

inductive_simps transfer_simps [simp]: "transfer n (S, d) (S', d')"

section \<open>Who is next\<close>

text \<open>
  There is always exactly one message of the upload.  On the way to the server it is an offer or
  a missing chunk, and \<open>k\<close> chunks will be missing when it has been handled; on the way to the client
  it is the answer that the chunks on the server call for.
\<close>

definition up_token ::
    "'s blake2b \<Rightarrow> world \<Rightarrow> ft_file \<Rightarrow> bytes \<Rightarrow> bytes \<Rightarrow> bytes \<Rightarrow> message \<Rightarrow> nat set \<Rightarrow> nat \<Rightarrow> fsys \<Rightarrow> bool" where
  "up_token B w lf src uuid name m S k fs \<longleftrightarrow>
     (\<exists>sq. m = buildMsgOffer sq uuid lf \<and> place_ok B w src uuid name S fs \<and>
        k = card ({..<chunk_count (length src)} - S)) \<or>
     (\<exists>f sq i. m = data_msg sq uuid name src i \<and> stored_chunks B w src uuid name f S fs \<and>
        unat i \<in> {..<chunk_count (length src)} - S \<and> Suc k = card ({..<chunk_count (length src)} - S))"

definition down_token ::
    "'s blake2b \<Rightarrow> world \<Rightarrow> bytes \<Rightarrow> bytes \<Rightarrow> bytes \<Rightarrow> message \<Rightarrow> nat set \<Rightarrow> fsys \<Rightarrow> bool" where
  "down_token B w src uuid name a S fs \<longleftrightarrow>
     (\<exists>f. stored_chunks B w src uuid name f S fs \<and>
        ((S = {..<chunk_count (length src)} \<and> (\<exists>sq. a = buildMsgComplete sq uuid f)) \<or>
         (\<exists>sq i. unat i \<in> {..<chunk_count (length src)} - S \<and>
            a = buildMsgChunkReq sq uuid f i UINT16_MAX)))"

lemma stored_missing:
  assumes "stored_chunks B w src uuid name f S fs"
  shows "missing src f fs = {..<chunk_count (length src)} - S" and "S \<subseteq> {..<chunk_count (length src)}"
    and "server_file B w src uuid name f fs"
  using assms server_file_view [of B w src uuid name f fs] by (auto simp: stored_chunks_def missing_def)

lemma answer_token:
  assumes ok: "upload_ok w lf src uuid name" and f: "stored_chunks B w src uuid name f S fs"
    and uuid: "client_uuid msg = uuid"
  obtains buf where "down_token B w src uuid name (answer B msg f (remote_view f fs)) S fs"
    and "serialize (answer B msg f (remote_view f fs)) [] = Inr buf"
    and "length (client_uuid (answer B msg f (remote_view f fs))) = UUID_SIZE"
proof (cases "missing src f fs = {}")
  case True
  note s = stored_missing [OF f]
  have "S = {..<chunk_count (length src)}" using True s(1,2) by auto
  moreover note a = server_answer(1) [OF ok s(3) uuid True]
  ultimately have "down_token B w src uuid name (answer B msg f (remote_view f fs)) S fs"
    using f unfolding down_token_def by blast
  then show thesis
    using that serialize_complete [of "seq_number msg" uuid f] upload_ok_parts(2) [OF ok]
    by (auto simp: a buildMsgComplete_def)
next
  case False
  note s = stored_missing [OF f]
  obtain i where i: "unat i \<in> missing src f fs"
    "answer B msg f (remote_view f fs) = buildMsgChunkReq (seq_number msg + 1) uuid f i UINT16_MAX"
    using server_answer(2) [OF ok s(3) uuid False] by blast
  then have "down_token B w src uuid name (answer B msg f (remote_view f fs)) S fs"
    using f s(1) unfolding down_token_def by auto
  then show thesis
    using that serialize_chunk_req [of "seq_number msg + 1" uuid f i UINT16_MAX] upload_ok_parts(2) [OF ok]
    by (auto simp: i(2) buildMsgChunkReq_def)
qed

lemma offer_handled:
  assumes ok: "upload_ok w lf src uuid name" and B: "blake2b_laws B" and hash: "f_hash lf = calc_hash_buf B src"
    and pl: "place_ok B w src uuid name S fs"
  obtains fs' msg f where "client_uuid msg = uuid"
    and "server_handler B w fs (arrived 0 (buildMsgOffer sq uuid lf) buf) =
      (fs', respond (w_server_conns w) (w_server_sends w) (arrived 0 (buildMsgOffer sq uuid lf) buf)
        (Some (answer B msg f (remote_view f fs'))))"
    and "stored_chunks B w src uuid name f S fs'"
  using pl unfolding place_ok_def
proof (elim disjE conjE exE)
  assume S: "S = {}" and fresh: "fresh_place B w src uuid name fs"
  obtain fs1 where "create_directories fs (w_prefix w @ slash # w_uuid_str w uuid) = (Inr (), fs1)"
    "node_at fs1 (canon (w_prefix w) @ [w_uuid_str w uuid, name]) = None"
    "blank_meta (place_path w uuid name) (f_size lf) (f_hash lf) fs1"
    by (rule fresh_create [OF ok fresh]) (simp add: hash upload_size [OF ok])
  from offer_new [OF ok B hash this, of sq buf] show thesis using that S by (metis stored_chunks_def)
next
  fix f assume f: "stored_chunks B w src uuid name f S fs"
  from offer_known [OF ok B _ hash, of f fs sq buf] f show thesis using that by (metis stored_chunks_def)
qed

lemma server_responds:
  assumes ok: "upload_ok w lf src uuid name" and f: "stored_chunks B w src uuid name f S fs'"
    and uuid: "client_uuid msg = uuid"
    and h: "server_handler B w fs (arrived 0 m buf) =
      (fs', respond (w_server_conns w) (w_server_sends w) (arrived 0 m buf)
        (Some (answer B msg f (remote_view f fs'))))"
  obtains a abuf where "server_handler B w fs (arrived 0 m buf) = (fs', [(0, abuf)], None)"
    and "serialize a [] = Inr abuf" and "length (client_uuid a) = UUID_SIZE"
    and "down_token B w src uuid name a S fs'"
proof -
  obtain abuf where a: "down_token B w src uuid name (answer B msg f (remote_view f fs')) S fs'"
    "serialize (answer B msg f (remote_view f fs')) [] = Inr abuf"
    "length (client_uuid (answer B msg f (remote_view f fs'))) = UUID_SIZE"
    by (rule answer_token [OF ok f uuid])
  have "respond (w_server_conns w) (w_server_sends w) (arrived 0 m buf)
      (Some (answer B msg f (remote_view f fs'))) = ([(0, abuf)], None)"
    using respond_sent [OF _ a(2), of "w_server_conns w" "w_server_sends w" "arrived 0 m buf"]
      upload_ok_parts(1) [OF ok] by (simp add: arrived_def)
  with h show thesis using that a by simp
qed

lemma server_handles:
  assumes ok: "upload_ok w lf src uuid name" and B: "blake2b_laws B" and hash: "f_hash lf = calc_hash_buf B src"
    and up: "up_token B w lf src uuid name m S k fs"
  obtains fs' a abuf S' where "server_handler B w fs (arrived 0 m buf) = (fs', [(0, abuf)], None)"
    and "serialize a [] = Inr abuf" and "length (client_uuid a) = UUID_SIZE"
    and "down_token B w src uuid name a S' fs'"
    and "S' = S \<or> transfer (chunk_count (length src)) (S, False) (S', False)"
    and "card ({..<chunk_count (length src)} - S') = k"
  using up unfolding up_token_def
proof (elim disjE conjE exE)
  fix sq assume m: "m = buildMsgOffer sq uuid lf" and pl: "place_ok B w src uuid name S fs"
    and k: "k = card ({..<chunk_count (length src)} - S)"
  obtain fs' msg f where h: "client_uuid msg = uuid"
    "server_handler B w fs (arrived 0 m buf) =
      (fs', respond (w_server_conns w) (w_server_sends w) (arrived 0 m buf)
        (Some (answer B msg f (remote_view f fs'))))"
    "stored_chunks B w src uuid name f S fs'"
    unfolding m by (rule offer_handled [OF ok B hash pl])
  from server_responds [OF ok h(3,1,2)] that k show thesis by metis
next
  fix f sq i assume m: "m = data_msg sq uuid name src i" and f: "stored_chunks B w src uuid name f S fs"
    and i: "unat i \<in> {..<chunk_count (length src)} - S" and k: "Suc k = card ({..<chunk_count (length src)} - S)"
  note s = stored_missing [OF f]
  have im: "unat i \<in> missing src f fs" using i s(1) by simp
  obtain fs' msg where h: "client_uuid msg = uuid"
    "server_handler B w fs (arrived 0 m buf) =
      (fs', respond (w_server_conns w) (w_server_sends w) (arrived 0 m buf)
        (Some (answer B msg f (remote_view f fs'))))"
    "server_file B w src uuid name f fs'" "missing src f fs' = missing src f fs - {unat i}"
    unfolding m by (rule data_handled [OF ok B s(3) im])
  have f': "stored_chunks B w src uuid name f (snd (remote_view f fs')) fs'" using h(3) by (simp add: stored_chunks_def)
  have S': "snd (remote_view f fs') = insert (unat i) S"
    using stored_missing(1,2) [OF f'] h(4) s(1,2) i by auto
  have "card ({..<chunk_count (length src)} - insert (unat i) S) = k"
    using k card_Diff_singleton [OF i] by (subst Diff_insert) simp
  moreover have "transfer (chunk_count (length src)) (S, False) (insert (unat i) S, False)" using i by auto
  ultimately show thesis
    by - (rule server_responds [OF ok f' h(1,2), unfolded S'], rule that, assumption+, simp_all)
qed

lemma client_handles:
  assumes ok: "upload_ok w lf src uuid name" and down: "down_token B w src uuid name a S fs"
    and cl: "cl_uuid cl = uuid" "client_files cl = [name \<mapsto> lf]" and buf: "serialize a [] = Inr buf"
  shows "(client_handler B w cl (arrived 0 a buf) = (cl\<lparr>client_files := Map.empty\<rparr>, [], None) \<and>
      S = {..<chunk_count (length src)} \<and> (\<exists>f. stored_chunks B w src uuid name f S fs)) \<or>
    (\<exists>m out k. client_handler B w cl (arrived 0 a buf) = (cl, [(0, out)], None) \<and>
      serialize m [] = Inr out \<and> length (client_uuid m) = UUID_SIZE \<and>
      up_token B w lf src uuid name m S k fs \<and> Suc k = card ({..<chunk_count (length src)} - S))"
  using down unfolding down_token_def
proof (elim disjE conjE exE)
  fix f sq assume f: "stored_chunks B w src uuid name f S fs" and S: "S = {..<chunk_count (length src)}"
    and a: "a = buildMsgComplete sq uuid f"
  have "client_handler B w cl (arrived 0 a buf) = (cl\<lparr>client_files := (client_files cl)(name := None)\<rparr>, [], None)"
    by (rule client_complete [OF ok stored_missing(3) [OF f] cl(1), of sq]) (use cl(2) buf a in simp_all)
  then show ?thesis using f S cl(2) by simp blast
next
  fix f sq i assume f: "stored_chunks B w src uuid name f S fs"
    and i: "unat i \<in> {..<chunk_count (length src)} - S" and a: "a = buildMsgChunkReq sq uuid f i UINT16_MAX"
  have "unat i < chunk_count (length src)" "client_files cl name = Some lf" using i cl(2) by auto
  from client_chunk [OF ok stored_missing(3) [OF f] cl(1) this(2,1)] obtain buf' out where
    o: "serialize a [] = Inr buf'" "serialize (data_msg sq uuid name src i) [] = Inr out"
      "client_handler B w cl (arrived 0 a buf') = (cl, [(0, out)], None)" unfolding a by metis
  have "card ({..<chunk_count (length src)} - S) \<noteq> 0" using i by auto
  then obtain k where k: "Suc k = card ({..<chunk_count (length src)} - S)" by (metis not0_implies_Suc)
  have "up_token B w lf src uuid name (data_msg sq uuid name src i) S k fs"
    unfolding up_token_def using f i k by blast
  moreover have "length (client_uuid (data_msg sq uuid name src i)) = UUID_SIZE"
    using upload_ok_parts(2) [OF ok] by (simp add: data_msg_def)
  ultimately show ?thesis using o buf k by (intro disjI2) (metis sum.inject(2))
qed

lemma tokens_other:
  assumes ok: "upload_ok w lf src uuid name" and o: "other_file (w_uuid_str w uuid) name (w_uuid_str w) r"
    and h: "server_handler B w fs r = (fs', out, x)"
  shows "up_token B w lf src uuid name m S k fs \<Longrightarrow> up_token B w lf src uuid name m S k fs'"
    and "down_token B w src uuid name a S fs \<Longrightarrow> down_token B w src uuid name a S fs'"
  unfolding up_token_def down_token_def place_ok_def
  using stored_other [OF ok o h] fresh_other [OF ok o h] by blast+

section \<open>The upload as a simulation\<close>

lemma message_length:
  assumes "serialize m [] = Inr buf" and "length (client_uuid m) = UUID_SIZE"
  shows "length buf \<le> 4254"
proof -
  obtain p where "payload m = Inr p" "buf = putU32 (msg_type m) @ putU16 (word_of_nat (length p)) @ p"
    using assms(1) by (auto simp: serialize_eq)
  then show ?thesis using payload_length(2) [OF _ assms(2)] by (fastforce simp: put_lengths)
qed

definition on_offer :: "ft_file \<Rightarrow> bytes \<Rightarrow> bytes \<Rightarrow> net \<Rightarrow> bool" where
  "on_offer lf uuid name n \<longleftrightarrow>
     cl_uuid (nt_client n) = uuid \<and> client_files (nt_client n) = [name \<mapsto> lf] \<and> nt_errors n = []"

text \<open>
  The states of an upload with their abstract state and rank.  A round trip has two messages of
  at most 4254 bytes, each read in at least one byte at a time and then handled.
\<close>

inductive net_at ::
    "'s blake2b \<Rightarrow> world \<Rightarrow> ft_file \<Rightarrow> bytes \<Rightarrow> bytes \<Rightarrow> bytes \<Rightarrow> net \<Rightarrow> nat set \<times> bool \<Rightarrow> nat \<Rightarrow> bool"
  for B :: "'s blake2b" and w :: world and lf :: ft_file and src :: bytes and uuid :: bytes and name :: bytes
where
  upwards: "on_offer lf uuid name n \<Longrightarrow> carries m (nt_up n) (nt_srx n) \<Longrightarrow>
    up_token B w lf src uuid name m S k (nt_fs n) \<Longrightarrow> rx_idle (nt_crx n) \<Longrightarrow> nt_down n = [] \<Longrightarrow>
    net_at B w lf src uuid name n (S, False) (8510 * k + 4256 + length (nt_up n))"
| downwards: "on_offer lf uuid name n \<Longrightarrow> carries a (nt_down n) (nt_crx n) \<Longrightarrow>
    down_token B w src uuid name a S (nt_fs n) \<Longrightarrow> rx_idle (nt_srx n) \<Longrightarrow> nt_up n = [] \<Longrightarrow>
    net_at B w lf src uuid name n (S, False)
      (8510 * card ({..<chunk_count (length src)} - S) + 1 + length (nt_down n))"
| finished: "uploadsCompleted (nt_client n) \<Longrightarrow> nt_errors n = [] \<Longrightarrow>
    stored_chunks B w src uuid name f {..<chunk_count (length src)} (nt_fs n) \<Longrightarrow>
    rx_idle (nt_crx n) \<Longrightarrow> rx_idle (nt_srx n) \<Longrightarrow> nt_up n = [] \<Longrightarrow> nt_down n = [] \<Longrightarrow>
    net_at B w lf src uuid name n ({..<chunk_count (length src)}, True) 0"

definition net_next ::
    "'s blake2b \<Rightarrow> world \<Rightarrow> ft_file \<Rightarrow> bytes \<Rightarrow> bytes \<Rightarrow> bytes \<Rightarrow> net_event \<Rightarrow> net \<Rightarrow> nat set \<times> bool \<Rightarrow> nat \<Rightarrow> bool" where
  "net_next B w lf src uuid name e n a r \<longleftrightarrow>
     (\<exists>a' r'. (a' = a \<or> transfer (chunk_count (length src)) a a') \<and>
        net_at B w lf src uuid name (net_step B w e n) a' r' \<and> (if net_counts e n then r' < r else r' \<le> r))"

lemma net_nextI:
  assumes "a' = a \<or> transfer (chunk_count (length src)) a a'"
    and "net_at B w lf src uuid name (net_step B w e n) a' r'"
    and "if net_counts e n then r' < r else r' \<le> r"
  shows "net_next B w lf src uuid name e n a r"
  using assms unfolding net_next_def by blast

lemma net_same: "net_at B w lf src uuid name n a r \<Longrightarrow> net_step B w e n = n \<Longrightarrow> \<not> net_counts e n \<Longrightarrow>
    net_next B w lf src uuid name e n a r"
  by (rule net_nextI [of a]) auto

lemma read_rank: "(if (0 :: nat) < k \<and> way \<noteq> [] then length (drop k way) < length way
    else length (drop k way) \<le> length way)"
  by (cases way) auto

lemma up_reads:
  assumes "on_offer lf uuid name n" and "carries m (nt_up n) (nt_srx n)"
    and "up_token B w lf src uuid name m S k (nt_fs n)" and "rx_idle (nt_crx n)" and "nt_down n = []"
  shows "net_next B w lf src uuid name (Server_Reads j) n (S, False) (8510 * k + 4256 + length (nt_up n))"
proof -
  obtain r' where r: "net_read (take j (nt_up n)) (nt_srx n) = (r', [])" "carries m (drop j (nt_up n)) r'"
    by (rule carries_read [OF assms(2)])
  let ?n = "net_step B w (Server_Reads j) n"
  have n: "?n = n\<lparr>nt_srx := r', nt_up := drop j (nt_up n)\<rparr>" by (simp add: r(1))
  have "net_at B w lf src uuid name ?n (S, False) (8510 * k + 4256 + length (nt_up ?n))"
    unfolding n using assms r(2) by (intro net_at.upwards) (simp_all add: on_offer_def)
  from net_nextI [OF disjI1 [OF refl] this] show ?thesis
    using read_rank [of j "nt_up n"] by (simp add: r(1) split: if_splits)
qed

lemma down_reads:
  assumes "on_offer lf uuid name n" and "carries a (nt_down n) (nt_crx n)"
    and "down_token B w src uuid name a S (nt_fs n)" and "rx_idle (nt_srx n)" and "nt_up n = []"
  shows "net_next B w lf src uuid name (Client_Reads j) n (S, False)
    (8510 * card ({..<chunk_count (length src)} - S) + 1 + length (nt_down n))"
proof -
  obtain r' where r: "net_read (take j (nt_down n)) (nt_crx n) = (r', [])" "carries a (drop j (nt_down n)) r'"
    by (rule carries_read [OF assms(2)])
  let ?n = "net_step B w (Client_Reads j) n"
  have n: "?n = n\<lparr>nt_crx := r', nt_down := drop j (nt_down n)\<rparr>" by (simp add: r(1))
  have "net_at B w lf src uuid name ?n (S, False)
      (8510 * card ({..<chunk_count (length src)} - S) + 1 + length (nt_down ?n))"
    unfolding n using assms r(2) by (intro net_at.downwards) (simp_all add: on_offer_def)
  from net_nextI [OF disjI1 [OF refl] this] show ?thesis
    using read_rank [of j "nt_down n"] by (simp add: r(1) split: if_splits)
qed

lemma respond_where: "respond cs snds req m = (out, x) \<Longrightarrow> p \<in> set out \<Longrightarrow> fst p = req_connection req"
  by (auto simp: respond_def getConnection_def split: option.splits sum.splits prod.splits if_splits)

lemma Server_where:
  assumes "Server_handleRequest B ustr prefix cs snds fs req = (fs', out, x)" and "p \<in> set out"
  shows "fst p = req_connection req"
  using assms respond_where [of cs snds req]
  by (auto simp: Server_handleRequest_def Let_def split: if_splits sum.splits option.splits prod.splits)

lemma other_step:
  assumes "net_admits w uuid name (Other r)"
  obtains fs' out x where "server_handler B w (nt_fs n) r = (fs', out, x)"
    and "net_step B w (Other r) n = n\<lparr>nt_fs := fs', nt_down := nt_down n\<rparr>"
proof -
  obtain fs' out x where h: "server_handler B w (nt_fs n) r = (fs', out, x)" by (metis prod.collapse)
  have "sent_here out = []" using assms Server_where [OF h] by (auto simp: sent_here_def filter_empty_conv)
  with h show thesis by (intro that [OF h]) simp
qed

lemma sent_here_one [simp]: "sent_here [(0, b)] = b" "sent_here [] = []"
  by (simp_all add: sent_here_def)

lemma up_works:
  assumes ok: "upload_ok w lf src uuid name" and B: "blake2b_laws B" and hash: "f_hash lf = calc_hash_buf B src"
    and on: "on_offer lf uuid name n" and c: "carries m (nt_up n) (nt_srx n)"
    and up: "up_token B w lf src uuid name m S k (nt_fs n)" and idle: "rx_idle (nt_crx n)" "nt_down n = []"
  shows "net_next B w lf src uuid name Server_Works n (S, False) (8510 * k + 4256 + length (nt_up n))"
proof (cases "nt_up n = []")
  case False
  then show ?thesis
    using carries_waiting [OF c] net_at.upwards [OF on c up idle] by (intro net_same) simp_all
next
  case True
  obtain buf where q: "rx_queue (nt_srx n) = [arrived 0 m buf]" "rx_idle (take_request (nt_srx n))"
    using carries_arrived [of m "nt_srx n"] c True by metis
  obtain fs' a abuf S' where h: "server_handler B w (nt_fs n) (arrived 0 m buf) = (fs', [(0, abuf)], None)"
    and a: "serialize a [] = Inr abuf" "length (client_uuid a) = UUID_SIZE"
    and down: "down_token B w src uuid name a S' fs'"
    and S': "S' = S \<or> transfer (chunk_count (length src)) (S, False) (S', False)"
      "card ({..<chunk_count (length src)} - S') = k"
    by (rule server_handles [OF ok B hash up])
  let ?n = "net_step B w Server_Works n"
  have n: "?n = n\<lparr>nt_fs := fs', nt_srx := take_request (nt_srx n), nt_down := abuf, nt_errors := []\<rparr>"
    using idle(2) on by (simp add: q(1) h exn_list_def on_offer_def)
  have "net_at B w lf src uuid name ?n (S', False)
      (8510 * card ({..<chunk_count (length src)} - S') + 1 + length (nt_down ?n))"
    unfolding n using on q(2) True down carries_start [OF idle(1) a]
    by (intro net_at.downwards) (simp_all add: on_offer_def)
  from net_nextI [OF _ this] show ?thesis
    using S' message_length [OF a] by (simp add: n q(1) del: net_step.simps)
qed

lemma down_works:
  assumes ok: "upload_ok w lf src uuid name" and on: "on_offer lf uuid name n"
    and c: "carries a (nt_down n) (nt_crx n)" and down: "down_token B w src uuid name a S (nt_fs n)"
    and idle: "rx_idle (nt_srx n)" "nt_up n = []"
  shows "net_next B w lf src uuid name Client_Works n (S, False)
    (8510 * card ({..<chunk_count (length src)} - S) + 1 + length (nt_down n))"
proof (cases "nt_down n = []")
  case False
  then show ?thesis
    using carries_waiting [OF c] net_at.downwards [OF on c down idle] by (intro net_same) simp_all
next
  case True
  obtain buf where q: "serialize a [] = Inr buf" "rx_queue (nt_crx n) = [arrived 0 a buf]"
    "rx_idle (take_request (nt_crx n))"
    using carries_arrived [of a "nt_crx n"] c True by metis
  have cl: "cl_uuid (nt_client n) = uuid" "client_files (nt_client n) = [name \<mapsto> lf]" "nt_errors n = []"
    using on by (simp_all add: on_offer_def)
  let ?n = "net_step B w Client_Works n"
  show ?thesis
    using client_handles [OF ok down cl(1,2) q(1)]
  proof (elim disjE conjE exE)
    fix f
    assume h: "client_handler B w (nt_client n) (arrived 0 a buf) =
        ((nt_client n)\<lparr>client_files := Map.empty\<rparr>, [], None)" and S: "S = {..<chunk_count (length src)}"
      and f: "stored_chunks B w src uuid name f S (nt_fs n)"
    have n: "?n = n\<lparr>nt_client := (nt_client n)\<lparr>client_files := Map.empty\<rparr>,
        nt_crx := take_request (nt_crx n), nt_up := [], nt_errors := []\<rparr>"
      using idle(2) cl(3) by (simp add: q(2) h exn_list_def)
    have "net_at B w lf src uuid name ?n (S, True) 0"
      unfolding n S using f S q(3) idle True cl by (intro net_at.finished) (simp_all add: uploadsCompleted_def)
    from net_nextI [OF _ this] show ?thesis using S by (simp add: q(2) del: net_step.simps)
  next
    fix m out k
    assume h: "client_handler B w (nt_client n) (arrived 0 a buf) = (nt_client n, [(0, out)], None)"
      and m: "serialize m [] = Inr out" "length (client_uuid m) = UUID_SIZE"
      and up: "up_token B w lf src uuid name m S k (nt_fs n)"
      and k: "Suc k = card ({..<chunk_count (length src)} - S)"
    have n: "?n = n\<lparr>nt_client := nt_client n, nt_crx := take_request (nt_crx n), nt_up := out, nt_errors := []\<rparr>"
      using idle(2) cl(3) by (simp add: q(2) h exn_list_def)
    have "net_at B w lf src uuid name ?n (S, False) (8510 * k + 4256 + length (nt_up ?n))"
      unfolding n using on q(3) True up carries_start [OF idle(1) m]
      by (intro net_at.upwards) (simp_all add: on_offer_def)
    from net_nextI [OF disjI1 [OF refl] this] show ?thesis
      using message_length [OF m] by (simp add: n k [symmetric] q(2) del: net_step.simps)
  qed
qed

lemma net_other:
  assumes ok: "upload_ok w lf src uuid name" and at: "net_at B w lf src uuid name n a r"
    and e: "net_admits w uuid name (Other q)"
  shows "net_next B w lf src uuid name (Other q) n a r"
proof -
  obtain fs' out x where h: "server_handler B w (nt_fs n) q = (fs', out, x)"
    and n: "net_step B w (Other q) n = n\<lparr>nt_fs := fs', nt_down := nt_down n\<rparr>" by (rule other_step [OF e])
  have o: "other_file (w_uuid_str w uuid) name (w_uuid_str w) q" using e by simp
  have "net_at B w lf src uuid name (n\<lparr>nt_fs := fs', nt_down := nt_down n\<rparr>) a r"
    using at
  proof cases
    case (upwards m S k)
    then show ?thesis
      using net_at.upwards [of lf uuid name "n\<lparr>nt_fs := fs', nt_down := nt_down n\<rparr>" m B w src S k]
        tokens_other(1) [OF ok o h] by (simp add: on_offer_def)
  next
    case (downwards m S)
    then show ?thesis
      using net_at.downwards [of lf uuid name "n\<lparr>nt_fs := fs', nt_down := nt_down n\<rparr>" m B w src S]
        tokens_other(2) [OF ok o h] by (simp add: on_offer_def)
  next
    case (finished f)
    then show ?thesis
      using net_at.finished [of "n\<lparr>nt_fs := fs', nt_down := nt_down n\<rparr>" B w src uuid name f lf]
        stored_other [OF ok o h] by simp
  qed
  from net_nextI [OF disjI1 [OF refl] this [folded n]] show ?thesis by simp
qed

text \<open>Reading when nothing is on the way, and working without a request, change nothing.\<close>

lemma idle_events:
  "nt_up n = [] \<Longrightarrow> net_step B w (Server_Reads k) n = n" "nt_down n = [] \<Longrightarrow> net_step B w (Client_Reads k) n = n"
  "rx_queue (nt_srx n) = [] \<Longrightarrow> net_step B w Server_Works n = n"
  "rx_queue (nt_crx n) = [] \<Longrightarrow> net_step B w Client_Works n = n"
  by simp_all

lemma net_simulates:
  assumes ok: "upload_ok w lf src uuid name" and B: "blake2b_laws B" and hash: "f_hash lf = calc_hash_buf B src"
    and at: "net_at B w lf src uuid name n a r" and e: "net_admits w uuid name e"
  shows "net_next B w lf src uuid name e n a r"
  using at
proof cases
  case (upwards m S k)
  then show ?thesis
    using up_reads [of lf uuid name n m B w src S k] up_works [OF ok B hash, of n m S k] net_other [OF ok at]
      net_same [OF at] idle_events [of n] e by (cases e) simp_all
next
  case (downwards m S)
  then show ?thesis
    using down_reads [of lf uuid name n m B w src S] down_works [OF ok, of n m B S] net_other [OF ok at]
      net_same [OF at] idle_events [of n] e by (cases e) simp_all
next
  case (finished f)
  then show ?thesis using net_same [OF at] idle_events [of n] net_other [OF ok at] e by (cases e) simp_all
qed

interpretation upload: ranked_simulation "net_step B w" "net_admits w uuid name" net_counts
    "\<lambda>n a r. upload_ok w lf src uuid name \<and> blake2b_laws B \<and> f_hash lf = calc_hash_buf B src \<and>
       net_at B w lf src uuid name n a r"
    "transfer (chunk_count (length src))"
proof unfold_locales
  fix n a r e
  assume "upload_ok w lf src uuid name \<and> blake2b_laws B \<and> f_hash lf = calc_hash_buf B src \<and>
      net_at B w lf src uuid name n a r" and "net_admits w uuid name e"
  then show "\<exists>a' r'. (a' = a \<or> transfer (chunk_count (length src)) a a') \<and>
      (upload_ok w lf src uuid name \<and> blake2b_laws B \<and> f_hash lf = calc_hash_buf B src \<and>
       net_at B w lf src uuid name (net_step B w e n) a' r') \<and> (if net_counts e n then r' < r else r' \<le> r)"
    using net_simulates [of w lf src uuid name B n a r e] unfolding net_next_def by blast
qed

section \<open>From the offer to the end\<close>

lemma net_started:
  assumes ok: "upload_ok w lf src (cl_uuid cl) name" and cl: "client_files cl = Map.empty"
    and offer: "Client_offer (w_client_conns w) (w_client_sends w) cl 0 lf = (cl', out, x)"
    and rx: "rx_idle crx" "rx_idle srx" and pl: "place_ok B w src (cl_uuid cl) name S fs"
  shows "\<exists>r \<le> 8510 * Suc (chunk_count (length src)).
    net_at B w lf src (cl_uuid cl) name (net_start cl' crx fs srx out) (S, False) r"
proof -
  note parts = upload_ok_parts [OF ok]
  obtain buf where buf: "serialize (buildMsgOffer 1 (cl_uuid cl) lf) [] = Inr buf"
    and o: "cl' = cl\<lparr>client_files := [name \<mapsto> lf]\<rparr>" "out = [(0, buf)]"
    using Client_offer_sent [OF parts(12,8), of cl] cl parts(9) offer by auto
  have u: "length (client_uuid (buildMsgOffer 1 (cl_uuid cl) lf)) = UUID_SIZE"
    using parts(2) by (simp add: buildMsgOffer_def)
  let ?n = "net_start cl' crx fs srx out" and ?k = "card ({..<chunk_count (length src)} - S)"
  have "up_token B w lf src (cl_uuid cl) name (buildMsgOffer 1 (cl_uuid cl) lf) S ?k fs"
    unfolding up_token_def using pl by blast
  then have "net_at B w lf src (cl_uuid cl) name ?n (S, False) (8510 * ?k + 4256 + length (nt_up ?n))"
    using carries_start [OF rx(2) buf u] rx(1) o
    by (intro net_at.upwards [where m = "buildMsgOffer 1 (cl_uuid cl) lf"]) (simp_all add: net_start_def on_offer_def)
  moreover have "?k \<le> chunk_count (length src)" using card_mono [of "{..<chunk_count (length src)}"] by fastforce
  then have "8510 * ?k + 4256 + length (nt_up ?n) \<le> 8510 * Suc (chunk_count (length src))"
    using message_length [OF buf u] by (simp add: net_start_def o)
  ultimately show ?thesis by blast
qed

text \<open>While the upload is not complete, one of the two sides has something to do.\<close>

definition net_turns :: "net_event list" where
  "net_turns = [Server_Reads 1, Server_Works, Client_Reads 1, Client_Works]"

lemma net_turns_admitted: "e \<in> set net_turns \<Longrightarrow> net_admits w uuid name e"
  by (auto simp: net_turns_def)

lemma net_progress:
  assumes "net_at B w lf src uuid name n (S, False) r"
  shows "\<exists>e \<in> set net_turns. net_counts e n"
  using assms
proof cases
  case (upwards m k)
  then show ?thesis using carries_busy [of m "nt_up n" "nt_srx n"] by (auto simp: net_turns_def)
next
  case (downwards a)
  then show ?thesis using carries_busy [of a "nt_down n" "nt_crx n"] by (auto simp: net_turns_def)
qed simp

lemma net_completes:
  assumes "upload_ok w lf src uuid name" and "blake2b_laws B" and "f_hash lf = calc_hash_buf B src"
  shows "net_at B w lf src uuid name n (S, d) r \<Longrightarrow>
    \<exists>es S' r'. set es \<subseteq> set net_turns \<and> net_at B w lf src uuid name (fold (net_step B w) es n) (S', True) r'"
proof (induction r arbitrary: n S d rule: less_induct)
  case (less r)
  show ?case
  proof (cases d)
    case True
    then show ?thesis using less.prems by (intro exI [of _ "[]"]) auto
  next
    case False
    then obtain e where e: "e \<in> set net_turns" "net_counts e n"
      using net_progress [of B w lf src uuid name n S r] less.prems by auto
    obtain S1 d1 r1 where "net_at B w lf src uuid name (net_step B w e n) (S1, d1) r1" "r1 < r"
      using net_simulates [OF assms less.prems net_turns_admitted [OF e(1)]] e(2) by (auto simp: net_next_def)
    from less.IH [OF this(2,1)] obtain es S' r' where
      "set es \<subseteq> set net_turns" "net_at B w lf src uuid name (fold (net_step B w) es (net_step B w e n)) (S', True) r'"
      by blast
    with e(1) show ?thesis by (intro exI [of _ "e # es"]) auto
  qed
qed

lemma net_at_state:
  assumes "net_at B w lf src uuid name n (S, d) r"
  shows "nt_errors n = []" and "d = uploadsCompleted (nt_client n)" and "place_ok B w src uuid name S (nt_fs n)"
  using assms
  by (cases; auto simp: on_offer_def uploadsCompleted_def up_token_def down_token_def place_ok_def)+

lemma place_complete:
  assumes ok: "upload_ok w lf src uuid name" and at: "net_at B w lf src uuid name n (S, True) r"
  shows "file_data (nt_fs n) (canon (w_prefix w) @ [w_uuid_str w uuid, name]) = Some src"
  using at
proof cases
  case (finished f)
  note s = stored_missing [OF finished(5)]
  have "missing src f (nt_fs n) = {}" using s(1) by simp
  from server_file_done [OF s(3) this] show ?thesis
    using server_path(4) [OF upload_ok_parts(3-6) [OF ok]] by simp
qed simp_all

text \<open>What all schedules have in common.\<close>

lemma net_upload:
  assumes B: "blake2b_laws B" and src: "file_data (w_client_fs w) (canon p) = Some src"
    "chunk_count (length src) \<le> 2 ^ 16"
    and w: "plain_world w (cl_uuid cl) (path_filename p)" and cl: "client_files cl = Map.empty"
    and rx: "rx_idle crx" "rx_idle srx" and pl: "place_ok B w src (cl_uuid cl) (path_filename p) S fs"
    and start: "begin_upload B w cl p crx fs srx = Inr n"
    and es: "list_all (net_admits w (cl_uuid cl) (path_filename p)) es"
  obtains lf S' d r where "upload_ok w lf src (cl_uuid cl) (path_filename p)" and "f_hash lf = calc_hash_buf B src"
    and "net_at B w lf src (cl_uuid cl) (path_filename p) (fold (net_step B w) es n) (S', d) r"
    and "rtranclp (transfer (chunk_count (length src))) (S, False) (S', d)"
    and "r + counted (net_step B w) net_counts es n \<le> 8510 * Suc (chunk_count (length src))"
proof -
  obtain lf where lf: "makeLocalFile B [] (w_client_fs w) p = Inr lf"
    using start by (auto simp: begin_upload_def rbind_Inr_iff)
  obtain cl' out x where offer: "Client_offer (w_client_conns w) (w_client_sends w) cl 0 lf = (cl', out, x)"
    by (metis prod.collapse)
  have n: "n = net_start cl' crx fs srx out"
    using start lf offer by (simp add: begin_upload_def split: option.splits)
  note ready = local_file_ready [OF B lf src w]
  obtain r where r: "r \<le> 8510 * Suc (chunk_count (length src))"
    "net_at B w lf src (cl_uuid cl) (path_filename p) n (S, False) r"
    using net_started [OF ready(1) cl offer rx pl] n by blast
  obtain a' r' where run: "rtranclp (transfer (chunk_count (length src))) (S, False) a'"
    "net_at B w lf src (cl_uuid cl) (path_filename p) (fold (net_step B w) es n) a' r'"
    "r' + counted (net_step B w) net_counts es n \<le> r"
    using upload.run_simulates [of w lf src "cl_uuid cl" "path_filename p" B n "(S, False)" r es] ready r(2) B es
    by blast
  show thesis using that [OF ready(1,2)] run r(1) by (metis le_trans prod.collapse)
qed

section \<open>Instance\<close>

definition sample_schedule :: "net_event list" where
  "sample_schedule = [Server_Reads 5, Other sample_other_req, Client_Works, Server_Reads 4000, Server_Works]"

lemma sample_schedule_admitted:
  "list_all (net_admits sample_world u (path_filename (ascii ''/f''))) sample_schedule"
  using sample_others [of u] by (simp add: sample_schedule_def about_others_def) (simp add: sample_other_req_def)

lemma sample_place_path: "place_path sample_world u (path_filename (ascii ''/f'')) = ascii ''/in/d/f''"
  unfolding sample_f by (simp add: sample_world_def SERVER_BASE_PATH_def path_append_def ascii_def)

lemma sample_fresh: "fresh_place B sample_world src u (path_filename (ascii ''/f'')) Map.empty"
  by (simp add: fresh_place_def blank_meta_def sample_place_path stored_keys(3) node_at_def)

lemma sample_place: "place_ok B sample_world src u (path_filename (ascii ''/f'')) {} Map.empty"
  using sample_fresh by (auto simp: place_ok_def)

definition sample_net :: "fsys \<Rightarrow> net" where
  "sample_net fs = net_start (sample_new_client\<lparr>client_files := [ascii ''f'' \<mapsto> sample_upload]\<rparr>) sample_rx fs
     sample_rx (fst (snd (Client_offer sample_conns sample_sends sample_new_client 0 sample_upload)))"

lemma sample_begins:
  "begin_upload b2_concat sample_world sample_new_client (ascii ''/f'') sample_rx fs sample_rx = Inr (sample_net fs)"
proof -
  have lf: "good_conn sample_conns sample_sends 0" "length (f_hash sample_upload) = HASH_SIZE"
    using calc_hash_buf_length [OF b2_concat_laws] by (simp_all add: sample_good sample_upload_def HASH_SIZE_def)
  have none: "client_files sample_new_client (path_filename (f_path sample_upload)) = None"
    by (simp add: sample_new_client_def)
  obtain buf where "Client_offer sample_conns sample_sends sample_new_client 0 sample_upload =
      (sample_new_client\<lparr>client_files := (client_files sample_new_client)(path_filename (f_path sample_upload) \<mapsto> sample_upload)\<rparr>,
       [(0, buf)], None)" by (rule Client_offer_sent [OF lf none])
  then show ?thesis
    by (simp add: begin_upload_def sample_made rbind_def sample_net_def)
      (simp add: sample_world_def sample_new_client_def sample_upload_def sample_f)
qed

lemma sample_no_files: "client_files sample_new_client = Map.empty"
  by (simp add: sample_new_client_def)

lemma sample_small: "chunk_count (length [7 :: byte, 8, 9]) \<le> 2 ^ 16"
  by (simp add: chunk_count_def)

end
