(* ===== verification/FT_Race.thy ===== *)
theory FT_Race
  imports FT_File
begin

text \<open>
  Several worker threads saving chunks of one file at the same time.  \<open>FileRemote::saveChunk\<close> and
  \<open>FileMetadata::markChunk\<close> take no lock, so the actions of the threads on the two files
  interleave: the bytes of the chunk are written, the byte of the bitmap is read, and the byte
  is written back with one more bit.  The theory cuts \<open>saveChunk\<close> into these three actions, lets
  any schedule interleave them, and shows what survives: a marked chunk has its bytes, but a
  mark can get lost when two chunks share a byte of the bitmap.
\<close>

section \<open>The actions of a worker\<close>

text \<open>The two halves of \<open>markChunk\<close>: up to the read, and from the update of the byte on.\<close>

definition mark_fetch :: "file_metadata \<Rightarrow> fsys \<Rightarrow> size_t \<Rightarrow> byte \<times> fstream" where
  "mark_fetch m fs chunk_idx =
     (let ms = open_inout fs (fm_metadata_file m);
          ms = st_seek ms (fm_header_size m + chunk_idx div 8);
          (d, ms) = st_read fs ms 1
      in (case d of [] \<Rightarrow> 0 | b # _ \<Rightarrow> b, ms))"

definition mark_store :: "file_metadata \<Rightarrow> fsys \<Rightarrow> size_t \<Rightarrow> bool \<Rightarrow> byte \<Rightarrow> fstream \<Rightarrow> fsys" where
  "mark_store m fs chunk_idx valid bitmap ms =
     (let bt = push_bit (7 - unat (chunk_idx mod 8)) 1;
          bitmap = (if valid then bitmap OR bt else bitmap AND NOT bt);
          ms = st_seek ms (fm_header_size m + chunk_idx div 8)
      in snd (st_write fs ms [bitmap]))"

lemma markChunk_halves:
  "markChunk m fs i v = (case mark_fetch m fs i of (b, ms) \<Rightarrow> mark_store m fs i v b ms)"
  by (simp add: markChunk_def mark_fetch_def mark_store_def Let_def split: prod.split)

text \<open>
  Where a worker is in \<open>saveChunk\<close>: before the checks, after the data was written, after the byte
  of the bitmap was read, and at the end.
\<close>

datatype save_phase = S_Start | S_Written | S_Fetched byte fstream | S_Done

record saver =
  sv_chunk :: file_chunk
  sv_phase :: save_phase

fun save_act :: "ft_file \<Rightarrow> file_chunk \<Rightarrow> save_phase \<Rightarrow> fsys \<Rightarrow> save_phase \<times> fsys" where
  "save_act f chunk S_Start fs =
     (let offset = fc_idx chunk * CHUNK_SIZE
      in if offset > f_size f then (S_Done, fs)
         else
           let chunk_size = (if f_size f - offset < CHUNK_SIZE then f_size f - offset else CHUNK_SIZE)
           in if unat chunk_size \<noteq> length (fc_data chunk) then (S_Done, fs)
              else (S_Written,
                snd (st_write fs (st_seek (open_inout fs (f_effective_path f)) offset) (fc_data chunk))))"
| "save_act f chunk S_Written fs =
     (case mark_fetch (f_metadata f) fs (fc_idx chunk) of (b, ms) \<Rightarrow> (S_Fetched b ms, fs))"
| "save_act f chunk (S_Fetched b ms) fs =
     (S_Done, mark_store (f_metadata f) fs (fc_idx chunk) True b ms)"
| "save_act f chunk S_Done fs = (S_Done, fs)"

text \<open>A schedule is the list of the workers in the order in which they act.\<close>

definition save_turn :: "ft_file \<Rightarrow> nat \<Rightarrow> saver list \<times> fsys \<Rightarrow> saver list \<times> fsys" where
  "save_turn f k s =
     (case s of (ts, fs) \<Rightarrow>
        if k < length ts
        then case save_act f (sv_chunk (ts ! k)) (sv_phase (ts ! k)) fs of
               (ph, fs) \<Rightarrow> (ts[k := (ts ! k)\<lparr>sv_phase := ph\<rparr>], fs)
        else (ts, fs))"

definition save_run :: "ft_file \<Rightarrow> nat list \<Rightarrow> saver list \<times> fsys \<Rightarrow> saver list \<times> fsys" where
  "save_run f sched s = fold (save_turn f) sched s"

definition start_saver :: "file_chunk \<Rightarrow> saver" where
  "start_saver c = \<lparr>sv_chunk = c, sv_phase = S_Start\<rparr>"

text \<open>A worker that is not interrupted does what \<open>saveChunk\<close> does, on any file system.\<close>

lemma saveChunk_actions:
  assumes "is_FileRemote f"
  shows "saveChunk f fs c = (Inr (), snd (save_run f [0, 0, 0] ([start_saver c], fs)))"
proof (cases f)
  case (FileRemote p h sz e m)
  obtain os fs' where w: "st_write fs (st_seek (open_inout fs e) (fc_idx c * CHUNK_SIZE)) (fc_data c) = (os, fs')"
    by fastforce
  show ?thesis
    by (simp add: FileRemote save_run_def save_turn_def start_saver_def Let_def w markChunk_halves
        split: prod.split)
qed (use assms in simp)

section \<open>The actions on a consistent file\<close>

lemma mark_fetch_inside:
  assumes lay: "meta_layout m fs hdr bm" and idx: "unat i div 8 < length bm"
  shows "mark_fetch m fs i = (bm ! (unat i div 8),
    \<lparr>st_key = canon (fm_metadata_file m), st_pos = Suc (80 + unat i div 8), st_ok = True\<rparr>)"
proof -
  let ?ms = "\<lparr>st_key = canon (fm_metadata_file m), st_pos = 80 + unat i div 8, st_ok = True\<rparr>"
  have seek: "st_seek (open_inout fs (fm_metadata_file m)) (fm_header_size m + i div 8) = ?ms"
    using lay by (simp add: meta_open meta_seek)
  have "length hdr = 80" using lay by (simp add: meta_layout_def)
  then have "st_read fs ?ms 1 = ([bm ! (unat i div 8)], ?ms\<lparr>st_pos := Suc (80 + unat i div 8)\<rparr>)"
    using idx lay by (simp add: stream_read_one meta_stream_data nth_append)
  then show ?thesis by (simp add: mark_fetch_def Let_def seek)
qed

lemma mark_store_inside:
  assumes lay: "meta_layout m fs hdr bm" and idx: "unat i div 8 < length bm"
  shows "mark_store m fs i True b
      \<lparr>st_key = canon (fm_metadata_file m), st_pos = p, st_ok = True\<rparr> =
    fs(canon (fm_metadata_file m) \<mapsto>
      Regular (hdr @ bm[unat i div 8 := b OR push_bit (7 - unat i mod 8) 1]))"
proof -
  let ?ms = "\<lparr>st_key = canon (fm_metadata_file m), st_pos = 80 + unat i div 8, st_ok = True\<rparr>"
  have "length hdr = 80" using lay by (simp add: meta_layout_def)
  then have "snd (st_write fs ?ms [b']) =
      fs(canon (fm_metadata_file m) \<mapsto> Regular (hdr @ bm[unat i div 8 := b']))" for b'
    using idx lay by (simp add: st_write_def meta_stream_data write_at_one list_update_append)
  then show ?thesis using lay by (simp add: mark_store_def Let_def meta_seek unat_mod)
qed

text \<open>The bits of a byte of the bitmap that is stored with one more bit.\<close>

lemma stored_bits:
  assumes "i div 8 < length bm"
  shows "chunk_bit (bm[i div 8 := b OR push_bit (7 - i mod 8) 1]) j =
    (if j div 8 = i div 8 then j = i \<or> bit b (7 - j mod 8) else chunk_bit bm j)"
proof -
  let ?bm = "bm[i div 8 := b]"
  have "chunk_bit (set_chunk_bit ?bm i True) j = (if j = i then True else chunk_bit ?bm j)"
    using assms by (intro chunk_bit_set) simp
  then show ?thesis using assms by (auto simp: set_chunk_bit_def Let_def chunk_bit_def)
qed

text \<open>A worker has a chunk of the source \<open>src\<close>.\<close>

definition honest :: "bytes \<Rightarrow> file_chunk \<Rightarrow> bool" where
  "honest src c \<longleftrightarrow>
     unat (fc_idx c) < chunk_count (length src) \<and> fc_data c = chunk_at src (unat (fc_idx c))"

lemma honest_fits:
  assumes "remote_state f fs dat bm" and "length src = unat (f_size f)" and "honest src c"
  shows "unat (fc_idx c) < 2 ^ 32" and "unat (fc_idx c) * CHUNK \<le> unat (f_size f)"
    and "length (fc_data c) = chunk_len (unat (f_size f)) (unat (fc_idx c))"
    and "unat (fc_idx c) div 8 < length bm"
proof -
  have lt: "unat (fc_idx c) * CHUNK < unat (f_size f)"
    using assms(2,3) by (simp add: honest_def chunk_count_iff)
  then show "unat (fc_idx c) * CHUNK \<le> unat (f_size f)" by simp
  show "unat (fc_idx c) < 2 ^ 32" using lt remote_state_parts(10) [OF assms(1)] by simp
  show "length (fc_data c) = chunk_len (unat (f_size f)) (unat (fc_idx c))"
    using assms(2,3) by (simp add: honest_def chunk_at_len)
  show "unat (fc_idx c) div 8 < length bm"
    using assms(2,3) remote_state_parts(4) [OF assms(1)] unfolding honest_def by auto
qed

text \<open>The stream of a worker that has read its byte stands behind that byte.\<close>

definition mark_stream :: "ft_file \<Rightarrow> file_chunk \<Rightarrow> fstream" where
  "mark_stream f c = \<lparr>st_key = canon (fm_metadata_file (f_metadata f)),
     st_pos = Suc (80 + unat (fc_idx c) div 8), st_ok = True\<rparr>"

lemma save_act_steps:
  assumes st: "remote_state f fs dat bm" and len: "length src = unat (f_size f)" and c: "honest src c"
  defines "i \<equiv> unat (fc_idx c)"
  shows "\<exists>fs'. save_act f c S_Start fs = (S_Written, fs') \<and>
      remote_state f fs' (write_at dat (i * CHUNK) (chunk_at src i)) bm"
    and "save_act f c S_Written fs = (S_Fetched (bm ! (i div 8)) (mark_stream f c), fs)"
    and "\<exists>fs'. save_act f c (S_Fetched b (mark_stream f c)) fs = (S_Done, fs') \<and>
      remote_state f fs' dat (bm[i div 8 := b OR push_bit (7 - i mod 8) 1])"
proof -
  note fits = honest_fits [OF st len c] and lay = remote_state_parts(1) [OF st]
  have d: "fc_data c = chunk_at src i" using c by (simp add: honest_def i_def)
  show "\<exists>fs'. save_act f c S_Start fs = (S_Written, fs') \<and>
      remote_state f fs' (write_at dat (i * CHUNK) (chunk_at src i)) bm"
    using save_data [OF st fits(1-3)] by (simp add: Let_def i_def d [unfolded i_def])
  show "save_act f c S_Written fs = (S_Fetched (bm ! (i div 8)) (mark_stream f c), fs)"
    using mark_fetch_inside [OF lay fits(4)] by (simp add: mark_stream_def i_def)
  show "\<exists>fs'. save_act f c (S_Fetched b (mark_stream f c)) fs = (S_Done, fs') \<and>
      remote_state f fs' dat (bm[i div 8 := b OR push_bit (7 - i mod 8) 1])"
    using mark_store_inside [OF lay fits(4), of b] remote_state_bitmap [OF st]
    by (simp add: mark_stream_def i_def)
qed

lemma save_turn_nth:
  assumes "k < length ts" and "save_act f (sv_chunk (ts ! k)) (sv_phase (ts ! k)) fs = (ph, fs')"
  shows "save_turn f k (ts, fs) = (ts[k := (ts ! k)\<lparr>sv_phase := ph\<rparr>], fs')"
  using assms by (simp add: save_turn_def)

lemma save_turn_idle: "\<not> k < length ts \<Longrightarrow> save_turn f k (ts, fs) = (ts, fs)"
  by (simp add: save_turn_def)

section \<open>What holds in every interleaving\<close>

text \<open>
  A worker past its first action has its chunk in the data file; the byte it read promises only
  chunks that are there.
\<close>

definition saver_ok :: "ft_file \<Rightarrow> bytes \<Rightarrow> bytes \<Rightarrow> saver \<Rightarrow> bool" where
  "saver_ok f src dat t \<longleftrightarrow>
     honest src (sv_chunk t) \<and>
     (sv_phase t \<noteq> S_Start \<longrightarrow>
       chunk_at dat (unat (fc_idx (sv_chunk t))) = chunk_at src (unat (fc_idx (sv_chunk t)))) \<and>
     (\<forall>b ms. sv_phase t = S_Fetched b ms \<longrightarrow> ms = mark_stream f (sv_chunk t) \<and>
       (\<forall>j < chunk_count (length src). j div 8 = unat (fc_idx (sv_chunk t)) div 8 \<longrightarrow>
          bit b (7 - j mod 8) \<longrightarrow> chunk_at dat j = chunk_at src j))"

definition race_inv :: "ft_file \<Rightarrow> bytes \<Rightarrow> saver list \<times> fsys \<Rightarrow> bytes \<Rightarrow> bytes \<Rightarrow> bool" where
  "race_inv f src s dat bm \<longleftrightarrow>
     remote_state f (snd s) dat bm \<and> length src = unat (f_size f) \<and>
     (\<forall>j < chunk_count (length src). chunk_bit bm j \<longrightarrow> chunk_at dat j = chunk_at src j) \<and>
     (\<forall>t \<in> set (fst s). saver_ok f src dat t)"

lemma saver_ok_mono:
  assumes "saver_ok f src dat t"
    and "\<And>j. j < chunk_count (length src) \<Longrightarrow> chunk_at dat j = chunk_at src j \<Longrightarrow> chunk_at dat' j = chunk_at src j"
  shows "saver_ok f src dat' t"
  using assms unfolding saver_ok_def honest_def by blast

lemma set_update_cases: "t \<in> set (ts[k := x]) \<Longrightarrow> t = x \<or> t \<in> set ts"
  using set_update_subset_insert [of ts k x] by auto

text \<open>What one action does to the worker and to the bitmap.\<close>

definition phase_after :: "ft_file \<Rightarrow> bytes \<Rightarrow> saver \<Rightarrow> save_phase" where
  "phase_after f bm t =
     (case sv_phase t of
        S_Start \<Rightarrow> S_Written
      | S_Written \<Rightarrow> S_Fetched (bm ! (unat (fc_idx (sv_chunk t)) div 8)) (mark_stream f (sv_chunk t))
      | _ \<Rightarrow> S_Done)"

definition bits_after :: "bytes \<Rightarrow> saver \<Rightarrow> bytes" where
  "bits_after bm t =
     (let i = unat (fc_idx (sv_chunk t))
      in case sv_phase t of
           S_Fetched b ms \<Rightarrow> bm[i div 8 := b OR push_bit (7 - i mod 8) 1]
         | _ \<Rightarrow> bm)"

text \<open>
  One action of one worker: right chunks stay right, marked chunks are right, and the worker is
  where it should be.
\<close>

definition data_ok :: "ft_file \<Rightarrow> bytes \<Rightarrow> fsys \<Rightarrow> bytes \<Rightarrow> bytes \<Rightarrow> bool" where
  "data_ok f src fs dat bm \<longleftrightarrow>
     remote_state f fs dat bm \<and> length src = unat (f_size f) \<and>
     (\<forall>j < chunk_count (length src). chunk_bit bm j \<longrightarrow> chunk_at dat j = chunk_at src j)"

definition stays_right :: "bytes \<Rightarrow> bytes \<Rightarrow> bytes \<Rightarrow> bool" where
  "stays_right src dat dat' \<longleftrightarrow>
     (\<forall>j < chunk_count (length src). chunk_at dat j = chunk_at src j \<longrightarrow> chunk_at dat' j = chunk_at src j)"

lemma race_inv_data: "race_inv f src s dat bm \<longleftrightarrow>
    data_ok f src (snd s) dat bm \<and> (\<forall>t \<in> set (fst s). saver_ok f src dat t)"
  by (auto simp: race_inv_def data_ok_def)

lemma saver_step:
  assumes ok: "data_ok f src fs dat bm" and t: "saver_ok f src dat t"
  shows "\<exists>fs' dat'. save_act f (sv_chunk t) (sv_phase t) fs = (phase_after f bm t, fs') \<and>
    data_ok f src fs' dat' (bits_after bm t) \<and> stays_right src dat dat' \<and>
    saver_ok f src dat' (t\<lparr>sv_phase := phase_after f bm t\<rparr>)"
proof -
  let ?c = "sv_chunk t" and ?i = "unat (fc_idx (sv_chunk t))"
  have st: "remote_state f fs dat bm" and len: "length src = unat (f_size f)"
    and bits: "\<And>j. j < chunk_count (length src) \<Longrightarrow> chunk_bit bm j \<Longrightarrow> chunk_at dat j = chunk_at src j"
    using ok by (simp_all add: data_ok_def)
  have dat: "length dat \<le> length src" using remote_state_parts(9) [OF st] len by simp
  have c: "honest src ?c" and i: "?i < chunk_count (length src)" using t by (auto simp: saver_ok_def honest_def)
  note steps = save_act_steps [OF st len c] and defs = phase_after_def bits_after_def data_ok_def stays_right_def
  show ?thesis
  proof (cases "sv_phase t")
    case S_Start
    let ?dat = "write_at dat (?i * CHUNK) (chunk_at src ?i)"
    obtain fs' where "save_act f ?c S_Start fs = (S_Written, fs')" "remote_state f fs' ?dat bm"
      using steps(1) by blast
    then show ?thesis
      using S_Start len bits c right_written [OF dat i]
      by (intro exI [of _ fs'] exI [of _ ?dat]) (simp add: defs saver_ok_def)
  next
    case S_Written
    then show ?thesis
      using steps(2) ok t bits by (intro exI [of _ fs] exI [of _ dat]) (auto simp: defs saver_ok_def chunk_bit_def)
  next
    case (S_Fetched b ms)
    let ?bm = "bm[?i div 8 := b OR push_bit (7 - ?i mod 8) 1]"
    obtain fs' where "save_act f ?c (S_Fetched b ms) fs = (S_Done, fs')" "remote_state f fs' dat ?bm"
      using steps(3) t S_Fetched by (auto simp: saver_ok_def)
    moreover have "chunk_at dat j = chunk_at src j" if "j < chunk_count (length src)" "chunk_bit ?bm j" for j
      using that t bits [OF that(1)] S_Fetched stored_bits [OF honest_fits(4) [OF st len c], of b j]
      by (auto simp: saver_ok_def split: if_splits)
    ultimately show ?thesis
      using S_Fetched len t by (intro exI [of _ fs'] exI [of _ dat]) (simp add: defs saver_ok_def Let_def)
  next
    case S_Done
    then show ?thesis
      using ok t by (intro exI [of _ fs] exI [of _ dat]) (simp add: defs saver_ok_def)
  qed
qed

lemma race_inv_turn:
  assumes inv: "race_inv f src (ts, fs) dat bm" and k: "k < length ts"
  shows "\<exists>fs' dat'. save_turn f k (ts, fs) = (ts[k := (ts ! k)\<lparr>sv_phase := phase_after f bm (ts ! k)\<rparr>], fs') \<and>
    race_inv f src (ts[k := (ts ! k)\<lparr>sv_phase := phase_after f bm (ts ! k)\<rparr>], fs') dat' (bits_after bm (ts ! k))"
proof -
  have ok: "data_ok f src fs dat bm" "saver_ok f src dat (ts ! k)" and others: "\<forall>t \<in> set ts. saver_ok f src dat t"
    using inv k by (simp_all add: race_inv_data nth_mem)
  obtain fs' dat' where step: "save_act f (sv_chunk (ts ! k)) (sv_phase (ts ! k)) fs = (phase_after f bm (ts ! k), fs')"
    "data_ok f src fs' dat' (bits_after bm (ts ! k))" "stays_right src dat dat'"
    "saver_ok f src dat' ((ts ! k)\<lparr>sv_phase := phase_after f bm (ts ! k)\<rparr>)"
    using saver_step [OF ok] by blast
  have "saver_ok f src dat' u" if "saver_ok f src dat u" for u
    using saver_ok_mono [OF that] step(3) by (simp add: stays_right_def)
  then show ?thesis
    using save_turn_nth [OF k step(1)] step(2,4) others by (auto simp: race_inv_data dest: set_update_cases)
qed

text \<open>Every worker is done after three actions of its own, whatever the others do.\<close>

definition acts_left :: "saver \<Rightarrow> nat" where
  "acts_left t = (case sv_phase t of S_Start \<Rightarrow> 3 | S_Written \<Rightarrow> 2 | S_Fetched b ms \<Rightarrow> 1 | S_Done \<Rightarrow> 0)"

lemma acts_left_after: "acts_left (t\<lparr>sv_phase := phase_after f bm t\<rparr>) = acts_left t - 1"
  by (simp add: acts_left_def phase_after_def split: save_phase.split)

text \<open>
  Induction over the schedule, for any further fact \<open>Q\<close> about workers and bitmap that the actions
  keep.
\<close>

lemma race_run:
  assumes "race_inv f src (ts, fs) dat bm" and "Q ts bm"
    and step: "\<And>ts fs dat bm k. race_inv f src (ts, fs) dat bm \<Longrightarrow> Q ts bm \<Longrightarrow> k < length ts \<Longrightarrow>
      Q (ts[k := (ts ! k)\<lparr>sv_phase := phase_after f bm (ts ! k)\<rparr>]) (bits_after bm (ts ! k))"
  shows "\<exists>ts' fs' dat' bm'. save_run f sched (ts, fs) = (ts', fs') \<and> race_inv f src (ts', fs') dat' bm' \<and>
    Q ts' bm' \<and> map sv_chunk ts' = map sv_chunk ts \<and>
    (\<forall>k < length ts. acts_left (ts' ! k) = acts_left (ts ! k) - count_list sched k)"
  using assms(1,2)
proof (induction sched arbitrary: ts fs dat bm)
  case Nil
  then show ?case by (auto simp: save_run_def)
next
  case (Cons k sched)
  show ?case
  proof (cases "k < length ts")
    case True
    let ?ts = "ts[k := (ts ! k)\<lparr>sv_phase := phase_after f bm (ts ! k)\<rparr>]"
    obtain fs' dat' where turn: "save_turn f k (ts, fs) = (?ts, fs')"
      and inv: "race_inv f src (?ts, fs') dat' (bits_after bm (ts ! k))"
      using race_inv_turn [OF Cons.prems(1) True] by blast
    have chunks: "map sv_chunk ?ts = map sv_chunk ts"
      using True by (simp add: map_update list_update_same_conv)
    obtain ts' fs'' dat'' bm'' where run: "save_run f sched (?ts, fs') = (ts', fs'')"
      "race_inv f src (ts', fs'') dat'' bm''" "Q ts' bm''" "map sv_chunk ts' = map sv_chunk ?ts"
      "\<forall>j < length ?ts. acts_left (ts' ! j) = acts_left (?ts ! j) - count_list sched j"
      using Cons.IH [OF inv step [OF Cons.prems True]] by blast
    show ?thesis
    proof (intro exI conjI)
      show "save_run f (k # sched) (ts, fs) = (ts', fs'')" using run(1) by (simp add: save_run_def turn)
      show "map sv_chunk ts' = map sv_chunk ts" using run(4) chunks by simp
      show "\<forall>j < length ts. acts_left (ts' ! j) = acts_left (ts ! j) - count_list (k # sched) j"
        using run(5) by (auto simp: nth_list_update acts_left_after)
    qed (fact run(2), fact run(3))
  next
    case False
    then show ?thesis using Cons.IH [OF Cons.prems] by (auto simp: save_run_def save_turn_idle)
  qed
qed

section \<open>Workers on different bytes of the bitmap\<close>

abbreviation sv_idx :: "saver \<Rightarrow> nat" where
  "sv_idx t \<equiv> unat (fc_idx (sv_chunk t))"

text \<open>
  As long as no two workers share a byte of the bitmap, what a worker has read is still there
  when it writes, and the marks are exactly the old ones and those of the workers that are done.
\<close>

definition marks_exact :: "bytes \<Rightarrow> nat \<Rightarrow> saver list \<Rightarrow> bytes \<Rightarrow> bool" where
  "marks_exact bm0 n ts bm \<longleftrightarrow>
     distinct (map (\<lambda>t. sv_idx t div 8) ts) \<and>
     (\<forall>k < length ts. \<forall>b ms. sv_phase (ts ! k) = S_Fetched b ms \<longrightarrow> b = bm ! (sv_idx (ts ! k) div 8)) \<and>
     (\<forall>j < n. chunk_bit bm j \<longleftrightarrow>
        chunk_bit bm0 j \<or> (\<exists>k < length ts. sv_phase (ts ! k) = S_Done \<and> sv_idx (ts ! k) = j))"

lemma bits_after_other:
  "sv_idx t div 8 \<noteq> m \<Longrightarrow> bits_after bm t ! m = bm ! m"
  by (simp add: bits_after_def Let_def split: save_phase.split)

lemma bits_after_bit:
  assumes "sv_idx t div 8 < length bm"
    and "\<And>b ms. sv_phase t = S_Fetched b ms \<Longrightarrow> b = bm ! (sv_idx t div 8)"
  shows "chunk_bit (bits_after bm t) j \<longleftrightarrow> chunk_bit bm j \<or> (j = sv_idx t \<and> (\<exists>b ms. sv_phase t = S_Fetched b ms))"
proof (cases "sv_phase t")
  case (S_Fetched b ms)
  have "bits_after bm t = bm[sv_idx t div 8 := b OR push_bit (7 - sv_idx t mod 8) 1]"
    using S_Fetched by (simp add: bits_after_def Let_def)
  then show ?thesis
    using stored_bits [OF assms(1), of b j] assms(2) [OF S_Fetched] S_Fetched by (auto simp: chunk_bit_def)
qed (simp_all add: bits_after_def)

lemma marks_exact_step:
  assumes inv: "race_inv f src (ts, fs) dat bm" and ex: "marks_exact bm0 (chunk_count (length src)) ts bm"
    and k: "k < length ts"
  shows "marks_exact bm0 (chunk_count (length src))
    (ts[k := (ts ! k)\<lparr>sv_phase := phase_after f bm (ts ! k)\<rparr>]) (bits_after bm (ts ! k))"
proof -
  let ?t = "(ts ! k)\<lparr>sv_phase := phase_after f bm (ts ! k)\<rparr>"
  have d: "distinct (map (\<lambda>t. sv_idx t div 8) ts)" and read: "\<And>k b ms. k < length ts \<Longrightarrow>
      sv_phase (ts ! k) = S_Fetched b ms \<Longrightarrow> b = bm ! (sv_idx (ts ! k) div 8)"
    and bits: "\<And>j. j < chunk_count (length src) \<Longrightarrow> chunk_bit bm j \<longleftrightarrow> chunk_bit bm0 j \<or>
      (\<exists>k < length ts. sv_phase (ts ! k) = S_Done \<and> sv_idx (ts ! k) = j)"
    using ex by (auto simp: marks_exact_def)
  have byte: "sv_idx (ts ! k) div 8 < length bm"
    using inv k honest_fits(4) by (auto simp: race_inv_def saver_ok_def)
  have "map (\<lambda>t. sv_idx t div 8) (ts[k := ?t]) = map (\<lambda>t. sv_idx t div 8) ts"
    using k by (simp add: map_update list_update_same_conv)
  moreover have "b = bits_after bm (ts ! k) ! (sv_idx (ts[k := ?t] ! j) div 8)"
    if "j < length ts" "sv_phase (ts[k := ?t] ! j) = S_Fetched b ms" for j b ms
  proof (cases "j = k")
    case True
    then show ?thesis
      using that k by (auto simp: phase_after_def bits_after_def split: save_phase.splits)
  next
    case False
    have "sv_idx (ts ! k) div 8 \<noteq> sv_idx (ts ! j) div 8"
      using d k that(1) False by (simp add: distinct_conv_nth)
    then show ?thesis using read [of j b ms] that False by (simp add: bits_after_other)
  qed
  moreover have "chunk_bit (bits_after bm (ts ! k)) j \<longleftrightarrow> chunk_bit bm0 j \<or>
      (\<exists>i < length ts. sv_phase (ts[k := ?t] ! i) = S_Done \<and> sv_idx (ts[k := ?t] ! i) = j)"
    if "j < chunk_count (length src)" for j
  proof -
    have "phase_after f bm (ts ! k) = S_Done \<longleftrightarrow>
        sv_phase (ts ! k) = S_Done \<or> (\<exists>b ms. sv_phase (ts ! k) = S_Fetched b ms)"
      by (simp add: phase_after_def split: save_phase.split)
    then have "sv_phase (ts[k := ?t] ! i) = S_Done \<and> sv_idx (ts[k := ?t] ! i) = j \<longleftrightarrow>
        (sv_phase (ts ! i) = S_Done \<and> sv_idx (ts ! i) = j) \<or>
        (i = k \<and> j = sv_idx (ts ! k) \<and> (\<exists>b ms. sv_phase (ts ! k) = S_Fetched b ms))" if "i < length ts" for i
      using that k by (cases "i = k") auto
    then have "(\<exists>i < length ts. sv_phase (ts[k := ?t] ! i) = S_Done \<and> sv_idx (ts[k := ?t] ! i) = j) \<longleftrightarrow>
        (\<exists>i < length ts. sv_phase (ts ! i) = S_Done \<and> sv_idx (ts ! i) = j) \<or>
        (j = sv_idx (ts ! k) \<and> (\<exists>b ms. sv_phase (ts ! k) = S_Fetched b ms))" using k by blast
    moreover have "chunk_bit (bits_after bm (ts ! k)) j \<longleftrightarrow>
        chunk_bit bm j \<or> (j = sv_idx (ts ! k) \<and> (\<exists>b ms. sv_phase (ts ! k) = S_Fetched b ms))"
      by (rule bits_after_bit [OF byte]) (rule read [OF k])
    ultimately show ?thesis using bits [OF that] by blast
  qed
  ultimately show ?thesis using d by (simp add: marks_exact_def)
qed

lemma race_run_marks:
  assumes "race_inv f src (ts, fs) dat bm" and "marks_exact bm0 (chunk_count (length src)) ts bm"
  shows "\<exists>ts' fs' dat' bm'. save_run f sched (ts, fs) = (ts', fs') \<and> race_inv f src (ts', fs') dat' bm' \<and>
    marks_exact bm0 (chunk_count (length src)) ts' bm' \<and> map sv_chunk ts' = map sv_chunk ts \<and>
    (\<forall>k < length ts. acts_left (ts' ! k) = acts_left (ts ! k) - count_list sched k)"
  using assms by (rule race_run) (rule marks_exact_step)

section \<open>Two workers on one byte of the bitmap\<close>

lemma race_start:
  assumes "remote_state f fs dat bm" and "length src = unat (f_size f)"
    and "chunks_from src (remote_view f fs)" and "list_all (honest src) cs"
  shows "race_inv f src (map start_saver cs, fs) dat bm"
  using assms
  by (auto simp: race_inv_def remote_view_state chunks_from_def list_all_iff saver_ok_def start_saver_def)

lemma race_view:
  assumes "race_inv f src (ts, fs) dat bm"
  shows "chunks_from src (remote_view f fs)"
    and "snd (remote_view f fs) = {j. j < chunk_count (length src) \<and> chunk_bit bm j}"
  using assms remote_state_parts(9) [of f fs dat bm]
  by (auto simp: race_inv_def remote_view_state chunks_from_def)

text \<open>
  Both workers read the byte before either writes it: the second write restores the byte without
  the bit of the first.
\<close>

lemma lost_mark:
  assumes inv: "race_inv f src ([start_saver c, start_saver d], fs) dat bm"
    and byte: "unat (fc_idx c) div 8 = unat (fc_idx d) div 8"
  shows "\<exists>fs' dat' bm'. save_run f [0, 0, 1, 1, 0, 1] ([start_saver c, start_saver d], fs) =
      ([\<lparr>sv_chunk = c, sv_phase = S_Done\<rparr>, \<lparr>sv_chunk = d, sv_phase = S_Done\<rparr>], fs') \<and>
    race_inv f src ([\<lparr>sv_chunk = c, sv_phase = S_Done\<rparr>, \<lparr>sv_chunk = d, sv_phase = S_Done\<rparr>], fs') dat' bm' \<and>
    (\<forall>j. chunk_bit bm' j \<longleftrightarrow> j = unat (fc_idx d) \<or> chunk_bit bm j)"
proof -
  let ?m = "unat (fc_idx d) div 8" and ?t = "\<lambda>x ph. \<lparr>sv_chunk = x, sv_phase = ph\<rparr>"
  let ?fet = "\<lambda>x. S_Fetched (bm ! ?m) (mark_stream f x)"
  let ?bm1 = "bm[?m := bm ! ?m OR push_bit (7 - unat (fc_idx c) mod 8) 1]"
  let ?bm2 = "?bm1[?m := bm ! ?m OR push_bit (7 - unat (fc_idx d) mod 8) 1]"
  note sets = phase_after_def bits_after_def start_saver_def byte Let_def
  have len: "?m < length bm"
    using inv honest_fits(4) [of f fs dat bm src d] by (auto simp: race_inv_def saver_ok_def start_saver_def)
  obtain fs1 dat1 where 1: "save_turn f 0 ([start_saver c, start_saver d], fs) = ([?t c S_Written, ?t d S_Start], fs1)"
    "race_inv f src ([?t c S_Written, ?t d S_Start], fs1) dat1 bm"
    using race_inv_turn [OF inv, of 0] by (auto simp: sets)
  obtain fs2 dat2 where 2: "save_turn f 0 ([?t c S_Written, ?t d S_Start], fs1) = ([?t c (?fet c), ?t d S_Start], fs2)"
    "race_inv f src ([?t c (?fet c), ?t d S_Start], fs2) dat2 bm"
    using race_inv_turn [OF 1(2), of 0] by (auto simp: sets)
  obtain fs3 dat3 where 3: "save_turn f 1 ([?t c (?fet c), ?t d S_Start], fs2) = ([?t c (?fet c), ?t d S_Written], fs3)"
    "race_inv f src ([?t c (?fet c), ?t d S_Written], fs3) dat3 bm"
    using race_inv_turn [OF 2(2), of 1] by (auto simp: sets)
  obtain fs4 dat4 where 4: "save_turn f 1 ([?t c (?fet c), ?t d S_Written], fs3) = ([?t c (?fet c), ?t d (?fet d)], fs4)"
    "race_inv f src ([?t c (?fet c), ?t d (?fet d)], fs4) dat4 bm"
    using race_inv_turn [OF 3(2), of 1] by (auto simp: sets)
  obtain fs5 dat5 where 5: "save_turn f 0 ([?t c (?fet c), ?t d (?fet d)], fs4) = ([?t c S_Done, ?t d (?fet d)], fs5)"
    "race_inv f src ([?t c S_Done, ?t d (?fet d)], fs5) dat5 ?bm1"
    using race_inv_turn [OF 4(2), of 0] by (auto simp: sets)
  obtain fs6 dat6 where 6: "save_turn f 1 ([?t c S_Done, ?t d (?fet d)], fs5) = ([?t c S_Done, ?t d S_Done], fs6)"
    "race_inv f src ([?t c S_Done, ?t d S_Done], fs6) dat6 ?bm2"
    using race_inv_turn [OF 5(2), of 1] by (auto simp: sets)
  have bits: "chunk_bit ?bm2 j \<longleftrightarrow> j = unat (fc_idx d) \<or> chunk_bit bm j" for j
    using stored_bits [of "unat (fc_idx d)" ?bm1 "bm ! ?m" j] len by (auto simp: chunk_bit_def)
  show ?thesis
    using 1(1) 2(1) 3(1) 4(1) 5(1) 6 bits by (auto simp: save_run_def)
qed

section \<open>Properties of concurrent saving\<close>

text \<open>For the instances: a file of ten chunks whose contents is all zero.\<close>

definition race_meta :: file_metadata where
  "race_meta = \<lparr>fm_effective_path = ascii ''/d/f'', fm_file_size = 35713, fm_chunk_size = CHUNK_SIZE,
     fm_hash = replicate HASH_SIZE 0, fm_n_chunks = 10, fm_header_size = 80, fm_bitmap_size = 2,
     fm_metadata_file = metadata_path (ascii ''/d/f'')\<rparr>"

definition race_file :: ft_file where
  "race_file = FileRemote (ascii ''d/f'') (replicate HASH_SIZE 0) 35713 (ascii ''/d/f'') race_meta"

definition race_src :: bytes where
  "race_src = replicate 35713 0"

definition race_fs :: fsys where
  "race_fs = [[ascii ''d''] \<mapsto> Dir,
     [ascii ''d'', ascii ''.f.meta''] \<mapsto> Regular (meta_header race_meta @ [0, 0]),
     [ascii ''d'', ascii ''f''] \<mapsto> Regular race_src]"

definition race_chunk :: "size_t \<Rightarrow> file_chunk" where
  "race_chunk i = \<lparr>fc_file = race_file, fc_idx = i, fc_data = replicate 3968 0, fc_hash = []\<rparr>"

lemma race_remote: "remote_state race_file race_fs race_src [0, 0]"
  unfolding remote_state_def
proof (intro conjI)
  show "FileMetadata_new (f_effective_path race_file) (f_size race_file) CHUNK_SIZE (f_hash race_file) =
      Inr (f_metadata race_file)"
    by (simp add: FileMetadata_new_def Let_def race_file_def race_meta_def HASH_SIZE_def CHUNK_SIZE_def
        payload_size_value)
  have "dirs_ok race_fs (canon (ascii ''/d''))"
    by (auto simp: dirs_ok_def sample_keys race_fs_def node_at_def le_Suc_eq)
  then show "\<exists>p w. entry_path (f_effective_path race_file) p w \<and> dirs_ok race_fs (canon p)"
    using sample_entry by (auto simp: race_file_def)
  show "meta_layout (f_metadata race_file) race_fs (meta_header (f_metadata race_file)) [0, 0]"
    using sample_distinct
    by (simp add: meta_layout_def race_file_def race_meta_def sample_keys race_fs_def
        file_data_def node_at_def meta_header_def HASH_SIZE_def)
qed (use sample_distinct in \<open>simp_all add: race_file_def race_meta_def sample_keys race_fs_def race_src_def
      file_data_def node_at_def HASH_SIZE_def\<close>)

lemma race_ready:
  "length race_src = unat (f_size race_file)"
  "remote_view race_file race_fs = (race_src, {})"
  "chunks_from race_src (remote_view race_file race_fs)"
  "unat i < 9 \<Longrightarrow> honest race_src (race_chunk i)"
proof -
  show len: "length race_src = unat (f_size race_file)" by (simp add: race_src_def race_file_def)
  have "\<not> chunk_bit [0, 0] j" if "j < chunk_count (unat (f_size race_file))" for j
  proof -
    have "j div 8 < 2" using that by (simp add: race_file_def chunk_count_def)
    then have "j div 8 = 0 \<or> j div 8 = 1" by linarith
    then show ?thesis by (auto simp: chunk_bit_def)
  qed
  then show v: "remote_view race_file race_fs = (race_src, {})" by (auto simp: remote_view_state [OF race_remote])
  then show "chunks_from race_src (remote_view race_file race_fs)" by (simp add: chunks_from_def)
  show "honest race_src (race_chunk i)" if "unat i < 9"
    using that by (auto simp: race_src_def honest_def race_chunk_def chunk_count_def chunk_at_def read_at_def)
qed

text \<open>
  Whatever the schedule, workers that save chunks of one source at the same time leave the
  file consistent, every chunk that is marked has the source's bytes, and a worker is done after
  three actions of its own.
\<close>

theorem race_safe:
  assumes "remote_state f fs dat bm" and "length src = unat (f_size f)"
    and "chunks_from src (remote_view f fs)" and "list_all (honest src) cs"
  shows "\<exists>ts fs' dat' bm'. save_run f sched (map start_saver cs, fs) = (ts, fs') \<and>
    remote_state f fs' dat' bm' \<and> chunks_from src (remote_view f fs') \<and>
    map acts_left ts = map (\<lambda>k. 3 - count_list sched k) [0..<length cs]"
proof -
  obtain ts fs' dat' bm' where run: "save_run f sched (map start_saver cs, fs) = (ts, fs')"
    "race_inv f src (ts, fs') dat' bm'" "map sv_chunk ts = map sv_chunk (map start_saver cs)"
    "\<forall>k < length (map start_saver cs). acts_left (ts ! k) = acts_left (map start_saver cs ! k) - count_list sched k"
    using race_run [OF race_start [OF assms], where Q = "\<lambda>_ _. True"] by blast
  have "length ts = length cs" using run(3) by (metis length_map)
  then have "map acts_left ts = map (\<lambda>k. 3 - count_list sched k) [0..<length cs]"
    using run(4) by (intro nth_equalityI) (simp_all add: acts_left_def start_saver_def)
  then show ?thesis using run(1,2) race_view(1) [OF run(2)] by (auto simp: race_inv_def)
qed

theorem race_safe_witness:
  "\<exists>ts fs' dat' bm'. save_run race_file [0, 0, 1, 1, 0, 1]
      (map start_saver [race_chunk 0, race_chunk 1], race_fs) = (ts, fs') \<and>
    remote_state race_file fs' dat' bm' \<and> chunks_from race_src (remote_view race_file fs') \<and>
    map acts_left ts = map (\<lambda>k. 3 - count_list [0, 0, 1, 1, 0, 1] k) [0..<length [race_chunk 0, race_chunk 1]]"
  by (rule race_safe [OF race_remote race_ready(1,3)]) (simp add: race_ready(4))

text \<open>
  C15.  Workers whose chunks lie in different bytes of the bitmap do not disturb each other: when
  each has acted three times, in any order, exactly their chunks have been added to the marked
  ones, and the marked chunks have the source's bytes.
\<close>

theorem race_disjoint:
  assumes "remote_state f fs dat bm" and "length src = unat (f_size f)"
    and "chunks_from src (remote_view f fs)" and "list_all (honest src) cs"
    and "distinct (map (\<lambda>c. unat (fc_idx c) div 8) cs)" and "\<And>k. k < length cs \<Longrightarrow> 3 \<le> count_list sched k"
  shows "\<exists>ts fs'. save_run f sched (map start_saver cs, fs) = (ts, fs') \<and>
    chunks_from src (remote_view f fs') \<and>
    snd (remote_view f fs') = snd (remote_view f fs) \<union> (\<lambda>c. unat (fc_idx c)) ` set cs"
proof -
  let ?n = "chunk_count (length src)" and ?ts = "map start_saver cs"
  have start: "marks_exact bm ?n ?ts bm" using assms(5) by (auto simp: marks_exact_def start_saver_def comp_def)
  obtain ts fs' dat' bm' where run: "save_run f sched (?ts, fs) = (ts, fs')"
    "race_inv f src (ts, fs') dat' bm'" "marks_exact bm ?n ts bm'" "map sv_chunk ts = map sv_chunk ?ts"
    "\<forall>k < length ?ts. acts_left (ts ! k) = acts_left (?ts ! k) - count_list sched k"
    using race_run_marks [OF race_start [OF assms(1-4)] start] by blast
  have cs: "map sv_chunk ts = cs" using run(4) by (simp add: start_saver_def comp_def)
  then have len: "length ts = length cs" by (metis length_map)
  have "sv_phase (ts ! k) = S_Done" if "k < length cs" for k
  proof -
    have "acts_left (ts ! k) = 0"
      using run(5) that assms(6) [OF that] by (simp add: acts_left_def start_saver_def)
    then show ?thesis by (simp add: acts_left_def split: save_phase.splits)
  qed
  then have "(\<exists>k < length ts. sv_phase (ts ! k) = S_Done \<and> sv_idx (ts ! k) = j) \<longleftrightarrow>
      (\<exists>k < length ts. sv_idx (ts ! k) = j)" for j using len by auto
  moreover have "(\<exists>k < length ts. sv_idx (ts ! k) = j) \<longleftrightarrow> j \<in> (\<lambda>c. unat (fc_idx c)) ` set cs" for j
    unfolding cs [symmetric] by (force simp: in_set_conv_nth image_iff)
  moreover have "(\<lambda>c. unat (fc_idx c)) ` set cs \<subseteq> {..<?n}" using assms(4) by (auto simp: list_all_iff honest_def)
  ultimately have "{j. j < ?n \<and> chunk_bit bm' j} =
      {j. j < ?n \<and> chunk_bit bm j} \<union> (\<lambda>c. unat (fc_idx c)) ` set cs"
    using run(3) by (auto simp: marks_exact_def)
  then show ?thesis
    using run(1) race_view [OF run(2)] race_view(2) [OF race_start [OF assms(1-4)]] by auto
qed

theorem race_disjoint_witness:
  "\<exists>ts fs'. save_run race_file [0, 1, 0, 1, 0, 1]
      (map start_saver [race_chunk 0, race_chunk 8], race_fs) = (ts, fs') \<and>
    chunks_from race_src (remote_view race_file fs') \<and>
    snd (remote_view race_file fs') = snd (remote_view race_file race_fs) \<union>
      (\<lambda>c. unat (fc_idx c)) ` set [race_chunk 0, race_chunk 8]"
proof (rule race_disjoint [OF race_remote race_ready(1,3)])
  show "list_all (honest race_src) [race_chunk 0, race_chunk 8]" by (simp add: race_ready(4))
  show "distinct (map (\<lambda>c. unat (fc_idx c) div 8) [race_chunk 0, race_chunk 8])"
    by (simp add: race_chunk_def)
qed (auto simp: less_Suc_eq)

text \<open>
  C33.  Two workers with chunks in the same byte of the bitmap can lose a mark: both write their
  bytes, both read the byte of the bitmap, and the one that writes last removes the mark of the
  other.  Both are done, both chunks are in the data file, but the first one counts as missing
  and will be requested again.
\<close>

theorem race_loses_mark:
  assumes "remote_state f fs dat bm" and "length src = unat (f_size f)"
    and "chunks_from src (remote_view f fs)" and "list_all (honest src) [c, d]"
    and "unat (fc_idx c) div 8 = unat (fc_idx d) div 8"
  shows "\<exists>fs'. save_run f [0, 0, 1, 1, 0, 1] (map start_saver [c, d], fs) =
      ([\<lparr>sv_chunk = c, sv_phase = S_Done\<rparr>, \<lparr>sv_chunk = d, sv_phase = S_Done\<rparr>], fs') \<and>
    snd (remote_view f fs') = insert (unat (fc_idx d)) (snd (remote_view f fs)) \<and>
    chunk_at (fst (remote_view f fs')) (unat (fc_idx c)) = fc_data c \<and>
    chunk_at (fst (remote_view f fs')) (unat (fc_idx d)) = fc_data d"
proof -
  note inv = race_start [OF assms(1-4)]
  obtain fs' dat' bm' where run: "save_run f [0, 0, 1, 1, 0, 1] (map start_saver [c, d], fs) =
      ([\<lparr>sv_chunk = c, sv_phase = S_Done\<rparr>, \<lparr>sv_chunk = d, sv_phase = S_Done\<rparr>], fs')"
    and inv': "race_inv f src ([\<lparr>sv_chunk = c, sv_phase = S_Done\<rparr>, \<lparr>sv_chunk = d, sv_phase = S_Done\<rparr>], fs') dat' bm'"
    and bits: "\<And>j. chunk_bit bm' j \<longleftrightarrow> j = unat (fc_idx d) \<or> chunk_bit bm j"
    using lost_mark [OF inv [unfolded list.map] assms(5)] by auto
  have h: "honest src c" "honest src d" using assms(4) by simp_all
  have view: "remote_view f fs' = (dat', snd (remote_view f fs'))"
    using inv' remote_view_state [of f fs' dat' bm'] by (simp add: race_inv_def)
  have "snd (remote_view f fs') = insert (unat (fc_idx d)) (snd (remote_view f fs))"
    using bits h(2) by (auto simp: race_view(2) [OF inv'] race_view(2) [OF inv] honest_def)
  moreover have "chunk_at dat' (unat (fc_idx c)) = fc_data c" "chunk_at dat' (unat (fc_idx d)) = fc_data d"
    using inv' h by (simp_all add: race_inv_def saver_ok_def honest_def)
  ultimately show ?thesis using run view by (metis fst_conv)
qed

theorem race_loses_mark_witness:
  "\<exists>fs'. save_run race_file [0, 0, 1, 1, 0, 1] (map start_saver [race_chunk 0, race_chunk 1], race_fs) =
      ([\<lparr>sv_chunk = race_chunk 0, sv_phase = S_Done\<rparr>, \<lparr>sv_chunk = race_chunk 1, sv_phase = S_Done\<rparr>], fs') \<and>
    snd (remote_view race_file fs') =
      insert (unat (fc_idx (race_chunk 1))) (snd (remote_view race_file race_fs)) \<and>
    chunk_at (fst (remote_view race_file fs')) (unat (fc_idx (race_chunk 0))) = fc_data (race_chunk 0) \<and>
    chunk_at (fst (remote_view race_file fs')) (unat (fc_idx (race_chunk 1))) = fc_data (race_chunk 1)"
proof (rule race_loses_mark [OF race_remote race_ready(1,3)])
  show "list_all (honest race_src) [race_chunk 0, race_chunk 1]" by (simp add: race_ready(4))
  show "unat (fc_idx (race_chunk 0)) div 8 = unat (fc_idx (race_chunk 1)) div 8" by (simp add: race_chunk_def)
qed

end
