(* ===== verification/FT_Crash.thy ===== *)
theory FT_Crash
  imports FT_Net FT_Race
begin

text \<open>
  A server that is killed.  While it saves chunks each of its workers may be anywhere in
  \<open>FileRemote::saveChunk\<close>, also in the middle of writing the bytes of its chunk; while it creates a
  file it may have got as far as some of the directories, some bytes of the metadata file, the
  metadata file without the data file, or an empty data file.  The theory says what is on the disk then, and whether a
  later upload of the same file can go on from there.
\<close>

section \<open>Killed while saving chunks\<close>

text \<open>Of the bytes that \<open>saveChunk\<close> writes only the first \<open>k\<close> reach the file.\<close>

definition torn_write :: "ft_file \<Rightarrow> file_chunk \<Rightarrow> nat \<Rightarrow> fsys \<Rightarrow> fsys" where
  "torn_write f chunk k fs =
     (let offset = fc_idx chunk * CHUNK_SIZE
      in snd (st_write fs (st_seek (open_inout fs (f_effective_path f)) offset) (take k (fc_data chunk))))"

text \<open>
  The workers for the chunks \<open>cs\<close> act in the order \<open>sched\<close>; when the server is killed further ones
  are in the middle of writing, each with its chunk and the number of bytes written.
\<close>

definition killed_saving ::
    "ft_file \<Rightarrow> file_chunk list \<Rightarrow> nat list \<Rightarrow> (file_chunk \<times> nat) list \<Rightarrow> fsys \<Rightarrow> fsys" where
  "killed_saving f cs sched cuts fs =
     fold (\<lambda>(c, k). torn_write f c k) cuts (snd (save_run f sched (map start_saver cs, fs)))"

lemma torn_write_state:
  assumes st: "remote_state f fs dat bm" and len: "length src = unat (f_size f)" and c: "honest src c"
  shows "remote_state f (torn_write f c k fs)
    (write_at dat (unat (fc_idx c) * CHUNK) (take k (chunk_at src (unat (fc_idx c))))) bm"
proof -
  let ?i = "unat (fc_idx c)" and ?key = "canon (f_effective_path f)"
  let ?d = "take k (chunk_at src (unat (fc_idx c)))"
  note fits = honest_fits [OF st len c] and parts = remote_state_parts [OF st]
  have d: "fc_data c = chunk_at src ?i" using c by (simp add: honest_def)
  have "length dat \<le> length src" "?i < chunk_count (length src)"
    using parts(9) len c by (simp_all add: honest_def)
  from right_length [OF this] have fit: "length (write_at dat (?i * CHUNK) ?d) \<le> unat (f_size f)" using len by simp
  have seek: "st_seek (open_inout fs (f_effective_path f)) (fc_idx c * CHUNK_SIZE) =
      \<lparr>st_key = ?key, st_pos = ?i * CHUNK, st_ok = True\<rparr>"
    using parts(7,8,10) fits(1,2) unat_offset [OF fits(1)] sint_nonneg [of "fc_idx c * CHUNK_SIZE"]
    by (simp add: open_in_def is_regular_file_def st_seek_def)
  have "torn_write f c k fs = fs(?key \<mapsto> Regular (write_at dat (?i * CHUNK) ?d))"
    using parts(8) file_data_not_Dir [OF parts(8)]
    by (auto simp: torn_write_def Let_def seek d st_write_def stream_data_def fun_upd_idem)
  then show ?thesis using remote_state_data [OF st fit] by simp
qed

text \<open>Chunks that are already marked stay marked, also when workers write back what they have read.\<close>

definition marks_kept :: "nat set \<Rightarrow> saver list \<Rightarrow> bytes \<Rightarrow> bool" where
  "marks_kept S ts bm \<longleftrightarrow>
     (\<forall>j \<in> S. chunk_bit bm j) \<and>
     (\<forall>k < length ts. \<forall>b ms. sv_phase (ts ! k) = S_Fetched b ms \<longrightarrow>
        (\<forall>j \<in> S. j div 8 = sv_idx (ts ! k) div 8 \<longrightarrow> bit b (7 - j mod 8)))"

lemma marks_kept_step:
  assumes inv: "race_inv f src (ts, fs) dat bm" and kept: "marks_kept S ts bm" and k: "k < length ts"
  shows "marks_kept S (ts[k := (ts ! k)\<lparr>sv_phase := phase_after f bm (ts ! k)\<rparr>]) (bits_after bm (ts ! k))"
proof -
  let ?t = "(ts ! k)\<lparr>sv_phase := phase_after f bm (ts ! k)\<rparr>"
  have bits: "chunk_bit bm j" if "j \<in> S" for j using kept that by (simp add: marks_kept_def)
  have byte: "sv_idx (ts ! k) div 8 < length bm"
    using inv k honest_fits(4) by (auto simp: race_inv_def saver_ok_def)
  have "chunk_bit (bits_after bm (ts ! k)) j" if "j \<in> S" for j
  proof (cases "sv_phase (ts ! k)")
    case (S_Fetched b ms)
    then show ?thesis
      using stored_bits [OF byte, of b j] bits [OF that] kept k that
      by (auto simp: bits_after_def Let_def marks_kept_def)
  qed (use bits [OF that] in \<open>simp_all add: bits_after_def\<close>)
  moreover have "bit b (7 - j mod 8)"
    if "n < length ts" "sv_phase (ts[k := ?t] ! n) = S_Fetched b ms" "j \<in> S"
      "j div 8 = sv_idx (ts[k := ?t] ! n) div 8" for n b ms j
  proof (cases "n = k")
    case True
    then show ?thesis
      using that k bits [OF that(3)] by (auto simp: phase_after_def chunk_bit_def split: save_phase.splits)
  next
    case False
    then show ?thesis using that kept by (auto simp: marks_kept_def)
  qed
  ultimately show ?thesis by (simp add: marks_kept_def)
qed

lemma marks_kept_run:
  assumes "race_inv f src (ts, fs) dat bm" and "marks_kept S ts bm"
  shows "\<exists>ts' fs' dat' bm'. save_run f sched (ts, fs) = (ts', fs') \<and> race_inv f src (ts', fs') dat' bm' \<and>
    marks_kept S ts' bm' \<and> map sv_chunk ts' = map sv_chunk ts \<and>
    (\<forall>k < length ts. acts_left (ts' ! k) = acts_left (ts ! k) - count_list sched k)"
  using assms by (rule race_run) (rule marks_kept_step)

lemma torn_writes:
  assumes "remote_state f fs dat bm" and len: "length src = unat (f_size f)"
    and "\<And>j. j < chunk_count (length src) \<Longrightarrow> chunk_bit bm j \<Longrightarrow> chunk_at dat j = chunk_at src j"
    and "list_all (\<lambda>(c, k). honest src c) cuts"
  shows "\<exists>dat'. remote_state f (fold (\<lambda>(c, k). torn_write f c k) cuts fs) dat' bm \<and>
    (\<forall>j < chunk_count (length src). chunk_bit bm j \<longrightarrow> chunk_at dat' j = chunk_at src j)"
  using assms(1,3,4)
proof (induction cuts arbitrary: fs dat)
  case Nil
  then show ?case by auto
next
  case (Cons p cuts)
  obtain c k where p: "p = (c, k)" by fastforce
  have c: "honest src c" using Cons.prems(3) p by simp
  have dat: "length dat \<le> length src" using remote_state_parts(9) [OF Cons.prems(1)] len by simp
  have "chunk_at (write_at dat (unat (fc_idx c) * CHUNK) (take k (chunk_at src (unat (fc_idx c))))) j = chunk_at src j"
    if "j < chunk_count (length src)" "chunk_bit bm j" for j
    using right_kept [OF dat _ Cons.prems(2) [OF that]] c by (simp add: honest_def)
  from Cons.IH [OF torn_write_state [OF Cons.prems(1) len c] this] Cons.prems(3) show ?case by (simp add: p)
qed

text \<open>
  Whatever the workers did: the file is consistent, no mark is lost that was there before, and the
  marked chunks have the bytes of the source.
\<close>

lemma killed_stored:
  assumes f: "stored_chunks B w src uuid name f S fs"
    and cs: "list_all (honest src) cs" "list_all (\<lambda>(c, k). honest src c) cuts"
  obtains S' where "S \<subseteq> S'" and "stored_chunks B w src uuid name f S' (killed_saving f cs sched cuts fs)"
proof -
  have sf: "server_file B w src uuid name f fs" and S: "snd (remote_view f fs) = S"
    using f by (simp_all add: stored_chunks_def)
  then obtain dat bm where st: "remote_state f fs dat bm" by (auto simp: server_file_def)
  have len: "length src = unat (f_size f)" and cf: "chunks_from src (remote_view f fs)"
    using sf by (simp_all add: server_file_def)
  have old: "S = {j. j < chunk_count (length src) \<and> chunk_bit bm j}"
    using S by (simp add: remote_view_state [OF st] len)
  then have "marks_kept S (map start_saver cs) bm" by (auto simp: marks_kept_def start_saver_def)
  from marks_kept_run [OF race_start [OF st len cf cs(1)] this, of sched]
  obtain ts fs1 dat1 bm1 where run: "save_run f sched (map start_saver cs, fs) = (ts, fs1)"
    "race_inv f src (ts, fs1) dat1 bm1" "marks_kept S ts bm1" by blast
  obtain dat2 where st2: "remote_state f (killed_saving f cs sched cuts fs) dat2 bm1"
    and right: "\<forall>j < chunk_count (length src). chunk_bit bm1 j \<longrightarrow> chunk_at dat2 j = chunk_at src j"
    using torn_writes [OF _ len _ cs(2), of fs1 dat1 bm1] run(1,2) by (auto simp: killed_saving_def race_inv_def)
  let ?S = "{j. j < chunk_count (length src) \<and> chunk_bit bm1 j}"
  have v: "remote_view f (killed_saving f cs sched cuts fs) = (dat2, ?S)"
    by (simp add: remote_view_state [OF st2] len)
  have "server_file B w src uuid name f (killed_saving f cs sched cuts fs)"
    using sf st2 right remote_state_parts(9) [OF st2] len by (auto simp: server_file_def v chunks_from_def)
  moreover have "S \<subseteq> ?S" using old run(3) by (auto simp: marks_kept_def)
  ultimately show thesis using that [of ?S] v by (simp add: stored_chunks_def)
qed

section \<open>Killed while creating the file\<close>

text \<open>
  How far the constructor of a remote file got: through some components of the directory, to the
  metadata file with some of its bytes, or to a data file that is still empty.
\<close>

datatype create_cut = Cut_Dirs nat | Cut_Meta nat | Cut_Data

definition meta_killed :: "file_metadata \<Rightarrow> nat \<Rightarrow> fsys \<Rightarrow> fsys" where
  "meta_killed m k fs =
     (case create_directories fs (parent_path (fm_effective_path m)) of
        (Inl e, fs) \<Rightarrow> fs
      | (Inr _, fs) \<Rightarrow>
          (if fs_exists fs (fm_metadata_file m) then fs
           else let (ms, fs) = open_out fs (fm_metadata_file m)
                in snd (st_write fs ms (take k
                  (native64 (fm_file_size m) @ native64 (fm_chunk_size m) @ take HASH_SIZE (fm_hash m) @
                   replicate (unat (fm_bitmap_size m)) 0)))))"

definition create_killed :: "bytes \<Rightarrow> size_t \<Rightarrow> path \<Rightarrow> create_cut \<Rightarrow> fsys \<Rightarrow> fsys" where
  "create_killed hash fsize effective_path stop fs =
     (case FileMetadata_new effective_path fsize CHUNK_SIZE hash of
        Inl e \<Rightarrow> fs
      | Inr m \<Rightarrow>
          (case stop of
             Cut_Dirs i \<Rightarrow> snd (mkdirs fs [] (take i (canon (parent_path effective_path))))
           | Cut_Meta k \<Rightarrow> meta_killed m k fs
           | Cut_Data \<Rightarrow>
               (case create_directories fs (parent_path effective_path) of
                  (Inl e, fs) \<Rightarrow> fs
                | (Inr _, fs) \<Rightarrow>
                    (case createIfNotExist m fs of
                       (Inl e, fs) \<Rightarrow> fs
                     | (Inr _, fs) \<Rightarrow>
                         if fs_exists fs effective_path then fs else snd (open_out fs effective_path)))))"

lemma meta_killed_new:
  assumes dir: "create_directories fs (parent_path (fm_effective_path m)) = (Inr u, fs1)"
    and new: "\<not> fs_exists fs1 (fm_metadata_file m)"
    and can: "fm_metadata_file m \<noteq> []" "can_create fs1 (canon (fm_metadata_file m))"
  shows "meta_killed m k fs = fs1(canon (fm_metadata_file m) \<mapsto>
    Regular (take k (meta_header m @ replicate (unat (fm_bitmap_size m)) 0)))"
proof -
  let ?k = "canon (fm_metadata_file m)"
  have key: "?k \<noteq> []" using can(2) by (rule can_create_key)
  have open_: "open_out fs1 (fm_metadata_file m) =
      (\<lparr>st_key = ?k, st_pos = 0, st_ok = True\<rparr>, fs1(?k \<mapsto> Regular []))"
    using can by (simp add: open_out_def)
  have "snd (st_write (fs1(?k \<mapsto> Regular [])) \<lparr>st_key = ?k, st_pos = 0, st_ok = True\<rparr> d) = fs1(?k \<mapsto> Regular d)" for d
    by (simp add: st_write_def stream_data_def file_data_update [OF key] write_at_def)
  then show ?thesis by (simp add: meta_killed_def dir new open_ meta_header_def del: take_append)
qed

text \<open>A constructor that is not killed before its last byte has done what \<open>createIfNotExist\<close> does.\<close>

lemma meta_killed_whole:
  assumes "create_directories fs (parent_path (fm_effective_path m)) = (Inr u, fs1)"
    and "\<not> fs_exists fs1 (fm_metadata_file m)"
    and "fm_metadata_file m \<noteq> []" "can_create fs1 (canon (fm_metadata_file m))"
    and "length (fm_hash m) = HASH_SIZE" and "unat (fm_bitmap_size m) < 2 ^ 31"
    and "80 + unat (fm_bitmap_size m) \<le> k"
  shows "createIfNotExist m fs = (Inr (), meta_killed m k fs)"
  using createIfNotExist_new [OF assms(1-6)] meta_killed_new [OF assms(1-4), of k] assms(7)
    meta_header_length [OF assms(5)] by simp

text \<open>The metadata file as the constructor leaves it when it is killed, on a place that is free.\<close>

lemma create_killed_meta:
  assumes ok: "upload_ok w lf src uuid name" and fresh: "fresh_place B w src uuid name fs"
    and m: "FileMetadata_new (place_path w uuid name) (word_of_nat (length src)) CHUNK_SIZE (calc_hash_buf B src) = Inr m"
  obtains fs1 where "fresh_place B w src uuid name fs1" and "dirs_ok fs1 (canon (w_prefix w) @ [w_uuid_str w uuid])"
    and "create_killed (calc_hash_buf B src) (word_of_nat (length src)) (place_path w uuid name) (Cut_Meta k) fs =
      (if node_at fs1 (canon (metadata_path (place_path w uuid name))) = None
       then fs1(canon (metadata_path (place_path w uuid name)) \<mapsto>
         Regular (take k (meta_header m @ replicate (unat (fm_bitmap_size m)) 0)))
       else fs1)"
    and "node_at fs (canon (metadata_path (place_path w uuid name))) = None \<Longrightarrow>
      node_at fs1 (canon (metadata_path (place_path w uuid name))) = None"
proof -
  let ?e = "place_path w uuid name" and ?dir = "w_prefix w @ slash # w_uuid_str w uuid"
  note e = server_path(2) [OF upload_ok_parts(3-6) [OF ok]] and fields = FileMetadata_fields [OF m]
  note parts = entry_path_parts [OF e] and mparts = entry_path_parts [OF metadata_path_entry [OF e]]
  note pc = place_canon [OF ok] and keys = entry_keys_differ [OF e]
  obtain fs1 where fs1: "create_directories fs ?dir = (Inr (), fs1)" by (rule fresh_create [OF ok fresh])
  have t: "touches (dirs_to (canon ?dir)) {} fs fs1" using create_directories_touches [OF fs1] by blast
  have fresh1: "fresh_place B w src uuid name fs1"
    by (rule fresh_touches [OF ok t _ _ _ _ fresh]) (auto simp: pc dest: dirs_to_length)
  have dirs: "dirs_ok fs1 (canon ?dir)" using fs1 by (rule create_directories_dirs_ok)
  have "create_killed (calc_hash_buf B src) (word_of_nat (length src)) ?e (Cut_Meta k) fs =
      (if node_at fs1 (canon (metadata_path ?e)) = None
       then fs1(canon (metadata_path ?e) \<mapsto> Regular (take k (meta_header m @ replicate (unat (fm_bitmap_size m)) 0)))
       else fs1)"
  proof (cases "node_at fs1 (canon (metadata_path ?e)) = None")
    case True
    then have "can_create fs1 (canon (metadata_path ?e))"
      using mparts(3) dirs_ok_dir [OF dirs] keys(3) by (auto simp: can_create_def node_at_def)
    then have "meta_killed m k fs = fs1(canon (fm_metadata_file m) \<mapsto>
        Regular (take k (meta_header m @ replicate (unat (fm_bitmap_size m)) 0)))"
      using fs1 True mparts(4) by (intro meta_killed_new) (simp_all add: fields parts fs_exists_def)
    then show ?thesis using True by (simp add: create_killed_def m fields)
  next
    case False
    then show ?thesis using fs1 mparts(4) by (auto simp: create_killed_def m meta_killed_def fields parts fs_exists_def)
  qed
  moreover have "canon (metadata_path ?e) \<notin> dirs_to (canon ?dir)"
    using dirs_to_length [of "canon (metadata_path ?e)" "canon ?dir"] mparts(3) by auto
  then have "node_at fs (canon (metadata_path ?e)) = None \<Longrightarrow> node_at fs1 (canon (metadata_path ?e)) = None"
    using t unfolding touches_def node_at_def by (metis empty_iff option.distinct(1))
  ultimately show thesis using that [OF fresh1] dirs by (simp add: pc)
qed

text \<open>
  Killed before the metadata file exists, or after its last byte, the constructor leaves a place
  on which the file can be created, or the file without a chunk.
\<close>

definition clean_cut :: "bytes \<Rightarrow> create_cut \<Rightarrow> bool" where
  "clean_cut src stop \<longleftrightarrow>
     (case stop of Cut_Dirs i \<Rightarrow> True | Cut_Meta k \<Rightarrow> 81 + chunk_count (length src) div 8 \<le> k
      | Cut_Data \<Rightarrow> True)"

lemma fresh_blank:
  assumes ok: "upload_ok w lf src uuid name" and fresh: "fresh_place B w src uuid name fs"
    and m: "FileMetadata_new (place_path w uuid name) (word_of_nat (length src)) CHUNK_SIZE (calc_hash_buf B src) = Inr m"
  shows "fresh_place B w src uuid name (fs(canon (metadata_path (place_path w uuid name)) \<mapsto>
    Regular (meta_header m @ replicate (unat (fm_bitmap_size m)) 0)))"
proof -
  let ?e = "place_path w uuid name" and ?K = "canon (w_prefix w) @ [w_uuid_str w uuid]"
  note keys = entry_keys_differ [OF server_path(2) [OF upload_ok_parts(3-6) [OF ok]]]
  have "canon (metadata_path ?e) \<notin> dirs_to ?K"
    using dirs_to_length [of "canon (metadata_path ?e)" ?K] place_meta [OF ok] by auto
  then have "node_at (fs(canon (metadata_path ?e) \<mapsto> n)) j = node_at fs j" if "j \<in> dirs_to ?K" for j n
    using that keys(3) by (auto simp: node_at_update)
  then show ?thesis
    using fresh m keys server_path(4) [OF upload_ok_parts(3-6) [OF ok]]
    by (auto simp: fresh_place_def blank_meta_def node_at_update)
qed

lemma killed_fresh:
  assumes ok: "upload_ok w lf src uuid name" and B: "blake2b_laws B" and fresh: "fresh_place B w src uuid name fs"
    and clean: "clean_cut src stop" "stop \<noteq> Cut_Data"
  shows "fresh_place B w src uuid name
    (create_killed (calc_hash_buf B src) (word_of_nat (length src)) (place_path w uuid name) stop fs)"
proof -
  let ?e = "place_path w uuid name" and ?K = "canon (w_prefix w) @ [w_uuid_str w uuid]"
  note e = server_path(2) [OF upload_ok_parts(3-6) [OF ok]]
  have dir: "canon (parent_path ?e) = ?K" using entry_path_parts(2) [OF e] place_canon [OF ok] by simp
  obtain m where m: "FileMetadata_new ?e (word_of_nat (length src)) CHUNK_SIZE (calc_hash_buf B src) = Inr m"
    by (simp add: FileMetadata_new_def Let_def)
  show ?thesis
  proof (cases stop)
    case (Cut_Dirs i)
    obtain r fs' where run: "mkdirs fs [] (take i ?K) = (r, fs')" by fastforce
    have t: "touches (dirs_to (take i ?K)) {} fs fs'" using mkdirs_touches [OF run] by blast
    have "fresh_place B w src uuid name fs'"
      by (rule fresh_touches [OF ok t _ _ _ _ fresh]) (auto dest: dirs_to_length)
    then show ?thesis by (simp add: Cut_Dirs create_killed_def m dir run del: take_append)
  next
    case (Cut_Meta k)
    obtain fs1 where fs1: "fresh_place B w src uuid name fs1" and run:
      "create_killed (calc_hash_buf B src) (word_of_nat (length src)) ?e stop fs =
        (if node_at fs1 (canon (metadata_path ?e)) = None
         then fs1(canon (metadata_path ?e) \<mapsto> Regular (take k (meta_header m @ replicate (unat (fm_bitmap_size m)) 0)))
         else fs1)"
      unfolding Cut_Meta by (rule create_killed_meta [OF ok fresh m])
    note fields = FileMetadata_fields [OF m]
    have "length (fm_hash m) = HASH_SIZE" using calc_hash_buf_length [OF B] by (simp add: fields HASH_SIZE_def)
    then have "take k (meta_header m @ replicate (unat (fm_bitmap_size m)) 0) =
        meta_header m @ replicate (unat (fm_bitmap_size m)) 0"
      using clean fields(9) chunk_limit [OF upload_ok_parts(11) [OF ok]] meta_header_length [of m]
      by (simp add: Cut_Meta clean_cut_def unat_of_nat)
    moreover note fresh_blank [OF ok fs1 m]
    ultimately show ?thesis using run fs1 by simp
  qed (use clean in simp)
qed

lemma killed_data:
  assumes ok: "upload_ok w lf src uuid name" and B: "blake2b_laws B" and fresh: "fresh_place B w src uuid name fs"
  obtains f where "stored_chunks B w src uuid name f {}
    (create_killed (calc_hash_buf B src) (word_of_nat (length src)) (place_path w uuid name) Cut_Data fs)"
proof -
  let ?e = "place_path w uuid name" and ?h = "calc_hash_buf B src" and ?sz = "word_of_nat (length src) :: size_t"
  note e = server_path(2) [OF upload_ok_parts(3-6) [OF ok]]
  have h: "length ?h = HASH_SIZE" using calc_hash_buf_length [OF B] by (simp add: HASH_SIZE_def)
  have n: "unat ?sz = length src" "unat ?sz < 2 ^ 32"
    using chunk_limit [OF upload_ok_parts(11) [OF ok]] by (simp_all add: unat_of_nat)
  obtain m where m: "FileMetadata_new ?e ?sz CHUNK_SIZE ?h = Inr m" by (simp add: FileMetadata_new_def Let_def)
  obtain fs1 where fs1: "create_directories fs (w_prefix w @ slash # w_uuid_str w uuid) = (Inr (), fs1)"
    "node_at fs1 (canon ?e) = None" "blank_meta ?e ?sz ?h fs1"
    using fresh_create [OF ok fresh] server_path(4) [OF upload_ok_parts(3-6) [OF ok]] by metis
  let ?fs2 = "fs1(canon (metadata_path ?e) \<mapsto> Regular (meta_header m @ replicate (unat (fm_bitmap_size m)) 0))"
  let ?f = "FileRemote (path_append (w_uuid_str w uuid) name) ?h ?sz ?e m" and ?fs3 = "?fs2(canon ?e \<mapsto> Regular [])"
  note steps = blank_steps [OF e n(2) h m create_directories_dirs_ok [OF fs1(1)] fs1(3,2)]
  have run: "create_killed ?h ?sz ?e Cut_Data fs = ?fs3"
    using fs1(1) steps(1-3) entry_path_parts [OF e]
    by (simp add: create_killed_def m fs_exists_def open_out_def)
  have st: "remote_state ?f ?fs3 [] (replicate (unat (fm_bitmap_size m)) 0)" by (rule steps(5)) simp
  have "{i. i < chunk_count (unat (f_size ?f)) \<and> chunk_bit (replicate (unat (fm_bitmap_size m)) 0) i} = {}"
    using zero_bits remote_state_parts(4) [OF st] by fastforce
  then have "remote_view ?f ?fs3 = ([], {})" using remote_view_state [OF st] by simp
  then have "stored_chunks B w src uuid name ?f {} ?fs3"
    using st n(1) by (auto simp: stored_chunks_def server_file_def chunks_from_def)
  then show thesis using that run by simp
qed

lemma killed_place:
  assumes "upload_ok w lf src uuid name" and "blake2b_laws B" and "fresh_place B w src uuid name fs"
    and "clean_cut src stop"
  shows "place_ok B w src uuid name {}
    (create_killed (calc_hash_buf B src) (word_of_nat (length src)) (place_path w uuid name) stop fs)"
proof (cases "stop = Cut_Data")
  case True
  then show ?thesis using killed_data [OF assms(1-3)] by (metis place_ok_def)
next
  case False
  then show ?thesis using killed_fresh [OF assms] by (simp add: place_ok_def)
qed

section \<open>A metadata file that was cut off\<close>

text \<open>
  At most the header has reached the disk, so that there is no byte of the bitmap: every search
  for a missing chunk ends at once and reports that there is none.
\<close>

lemma nextMissing_cut:
  assumes "fm_header_size m = 80" and "fm_metadata_file m \<noteq> []"
    and "file_data fs (canon (fm_metadata_file m)) = Some t" and "length t \<le> 80"
  shows "nextMissingChunk m fs 0 = UINT64_MAX"
proof -
  let ?ms = "\<lparr>st_key = canon (fm_metadata_file m), st_pos = 80, st_ok = True\<rparr>"
  have seek: "st_seek (open_in fs (fm_metadata_file m)) 80 = ?ms"
    using assms by (simp add: st_seek_def open_in_def is_regular_file_def)
  have "st_read fs ?ms 1 = ([], ?ms\<lparr>st_ok := False\<rparr>)"
    using assms(3,4) by (simp add: st_read_def stream_data_def read_at_def)
  then have "skip_full fs ?ms 0xFF = (0xFF, ?ms\<lparr>st_ok := False\<rparr>)"
    by (simp add: skip_full.simps [of fs ?ms] skip_full.simps [of fs "\<lparr>st_key = k, st_pos = n, st_ok = False\<rparr>" for k n])
  then show ?thesis by (simp add: nextMissingChunk_def assms(1) seek)
qed

definition torn_place :: "world \<Rightarrow> bytes \<Rightarrow> bytes \<Rightarrow> bytes \<Rightarrow> fsys \<Rightarrow> bool" where
  "torn_place w src uuid name fs \<longleftrightarrow>
     dirs_ok fs (canon (w_prefix w) @ [w_uuid_str w uuid]) \<and>
     (\<exists>t. file_data fs (canon (metadata_path (place_path w uuid name))) = Some t \<and> length t \<le> 80) \<and>
     (node_at fs (canon (place_path w uuid name)) = None \<or>
      file_data fs (canon (place_path w uuid name)) = Some (replicate (length src) 0))"

text \<open>The constructor keeps such a metadata file and adds a data file of zeros.\<close>

lemma torn_constructor:
  assumes ok: "upload_ok w lf src uuid name" and torn: "torn_place w src uuid name fs"
    and sz: "sz = word_of_nat (length src)"
  obtains fs' m where "FileMetadata_new (place_path w uuid name) sz CHUNK_SIZE h = Inr m"
    and "FileRemote_new pth h sz (place_path w uuid name) fs = (Inr (FileRemote pth h sz (place_path w uuid name) m), fs')"
    and "torn_place w src uuid name fs'"
    and "file_data fs' (canon (place_path w uuid name)) = Some (replicate (length src) 0)"
proof -
  let ?e = "place_path w uuid name" and ?dir = "w_prefix w @ slash # w_uuid_str w uuid"
  note e = server_path(2) [OF upload_ok_parts(3-6) [OF ok]] and pc = place_canon [OF ok]
  note parts = entry_path_parts [OF e] and mparts = entry_path_parts [OF metadata_path_entry [OF e]]
  note keys = entry_keys_differ [OF e]
  obtain m where m: "FileMetadata_new ?e sz CHUNK_SIZE h = Inr m" by (simp add: FileMetadata_new_def Let_def)
  note fields = FileMetadata_fields [OF m]
  have dirs: "dirs_ok fs (canon ?dir)" using torn by (simp add: torn_place_def pc)
  have again: "create_directories fs ?dir = (Inr (), fs)" using dirs_ok_create [OF _ dirs] by simp
  obtain t where t: "file_data fs (canon (metadata_path ?e)) = Some t" "length t \<le> 80"
    using torn by (auto simp: torn_place_def)
  have there: "fs_exists fs (metadata_path ?e)" using t(1) mparts(4) by (simp add: fs_exists_def file_data_node_at)
  have old: "createIfNotExist m fs = (Inr (), fs)"
    by (rule createIfNotExist_old) (simp_all add: fields parts again there)
  have n: "unat sz = length src" "unat sz < 2 ^ 32"
    using chunk_limit [OF upload_ok_parts(11) [OF ok]] by (simp_all add: sz unat_of_nat)
  let ?fs = "fs(canon ?e \<mapsto> Regular (replicate (length src) 0))"
  show thesis
  proof (cases "node_at fs (canon ?e) = None")
    case True
    have "can_create fs (canon ?e)"
      using parts(3) dirs_ok_dir [OF dirs] keys True by (auto simp: can_create_def node_at_def)
    from new_data_file [OF parts(4) this n(2)] have new: "snd (case open_out fs ?e of
        (os, fs) \<Rightarrow> st_write fs (st_seek os (sz - 1)) [0]) = ?fs" by (simp add: n)
    have "dirs_ok ?fs (canon ?dir)" using True by (intro dirs_ok_update dirs) simp
    then have "torn_place w src uuid name ?fs" using t keys by (auto simp: torn_place_def pc file_data_update)
    moreover have "FileRemote_new pth h sz ?e fs = (Inr (FileRemote pth h sz ?e m), ?fs)"
      using new True by (simp add: FileRemote_new_def m parts again old fs_exists_def Let_def split_beta)
    ultimately show thesis using that m keys by (simp add: file_data_update)
  next
    case False
    moreover from this have "file_data fs (canon ?e) = Some (replicate (length src) 0)"
      using torn by (auto simp: torn_place_def)
    moreover have "FileRemote_new pth h sz ?e fs = (Inr (FileRemote pth h sz ?e m), fs)"
      using False parts(4) by (auto simp: FileRemote_new_def m parts again old fs_exists_def)
    ultimately show thesis using that m torn by blast
  qed
qed

lemma torn_handled:
  assumes ok: "upload_ok w lf src uuid name" and B: "blake2b_laws B" and hash: "f_hash lf = calc_hash_buf B src"
    and torn: "torn_place w src uuid name fs"
    and zeros: "calc_hash_buf B (replicate (length src) 0) \<noteq> calc_hash_buf B src"
  obtains fs' f' sq' where "torn_place w src uuid name fs'" and "f_path f' = path_append (w_uuid_str w uuid) name"
    and "server_handler B w fs (arrived 0 (buildMsgOffer sq uuid lf) buf) =
      (fs', respond (w_server_conns w) (w_server_sends w) (arrived 0 (buildMsgOffer sq uuid lf) buf)
        (Some (buildMsgChunkReq sq' uuid f' UINT16_MAX UINT16_MAX)))"
proof -
  let ?l = "word_of_nat (length buf - 6)"
  let ?msg = "wire_view (buildMsgOffer sq uuid lf) ?l" and ?req = "arrived 0 (buildMsgOffer sq uuid lf) buf"
  let ?e = "place_path w uuid name" and ?p = "path_append (w_uuid_str w uuid) name"
  note o = offer_arrives [OF ok, of sq ?l]
  have h: "length (f_hash lf) = HASH_SIZE" using upload_ok_parts(8) [OF ok] .
  obtain fs' m where m: "FileMetadata_new ?e (f_size lf) CHUNK_SIZE (f_hash lf) = Inr m"
    and new: "FileRemote_new ?p (f_hash lf) (f_size lf) ?e fs = (Inr (FileRemote ?p (f_hash lf) (f_size lf) ?e m), fs')"
    and fs': "torn_place w src uuid name fs'" "file_data fs' (canon ?e) = Some (replicate (length src) 0)"
    by (rule torn_constructor [OF ok torn upload_size [OF ok]])
  let ?f = "FileRemote ?p (f_hash lf) (f_size lf) ?e m"
  note e = server_path(2) [OF upload_ok_parts(3-6) [OF ok]] and fields = FileMetadata_fields [OF m]
  have "nextMissingChunk m fs' 0 = UINT64_MAX"
    using fs'(1) entry_path_parts(4) [OF metadata_path_entry [OF e]]
    by (auto simp: torn_place_def fields intro: nextMissing_cut)
  from next_response_stale [OF B refl h this entry_path_parts(4) [OF e] fs'(2)] zeros hash
  have "next_response B ?msg ?f fs' = Inr (buildMsgChunkReq (seq_number ?msg + 1) uuid ?f UINT16_MAX UINT16_MAX)"
    by (simp add: o)
  then have "server_handler B w fs ?req = (fs', respond (w_server_conns w) (w_server_sends w) ?req
      (Some (buildMsgChunkReq (seq_number ?msg + 1) uuid ?f UINT16_MAX UINT16_MAX)))"
    using new o by (simp add: Server_handleRequest_def getMessage_def arrived_def makeRemoteFile_def Let_def)
  from that [OF fs'(1) _ this] show thesis by simp
qed

lemma killed_torn:
  assumes ok: "upload_ok w lf src uuid name" and fresh: "fresh_place B w src uuid name fs"
    and new: "node_at fs (canon (metadata_path (place_path w uuid name))) = None" and k: "k \<le> 80"
  shows "torn_place w src uuid name
    (create_killed (calc_hash_buf B src) (word_of_nat (length src)) (place_path w uuid name) (Cut_Meta k) fs)"
proof -
  let ?e = "place_path w uuid name"
  note e = server_path(2) [OF upload_ok_parts(3-6) [OF ok]]
  obtain m where m: "FileMetadata_new ?e (word_of_nat (length src)) CHUNK_SIZE (calc_hash_buf B src) = Inr m"
    by (simp add: FileMetadata_new_def Let_def)
  obtain fs1 where fs1: "fresh_place B w src uuid name fs1" "dirs_ok fs1 (canon (w_prefix w) @ [w_uuid_str w uuid])"
      "node_at fs1 (canon (metadata_path ?e)) = None"
    and run: "create_killed (calc_hash_buf B src) (word_of_nat (length src)) ?e (Cut_Meta k) fs =
      fs1(canon (metadata_path ?e) \<mapsto> Regular (take k (meta_header m @ replicate (unat (fm_bitmap_size m)) 0)))"
    using create_killed_meta [OF ok fresh m, of k] new by metis
  have "dirs_ok (fs1(canon (metadata_path ?e) \<mapsto> Regular d)) (canon (w_prefix w) @ [w_uuid_str w uuid])" for d
    using fs1 by (intro dirs_ok_update) simp_all
  moreover have "node_at fs1 (canon ?e) = None"
    using fs1(1) server_path(4) [OF upload_ok_parts(3-6) [OF ok]] by (simp add: fresh_place_def)
  ultimately show ?thesis
    using k entry_keys_differ [OF e] unfolding run torn_place_def
    by (simp add: file_data_update node_at_update del: take_append)
qed

text \<open>Every attempt to upload the file ends alike, and leaves the place as bad as it was.\<close>

lemma torn_exchange:
  assumes ok: "upload_ok w lf src uuid name" and B: "blake2b_laws B" and hash: "f_hash lf = calc_hash_buf B src"
    and sent: "offer_sent lf uuid ss" and idle: "both_idle lf uuid name ss"
    and torn: "torn_place w src uuid name (ss_server_fs ss)" and few: "length src < 65535 * CHUNK"
    and zeros: "calc_hash_buf B (replicate (length src) 0) \<noteq> calc_hash_buf B src"
  shows "torn_place w src uuid name (ss_server_fs (exchange B w ss)) \<and> ss_client (exchange B w ss) = ss_client ss \<and>
    ss_up (exchange B w ss) = [] \<and>
    ss_errors (exchange B w ss) = ss_errors ss @ [Range_error ''Chunk index outside file length range'']"
proof -
  obtain sq where m: "serialize (buildMsgOffer sq uuid lf) [] = Inr (ss_up ss)"
    using sent by (auto simp: offer_sent_def)
  obtain fs' f' sq' where "torn_place w src uuid name fs'"
    and "f_path f' = path_append (w_uuid_str w uuid) name"
    and "server_handler B w (ss_server_fs ss) (arrived 0 (buildMsgOffer sq uuid lf) (ss_up ss)) =
      (fs', respond (w_server_conns w) (w_server_sends w) (arrived 0 (buildMsgOffer sq uuid lf) (ss_up ss))
        (Some (buildMsgChunkReq sq' uuid f' UINT16_MAX UINT16_MAX)))"
    by (rule torn_handled [OF ok B hash torn zeros])
  with exchange_past_end [OF ok idle m _ _ few] show ?thesis by metis
qed

section \<open>Properties of a killed server\<close>

text \<open>What a later upload of the file comes to, on any schedule.\<close>

lemma upload_from:
  assumes B: "blake2b_laws B" and src: "file_data (w_client_fs w) (canon p) = Some src"
    "chunk_count (length src) \<le> 2 ^ 16"
    and w: "plain_world w (cl_uuid cl) (path_filename p)" and cl: "client_files cl = Map.empty"
    and rx: "rx_idle crx" "rx_idle srx" and pl: "place_ok B w src (cl_uuid cl) (path_filename p) S fs"
    and start: "begin_upload B w cl p crx fs srx = Inr n"
    and es: "list_all (net_admits w (cl_uuid cl) (path_filename p)) es"
  shows "nt_errors (fold (net_step B w) es n) = []"
    and "\<exists>es'. set es' \<subseteq> set net_turns \<and>
      (let n' = fold (net_step B w) (es @ es') n in uploadsCompleted (nt_client n') \<and> nt_errors n' = [] \<and>
        file_data (nt_fs n') (canon (w_prefix w) @ [w_uuid_str w (cl_uuid cl), path_filename p]) = Some src)"
proof -
  obtain lf S' d r where ok: "upload_ok w lf src (cl_uuid cl) (path_filename p)" "f_hash lf = calc_hash_buf B src"
    and at: "net_at B w lf src (cl_uuid cl) (path_filename p) (fold (net_step B w) es n) (S', d) r"
    by (rule net_upload [OF assms])
  show "nt_errors (fold (net_step B w) es n) = []" using net_at_state(1) [OF at] .
  obtain es' S'' r'' where es': "set es' \<subseteq> set net_turns"
    and at': "net_at B w lf src (cl_uuid cl) (path_filename p) (fold (net_step B w) (es @ es') n) (S'', True) r''"
    using net_completes [OF ok(1) B ok(2) at] by auto
  show "\<exists>es'. set es' \<subseteq> set net_turns \<and>
      (let n' = fold (net_step B w) (es @ es') n in uploadsCompleted (nt_client n') \<and> nt_errors n' = [] \<and>
        file_data (nt_fs n') (canon (w_prefix w) @ [w_uuid_str w (cl_uuid cl), path_filename p]) = Some src)"
    using es' net_at_state(1,2) [OF at'] place_complete [OF ok(1) at'] by (auto simp: Let_def)
qed

text \<open>
  C5.  A server that is killed while its workers save chunks, each at any of its actions or in the
  middle of writing its bytes, leaves a file that keeps every mark it had, whose marked chunks
  have the source's bytes, and from which a later upload of the same file goes on: on any
  schedule nothing is thrown and the upload can be brought to its end, with the server's file
  equal to the client's.
\<close>

theorem killed_saving_resumes:
  assumes "blake2b_laws B" and "file_data (w_client_fs w) (canon p) = Some src"
    and "chunk_count (length src) \<le> 2 ^ 16" and "plain_world w (cl_uuid cl) (path_filename p)"
    and "client_files cl = Map.empty" and "rx_idle crx" and "rx_idle srx"
    and "stored_chunks B w src (cl_uuid cl) (path_filename p) f S fs"
    and "list_all (honest src) cs" and "list_all (\<lambda>(c, k). honest src c) cuts"
    and "begin_upload B w cl p crx (killed_saving f cs sched cuts fs) srx = Inr n"
    and "list_all (net_admits w (cl_uuid cl) (path_filename p)) es"
  shows "S \<subseteq> snd (remote_view f (killed_saving f cs sched cuts fs)) \<and>
    chunks_from src (remote_view f (killed_saving f cs sched cuts fs)) \<and>
    nt_errors (fold (net_step B w) es n) = [] \<and>
    (\<exists>es'. set es' \<subseteq> set net_turns \<and>
      (let n' = fold (net_step B w) (es @ es') n in uploadsCompleted (nt_client n') \<and> nt_errors n' = [] \<and>
        file_data (nt_fs n') (canon (w_prefix w) @ [w_uuid_str w (cl_uuid cl), path_filename p]) = Some src))"
proof -
  obtain S' where S': "S \<subseteq> S'"
    "stored_chunks B w src (cl_uuid cl) (path_filename p) f S' (killed_saving f cs sched cuts fs)"
    by (rule killed_stored [OF assms(8-10)])
  then have "place_ok B w src (cl_uuid cl) (path_filename p) S' (killed_saving f cs sched cuts fs)"
    by (auto simp: place_ok_def)
  from upload_from [OF assms(1-7) this assms(11,12)] S' show ?thesis by (auto simp: stored_chunks_def server_file_def)
qed

definition sample_chunk :: file_chunk where
  "sample_chunk = \<lparr>fc_file = stored (calc_hash_buf b2_concat [7, 8, 9]), fc_idx = 0, fc_data = [7, 8, 9], fc_hash = []\<rparr>"

lemma sample_honest: "honest [7, 8, 9] sample_chunk"
  by (simp add: honest_def sample_chunk_def chunk_count_def chunk_at_def read_at_def)

lemma sample_stored:
  "stored_chunks b2_concat sample_world [7, 8, 9] u (path_filename (ascii ''/f''))
    (stored (calc_hash_buf b2_concat [7, 8, 9]))
    (snd (remote_view (stored (calc_hash_buf b2_concat [7, 8, 9])) (stored_fs (calc_hash_buf b2_concat [7, 8, 9]) [0, 0, 0] [0])))
    (stored_fs (calc_hash_buf b2_concat [7, 8, 9]) [0, 0, 0] [0])"
  using stored_part by (simp add: stored_chunks_def)

theorem killed_saving_resumes_witness:
  "let f = stored (calc_hash_buf b2_concat [7, 8, 9]);
       fs = stored_fs (calc_hash_buf b2_concat [7, 8, 9]) [0, 0, 0] [0];
       fs' = killed_saving f [sample_chunk] [0, 0] [(sample_chunk, 2)] fs;
       n = sample_net fs'
   in snd (remote_view f fs) \<subseteq> snd (remote_view f fs') \<and> chunks_from [7, 8, 9] (remote_view f fs') \<and>
    nt_errors (fold (net_step b2_concat sample_world) sample_schedule n) = [] \<and>
    (\<exists>es'. set es' \<subseteq> set net_turns \<and>
      (let n' = fold (net_step b2_concat sample_world) (sample_schedule @ es') n
       in uploadsCompleted (nt_client n') \<and> nt_errors n' = [] \<and>
        file_data (nt_fs n') (canon (w_prefix sample_world) @
          [w_uuid_str sample_world (cl_uuid sample_new_client), path_filename (ascii ''/f'')]) = Some [7, 8, 9]))"
  unfolding Let_def
  by (rule killed_saving_resumes [unfolded Let_def, OF b2_concat_laws sample_src sample_small sample_plain_client
        sample_no_files sample_rx_idle sample_rx_idle sample_stored _ _ sample_begins sample_schedule_admitted])
    (simp_all add: sample_honest)

text \<open>
  C16.  A server that is killed while it creates the file, before the metadata file exists or after
  its last byte, with or without an empty data file, leaves a place from which a later upload of
  the file goes on in the same way.
\<close>

theorem killed_creating_resumes:
  assumes "blake2b_laws B" and "file_data (w_client_fs w) (canon p) = Some src"
    and "chunk_count (length src) \<le> 2 ^ 16" and "plain_world w (cl_uuid cl) (path_filename p)"
    and "client_files cl = Map.empty" and "rx_idle crx" and "rx_idle srx"
    and "makeLocalFile B [] (w_client_fs w) p = Inr lf"
    and "fresh_place B w src (cl_uuid cl) (path_filename p) fs" and "clean_cut src stop"
    and "begin_upload B w cl p crx (create_killed (f_hash lf) (f_size lf)
      (place_path w (cl_uuid cl) (path_filename p)) stop fs) srx = Inr n"
    and "list_all (net_admits w (cl_uuid cl) (path_filename p)) es"
  shows "nt_errors (fold (net_step B w) es n) = [] \<and>
    (\<exists>es'. set es' \<subseteq> set net_turns \<and>
      (let n' = fold (net_step B w) (es @ es') n in uploadsCompleted (nt_client n') \<and> nt_errors n' = [] \<and>
        file_data (nt_fs n') (canon (w_prefix w) @ [w_uuid_str w (cl_uuid cl), path_filename p]) = Some src))"
proof -
  note ready = local_file_ready [OF assms(1,8,2-4)]
  have "place_ok B w src (cl_uuid cl) (path_filename p) {} (create_killed (f_hash lf) (f_size lf)
      (place_path w (cl_uuid cl) (path_filename p)) stop fs)"
    using killed_place [OF ready(1) assms(1,9,10)] by (simp add: ready(2) upload_size [OF ready(1)])
  from upload_from [OF assms(1-7) this assms(11,12)] show ?thesis by blast
qed

theorem killed_creating_resumes_witness:
  "let n = sample_net (create_killed (f_hash sample_upload) (f_size sample_upload)
        (place_path sample_world (cl_uuid sample_new_client) (path_filename (ascii ''/f''))) (Cut_Meta 100) Map.empty)
   in nt_errors (fold (net_step b2_concat sample_world) sample_schedule n) = [] \<and>
    (\<exists>es'. set es' \<subseteq> set net_turns \<and>
      (let n' = fold (net_step b2_concat sample_world) (sample_schedule @ es') n
       in uploadsCompleted (nt_client n') \<and> nt_errors n' = [] \<and>
        file_data (nt_fs n') (canon (w_prefix sample_world) @
          [w_uuid_str sample_world (cl_uuid sample_new_client), path_filename (ascii ''/f'')]) = Some [7, 8, 9]))"
  unfolding Let_def
  by (rule killed_creating_resumes [unfolded Let_def, OF b2_concat_laws sample_src sample_small sample_plain_client
        sample_no_files sample_rx_idle sample_rx_idle sample_made sample_fresh _ sample_begins sample_schedule_admitted])
    (simp add: clean_cut_def chunk_count_def)

text \<open>
  C37.  A server that is killed when at most the header of a new metadata file has reached the disk:
  the next attempts keep the metadata file, which exists, find no missing chunk in it, and yet no
  complete file.  Whenever the file, which is not all zeros, is offered again, the server asks for
  chunk 65535, the client fails with \<open>range_error\<close>, and the upload stays incomplete, however often
  it is tried.
\<close>

theorem torn_metadata_stalls:
  assumes "blake2b_laws B" and "file_data (w_client_fs w) (canon p) = Some src"
    and "length src < 65535 * CHUNK" and "plain_world w (cl_uuid cl) (path_filename p)"
    and "client_files cl = Map.empty" and "rx_idle crx" and "rx_idle srx"
    and "makeLocalFile B [] (w_client_fs w) p = Inr lf"
    and "Client_offer (w_client_conns w) (w_client_sends w) cl 0 lf = (cl', out, x)"
    and "fresh_place B w src (cl_uuid cl) (path_filename p) fs"
    and "node_at fs (canon (metadata_path (place_path w (cl_uuid cl) (path_filename p)))) = None"
    and "k \<le> 80" and "calc_hash_buf B (replicate (length src) 0) \<noteq> calc_hash_buf B src"
  shows "let attempt = \<lambda>fs. exchange B w (start_session cl' crx fs srx out);
      fs' = ((\<lambda>fs. ss_server_fs (attempt fs)) ^^ j) (create_killed (f_hash lf) (f_size lf)
        (place_path w (cl_uuid cl) (path_filename p)) (Cut_Meta k) fs)
    in ss_errors (attempt fs') = [Range_error ''Chunk index outside file length range''] \<and>
       ss_up (attempt fs') = [] \<and> \<not> uploadsCompleted (ss_client (attempt fs'))"
proof -
  have "chunk_count (length src) \<le> 2 ^ 16"
    using assms(3) chunk_count_iff [of "2 ^ 16" "length src"] by simp
  note ready = local_file_ready [OF assms(1,8,2) this assms(4)]
  have none: "client_files cl (path_filename p) = None" using assms(5) by simp
  note start = offer_starts(1,2) [OF ready(1) refl none assms(9,6,7)]
  note files = offer_starts(3) [OF ready(1) refl none assms(9,6,7)]
  let ?a = "\<lambda>fs. exchange B w (start_session cl' crx fs srx out)"
    and ?fs = "create_killed (f_hash lf) (f_size lf) (place_path w (cl_uuid cl) (path_filename p)) (Cut_Meta k) fs"
  have one: "torn_place w src (cl_uuid cl) (path_filename p) (ss_server_fs (?a fs)) \<and>
      ss_errors (?a fs) = [Range_error ''Chunk index outside file length range''] \<and> ss_up (?a fs) = [] \<and>
      \<not> uploadsCompleted (ss_client (?a fs))"
    if "torn_place w src (cl_uuid cl) (path_filename p) fs" for fs
    using torn_exchange [OF ready(1) assms(1) ready(2) start(2,1) _ assms(3,13), of fs] that files
    by (auto simp: start_session_def uploadsCompleted_def)
  have "torn_place w src (cl_uuid cl) (path_filename p) (((\<lambda>fs. ss_server_fs (?a fs)) ^^ j) ?fs)"
  proof (induction j)
    case 0
    then show ?case using killed_torn [OF ready(1) assms(10-12)] by (simp add: ready(2) upload_size [OF ready(1)])
  qed (use one in simp)
  from one [OF this] show ?thesis by (simp add: Let_def)
qed

theorem torn_metadata_stalls_witness:
  "let attempt = \<lambda>fs. exchange b2_concat sample_world
        (start_session (fst (Client_offer sample_conns sample_sends sample_new_client 0 sample_upload))
          sample_rx fs sample_rx (fst (snd (Client_offer sample_conns sample_sends sample_new_client 0 sample_upload))));
      fs' = ((\<lambda>fs. ss_server_fs (attempt fs)) ^^ 2) (create_killed (f_hash sample_upload) (f_size sample_upload)
        (place_path sample_world (cl_uuid sample_new_client) (path_filename (ascii ''/f''))) (Cut_Meta 0) Map.empty)
    in ss_errors (attempt fs') = [Range_error ''Chunk index outside file length range''] \<and>
       ss_up (attempt fs') = [] \<and> \<not> uploadsCompleted (ss_client (attempt fs'))"
proof (rule torn_metadata_stalls [OF b2_concat_laws sample_src _ sample_plain_client sample_no_files
      sample_rx_idle sample_rx_idle sample_made sample_offer_result sample_fresh])
  show "node_at Map.empty (canon (metadata_path
      (place_path sample_world (cl_uuid sample_new_client) (path_filename (ascii ''/f''))))) = None"
    by (simp add: sample_place_path stored_keys(3) node_at_def)
  show "calc_hash_buf b2_concat (replicate (length [7 :: byte, 8, 9]) 0) \<noteq> calc_hash_buf b2_concat [7, 8, 9]"
    by (simp add: calc_hash_buf_def b2_concat_def numeral_3_eq_3)
qed simp_all

end
