(* ===== verification/FT_Create.thy ===== *)
theory FT_Create
  imports FT_Race
begin

text \<open>
  Several worker threads that open one remote file at the same time.  Every request makes a
  \<open>FileRemote\<close> object, whose constructor creates what is missing: the directories, the metadata
  file and the data file.  Between the test whether a file exists and its creation other workers
  may act.  The theory cuts the constructor into these actions, shows that without interruption
  they are the constructor, that on a file that exists any interleaving of workers that open it
  and save chunks is harmless, and that two workers that create it can destroy a saved chunk.
\<close>

section \<open>The actions of the constructor\<close>

text \<open>What \<open>createIfNotExist\<close> does when the metadata file does not exist, from opening to closing it.\<close>

definition write_metadata :: "file_metadata \<Rightarrow> fsys \<Rightarrow> unit result \<times> fsys" where
  "write_metadata m fs =
     (let (ms, fs) = open_out fs (fm_metadata_file m);
          (ms, fs) = st_write fs ms (native64 (fm_file_size m));
          (ms, fs) = st_write fs ms (native64 (fm_chunk_size m))
      in if length (fm_hash m) < HASH_SIZE then (Inl Undefined, fs)
         else
           let (ms, fs) = st_write fs ms (take HASH_SIZE (fm_hash m))
           in if 2 ^ 31 \<le> unat (fm_bitmap_size m) then (Inl Undefined, fs)
              else (Inr (), snd (write_zeros fs ms (unat (fm_bitmap_size m)))))"

text \<open>The creation of the data file at the end of the constructor; opening it empties it.\<close>

definition create_data :: "path \<Rightarrow> size_t \<Rightarrow> fsys \<Rightarrow> fsys" where
  "create_data effective_path fsize fs =
     (let (os, fs) = open_out fs effective_path;
          os = st_seek os (fsize - 1)
      in snd (st_write fs os [0]))"

datatype make_phase =
    M_Dirs | M_Meta_Dirs | M_Meta_Check | M_Meta_Write | M_Data_Check | M_Data_Write | M_Done
  | M_Failed ft_exn

fun make_act :: "path \<Rightarrow> size_t \<Rightarrow> file_metadata \<Rightarrow> make_phase \<Rightarrow> fsys \<Rightarrow> make_phase \<times> fsys" where
  "make_act e sz m M_Dirs fs =
     (case create_directories fs (parent_path e) of
        (Inl x, fs) \<Rightarrow> (M_Failed x, fs) | (Inr _, fs) \<Rightarrow> (M_Meta_Dirs, fs))"
| "make_act e sz m M_Meta_Dirs fs =
     (case create_directories fs (parent_path (fm_effective_path m)) of
        (Inl x, fs) \<Rightarrow> (M_Failed x, fs) | (Inr _, fs) \<Rightarrow> (M_Meta_Check, fs))"
| "make_act e sz m M_Meta_Check fs =
     (if fs_exists fs (fm_metadata_file m) then M_Data_Check else M_Meta_Write, fs)"
| "make_act e sz m M_Meta_Write fs =
     (case write_metadata m fs of (Inl x, fs) \<Rightarrow> (M_Failed x, fs) | (Inr _, fs) \<Rightarrow> (M_Data_Check, fs))"
| "make_act e sz m M_Data_Check fs = (if fs_exists fs e then M_Done else M_Data_Write, fs)"
| "make_act e sz m M_Data_Write fs = (M_Done, create_data e sz fs)"
| "make_act e sz m M_Done fs = (M_Done, fs)"
| "make_act e sz m (M_Failed x) fs = (M_Failed x, fs)"

definition make_steps :: "path \<Rightarrow> size_t \<Rightarrow> file_metadata \<Rightarrow> nat \<Rightarrow> make_phase \<times> fsys \<Rightarrow> make_phase \<times> fsys" where
  "make_steps e sz m n s = ((\<lambda>(ph, fs). make_act e sz m ph fs) ^^ n) s"

lemma make_steps_simps [simp]:
  "make_steps e sz m 0 s = s"
  "make_steps e sz m (Suc n) (ph, fs) = make_steps e sz m n (make_act e sz m ph fs)"
  by (simp_all add: make_steps_def funpow_swap1)

lemma make_steps_end [simp]:
  "make_steps e sz m n (M_Done, fs) = (M_Done, fs)" "make_steps e sz m n (M_Failed x, fs) = (M_Failed x, fs)"
  by (induction n) simp_all

text \<open>The constructor of the metadata, step by step.\<close>

lemma createIfNotExist_actions:
  "createIfNotExist m fs =
    (case create_directories fs (parent_path (fm_effective_path m)) of
       (Inl x, fs) \<Rightarrow> (Inl x, fs)
     | (Inr _, fs) \<Rightarrow> if fs_exists fs (fm_metadata_file m) then (Inr (), fs) else write_metadata m fs)"
  unfolding createIfNotExist_def write_metadata_def ..

text \<open>What the constructor returns, read off the phase it ends in.\<close>

fun make_result :: "ft_file \<Rightarrow> make_phase \<times> fsys \<Rightarrow> ft_file result \<times> fsys" where
  "make_result f (M_Failed x, fs) = (Inl x, fs)"
| "make_result f (_, fs) = (Inr f, fs)"

lemma data_actions:
  "make_steps e sz m (Suc (Suc n)) (M_Data_Check, fs) =
    (M_Done, if fs_exists fs e then fs else create_data e sz fs)"
  by simp

lemma meta_actions:
  "make_steps e sz m (Suc (Suc (Suc (Suc n)))) (M_Meta_Check, fs) =
    (if fs_exists fs (fm_metadata_file m) then (M_Done, if fs_exists fs e then fs else create_data e sz fs)
     else case write_metadata m fs of
       (Inl x, fs) \<Rightarrow> (M_Failed x, fs)
     | (Inr _, fs) \<Rightarrow> (M_Done, if fs_exists fs e then fs else create_data e sz fs))"
  by (auto split: prod.split sum.split)

lemma constructor_run:
  assumes "FileMetadata_new e sz CHUNK_SIZE h = Inr m"
  shows "FileRemote_new p h sz e fs = make_result (FileRemote p h sz e m) (make_steps e sz m 6 (M_Dirs, fs))"
proof -
  have six: "(6 :: nat) = Suc (Suc (Suc (Suc (Suc (Suc 0)))))" by simp
  show ?thesis
    unfolding six make_steps_simps(2) [of _ _ _ "Suc (Suc (Suc (Suc (Suc 0))))"]
    by (auto simp: FileRemote_new_def assms createIfNotExist_actions create_data_def meta_actions
        make_steps_simps(2) [of e sz m "Suc (Suc (Suc (Suc 0)))" M_Meta_Dirs]
        simp del: make_steps_simps(2) split: prod.split sum.split)
qed

section \<open>Workers that open the file and save chunks\<close>

text \<open>
  What the handling of a request does to the two files: open the file, and for a chunk message
  save the chunk.  Everything else the handler does with them only reads.
\<close>

datatype task = Opening make_phase "file_chunk option" | Saving saver

fun task_act :: "ft_file \<Rightarrow> task \<Rightarrow> fsys \<Rightarrow> task \<times> fsys" where
  "task_act f (Opening ph c) fs =
     (case make_act (f_effective_path f) (f_size f) (f_metadata f) ph fs of
        (ph, fs) \<Rightarrow>
          (case c of
             Some chunk \<Rightarrow> if ph = M_Done then Saving (start_saver chunk) else Opening ph c
           | None \<Rightarrow> Opening ph c, fs))"
| "task_act f (Saving t) fs =
     (case save_act f (sv_chunk t) (sv_phase t) fs of (ph, fs) \<Rightarrow> (Saving (t\<lparr>sv_phase := ph\<rparr>), fs))"

definition task_turn :: "ft_file \<Rightarrow> nat \<Rightarrow> task list \<times> fsys \<Rightarrow> task list \<times> fsys" where
  "task_turn f k s =
     (case s of (ts, fs) \<Rightarrow>
        if k < length ts then case task_act f (ts ! k) fs of (t, fs) \<Rightarrow> (ts[k := t], fs) else (ts, fs))"

definition task_run :: "ft_file \<Rightarrow> nat list \<Rightarrow> task list \<times> fsys \<Rightarrow> task list \<times> fsys" where
  "task_run f sched s = fold (task_turn f) sched s"

section \<open>A file that exists\<close>

text \<open>The constructor finds everything in place and never comes to the phases that write.\<close>

fun next_open :: "make_phase \<Rightarrow> make_phase" where
  "next_open M_Dirs = M_Meta_Dirs"
| "next_open M_Meta_Dirs = M_Meta_Check"
| "next_open M_Meta_Check = M_Data_Check"
| "next_open ph = M_Done"

fun open_left :: "make_phase \<Rightarrow> nat option" where
  "open_left M_Dirs = Some 4"
| "open_left M_Meta_Dirs = Some 3"
| "open_left M_Meta_Check = Some 2"
| "open_left M_Data_Check = Some 1"
| "open_left M_Done = Some 0"
| "open_left _ = None"

lemma make_existing:
  assumes st: "remote_state f fs dat bm" and ph: "open_left ph = Some n"
  shows "make_act (f_effective_path f) (f_size f) (f_metadata f) ph fs = (next_open ph, fs)"
    and "open_left (next_open ph) = Some (n - 1)"
proof -
  obtain p w where e: "entry_path (f_effective_path f) p w" and ok: "dirs_ok fs (canon p)" and "p \<noteq> []"
    using st by (auto simp: remote_state_def entry_path_def)
  note parts = remote_state_parts [OF st]
  have m: "FileMetadata_new (f_effective_path f) (f_size f) CHUNK_SIZE (f_hash f) = Inr (f_metadata f)"
    using st by (simp add: remote_state_def)
  have "create_directories fs (parent_path (f_effective_path f)) = (Inr (), fs)"
    using dirs_ok_create [OF \<open>p \<noteq> []\<close> ok] by (simp add: entry_path_parts [OF e])
  moreover have "fs_exists fs (f_effective_path f)" "fs_exists fs (fm_metadata_file (f_metadata f))"
    using parts(1,7,8) by (auto simp: fs_exists_def file_data_node_at meta_layout_def)
  ultimately show "make_act (f_effective_path f) (f_size f) (f_metadata f) ph fs = (next_open ph, fs)"
    using ph by (cases ph) (simp_all add: FileMetadata_fields [OF m])
  show "open_left (next_open ph) = Some (n - 1)" using ph by (cases ph) auto
qed

fun task_left :: "task \<Rightarrow> nat" where
  "task_left (Opening ph c) = the (open_left ph) + (case c of None \<Rightarrow> 0 | Some _ \<Rightarrow> 3)"
| "task_left (Saving t) = acts_left t"

fun task_ok :: "ft_file \<Rightarrow> bytes \<Rightarrow> bytes \<Rightarrow> task \<Rightarrow> bool" where
  "task_ok f src dat (Opening ph c) \<longleftrightarrow>
     open_left ph \<noteq> None \<and> (case c of None \<Rightarrow> True | Some chunk \<Rightarrow> ph \<noteq> M_Done \<and> honest src chunk)"
| "task_ok f src dat (Saving t) \<longleftrightarrow> saver_ok f src dat t"

lemma open_left_done: "open_left ph = Some 0 \<longleftrightarrow> ph = M_Done"
  by (cases ph) auto

lemma task_step:
  assumes ok: "data_ok f src fs dat bm" and t: "task_ok f src dat t"
  shows "\<exists>t' fs' dat' bm'. task_act f t fs = (t', fs') \<and> data_ok f src fs' dat' bm' \<and>
    stays_right src dat dat' \<and> task_ok f src dat' t' \<and> task_left t' = task_left t - 1"
proof (cases t)
  case (Saving s)
  then show ?thesis
    using saver_step [OF ok, of s] t acts_left_after [where t = s and f = f and bm = bm] by (fastforce simp: Saving)
next
  case (Opening ph c)
  obtain n where n: "open_left ph = Some n" using t Opening by auto
  have "remote_state f fs dat bm" using ok by (simp add: data_ok_def)
  note make = make_existing [OF this n]
  show ?thesis
  proof (cases c)
    case None
    then show ?thesis using ok make by (fastforce simp: Opening n stays_right_def)
  next
    case (Some chunk)
    then have chunk: "honest src chunk" "n \<noteq> 0" using t n open_left_done [of ph] by (auto simp: Opening)
    have "next_open ph = M_Done \<longleftrightarrow> n = 1" using make(2) open_left_done [of "next_open ph"] chunk(2) by auto
    then show ?thesis
      using ok make chunk
      by (cases "n = 1")
        (fastforce simp: Opening Some n stays_right_def saver_ok_def start_saver_def acts_left_def)+
  qed
qed

definition tasks_inv :: "ft_file \<Rightarrow> bytes \<Rightarrow> task list \<times> fsys \<Rightarrow> bool" where
  "tasks_inv f src s \<longleftrightarrow>
     (\<exists>dat bm. data_ok f src (snd s) dat bm \<and> (\<forall>t \<in> set (fst s). task_ok f src dat t))"

lemma task_ok_mono: "task_ok f src dat t \<Longrightarrow> stays_right src dat dat' \<Longrightarrow> task_ok f src dat' t"
  using saver_ok_mono by (cases t) (auto simp: stays_right_def)

lemma task_turn_inv:
  assumes "tasks_inv f src (ts, fs)" and k: "k < length ts"
  obtains t fs' where "task_turn f k (ts, fs) = (ts[k := t], fs')" and "tasks_inv f src (ts[k := t], fs')"
    and "task_left t = task_left (ts ! k) - 1"
proof -
  obtain dat bm where ok: "data_ok f src fs dat bm" "\<forall>t \<in> set ts. task_ok f src dat t"
    using assms(1) by (auto simp: tasks_inv_def)
  then obtain t fs' dat' bm' where t: "task_act f (ts ! k) fs = (t, fs')" "data_ok f src fs' dat' bm'"
    "stays_right src dat dat'" "task_ok f src dat' t" "task_left t = task_left (ts ! k) - 1"
    using task_step [of f src fs dat bm "ts ! k"] k by (metis nth_mem)
  have "task_ok f src dat' u" if "u \<in> set (ts[k := t])" for u
    using that ok(2) t(3,4) task_ok_mono set_update_subset_insert [of ts k t] by blast
  then show thesis using that t k by (auto simp: task_turn_def tasks_inv_def)
qed

lemma task_run_inv:
  assumes "tasks_inv f src (ts, fs)"
  shows "\<exists>ts' fs'. task_run f sched (ts, fs) = (ts', fs') \<and> tasks_inv f src (ts', fs') \<and>
    map task_left ts' = map (\<lambda>k. task_left (ts ! k) - count_list sched k) [0..<length ts]"
  using assms
proof (induction sched arbitrary: ts fs)
  case Nil
  then show ?case by (auto simp: task_run_def intro: nth_equalityI)
next
  case (Cons k sched)
  show ?case
  proof (cases "k < length ts")
    case True
    obtain t fs1 where t: "task_turn f k (ts, fs) = (ts[k := t], fs1)" "tasks_inv f src (ts[k := t], fs1)"
      "task_left t = task_left (ts ! k) - 1" by (rule task_turn_inv [OF Cons.prems True])
    have same: "map (\<lambda>j. task_left (ts[k := t] ! j) - count_list sched j) [0..<length ts] =
        map (\<lambda>j. task_left (ts ! j) - count_list (k # sched) j) [0..<length ts]"
      using True t(3) by (auto simp: nth_list_update)
    show ?thesis
      using Cons.IH [OF t(2), unfolded length_list_update same] t(1) by (simp add: task_run_def)
  next
    case False
    then have "task_turn f k (ts, fs) = (ts, fs)" by (simp add: task_turn_def)
    moreover have same: "map (\<lambda>j. task_left (ts ! j) - count_list sched j) [0..<length ts] =
        map (\<lambda>j. task_left (ts ! j) - count_list (k # sched) j) [0..<length ts]"
      using False by auto
    ultimately show ?thesis using Cons.IH [OF Cons.prems, unfolded same] by (simp add: task_run_def)
  qed
qed

section \<open>Two workers that create the file\<close>

lemma task_run_append: "task_run f (xs @ ys) s = task_run f ys (task_run f xs s)"
  by (simp add: task_run_def)

lemma run_opener:
  assumes "k < length ts" and "ts ! k = Opening ph None"
    and "make_steps (f_effective_path f) (f_size f) (f_metadata f) n (ph, fs) = (ph', fs')"
  shows "task_run f (replicate n k) (ts, fs) = (ts[k := Opening ph' None], fs')"
  using assms
proof (induction n arbitrary: ts ph fs)
  case 0
  then show ?case using list_update_id [of ts k] by (simp add: task_run_def)
next
  case (Suc n)
  obtain ph1 fs1 where act: "make_act (f_effective_path f) (f_size f) (f_metadata f) ph fs = (ph1, fs1)" by fastforce
  have "task_turn f k (ts, fs) = (ts[k := Opening ph1 None], fs1)"
    using Suc.prems(1,2) act by (simp add: task_turn_def)
  then show ?case using Suc.IH [of "ts[k := Opening ph1 None]" ph1 fs1] Suc.prems act by (simp add: task_run_def)
qed

lemma run_saver:
  assumes "k < length ts" and "ts ! k = Saving s"
  shows "task_run f (replicate n k) (ts, fs) =
    (ts[k := Saving (hd (fst (save_run f (replicate n 0) ([s], fs))))], snd (save_run f (replicate n 0) ([s], fs)))"
  using assms
proof (induction n arbitrary: ts s fs)
  case 0
  then show ?case using list_update_id [of ts k] by (simp add: task_run_def save_run_def)
next
  case (Suc n)
  obtain ph1 fs1 where act: "save_act f (sv_chunk s) (sv_phase s) fs = (ph1, fs1)" by fastforce
  let ?s = "s\<lparr>sv_phase := ph1\<rparr>"
  have "task_turn f k (ts, fs) = (ts[k := Saving ?s], fs1)" "save_turn f 0 ([s], fs) = ([?s], fs1)"
    using Suc.prems act by (simp_all add: task_turn_def save_turn_def)
  then show ?case using Suc.IH [of "ts[k := Saving ?s]" ?s fs1] Suc.prems(1) by (simp add: task_run_def save_run_def)
qed

text \<open>
  A place without the file; \<open>fs2\<close> is the disk when the metadata file has been written.
\<close>

lemma creators_ready:
  assumes e: "entry_path e p w" and sz: "unat sz < 2 ^ 32" and h: "length h = HASH_SIZE"
    and m: "FileMetadata_new e sz CHUNK_SIZE h = Inr m" and dirs: "create_directories fs p = (Inr u, fs1)"
    and new: "node_at fs1 (canon (metadata_path e)) = None" "node_at fs1 (canon e) = None"
  defines "fs2 \<equiv> fs1(canon (metadata_path e) \<mapsto> Regular (meta_header m @ replicate (unat (fm_bitmap_size m)) 0))"
  shows "make_steps e sz m 5 (M_Dirs, fs) = (M_Data_Write, fs2)"
    and "make_steps e sz m 4 (M_Dirs, fs2) = (M_Data_Write, fs2)"
    and "make_steps e sz m 1 (M_Data_Write, fs2) = (M_Done, fs2(canon e \<mapsto> Regular (replicate (unat sz) 0)))"
proof -
  have ok: "dirs_ok fs1 (canon p)" using dirs by (rule create_directories_dirs_ok)
  note steps = blank_steps [OF e sz h m ok blank_meta_absent [OF new(1)] new(2), folded fs2_def]
  note parts = entry_path_parts [OF e] and mparts = entry_path_parts [OF metadata_path_entry [OF e]]
  note fields = FileMetadata_fields [OF m] and keys = entry_keys_differ [OF e]
  have "p \<noteq> []" using e by (simp add: entry_path_def)
  then have again: "create_directories fs1 p = (Inr (), fs1)" "create_directories fs2 p = (Inr (), fs2)"
    using dirs_ok_create ok steps(4) by blast+
  have none: "\<not> fs_exists fs1 (metadata_path e)" "\<not> fs_exists fs2 e" "fs_exists fs2 (metadata_path e)"
    using new(1) steps(2) mparts(4) keys(3) by (simp_all add: fs_exists_def fs2_def node_at_update)
  have written: "write_metadata m fs1 = (Inr (), fs2)"
    using steps(1) by (simp add: createIfNotExist_actions fields parts again none)
  show "make_steps e sz m 5 (M_Dirs, fs) = (M_Data_Write, fs2)"
    by (simp add: eval_nat_numeral dirs parts fields again none written)
  show "make_steps e sz m 4 (M_Dirs, fs2) = (M_Data_Write, fs2)"
    by (simp add: eval_nat_numeral parts fields again none)
  show "make_steps e sz m 1 (M_Data_Write, fs2) = (M_Done, fs2(canon e \<mapsto> Regular (replicate (unat sz) 0)))"
    using new_data_file [OF parts(4) steps(3) sz] by (simp add: create_data_def split_beta)
qed

text \<open>Creating the data file again empties it.\<close>

lemma create_data_again:
  assumes st: "remote_state f fs dat bm"
  shows "remote_state f (create_data (f_effective_path f) (f_size f) fs) (replicate (unat (f_size f)) 0) bm"
proof -
  note parts = remote_state_parts [OF st]
  obtain p w where e: "entry_path (f_effective_path f) p w" and ok: "dirs_ok fs (canon p)"
    using st by (auto simp: remote_state_def)
  have "can_create fs (canon (f_effective_path f))"
    using entry_path_parts(3) [OF e] dirs_ok_dir [OF ok] parts(6) file_data_not_Dir [OF parts(8)]
    by (auto simp: can_create_def)
  then have "create_data (f_effective_path f) (f_size f) fs =
      fs(canon (f_effective_path f) \<mapsto> Regular (replicate (unat (f_size f)) 0))"
    using new_data_file [OF parts(7) _ parts(10)] by (simp add: create_data_def split_beta)
  then show ?thesis using remote_state_data [OF st] by simp
qed

lemma run_existing:
  assumes st: "remote_state f fs dat bm" and "k < length ts" and "ts ! k = Opening M_Dirs (Some c)"
  shows "task_run f (replicate 4 k) (ts, fs) = (ts[k := Saving (start_saver c)], fs)"
proof -
  have "make_act (f_effective_path f) (f_size f) (f_metadata f) M_Dirs fs = (M_Meta_Dirs, fs)"
    "make_act (f_effective_path f) (f_size f) (f_metadata f) M_Meta_Dirs fs = (M_Meta_Check, fs)"
    "make_act (f_effective_path f) (f_size f) (f_metadata f) M_Meta_Check fs = (M_Data_Check, fs)"
    "make_act (f_effective_path f) (f_size f) (f_metadata f) M_Data_Check fs = (M_Done, fs)"
    using make_existing(1) [OF st] by (simp_all del: make_act.simps)
  then show ?thesis
    using assms(2,3) by (simp add: eval_nat_numeral task_run_def task_turn_def del: make_act.simps)
qed

text \<open>A worker that saves a chunk without interruption.\<close>

lemma run_whole_saver:
  assumes st: "remote_state f fs dat bm" and len: "length src = unat (f_size f)" and c: "honest src c"
    and k: "k < length ts" "ts ! k = Saving (start_saver c)"
  obtains fs' dat' bm' where "task_run f (replicate 3 k) (ts, fs) = (ts[k := Saving \<lparr>sv_chunk = c, sv_phase = S_Done\<rparr>], fs')"
    and "remote_state f fs' dat' bm'"
    and "snd (remote_view f fs') = insert (unat (fc_idx c)) (snd (remote_view f fs))"
proof -
  let ?run = "save_run f (replicate 3 0) ([start_saver c], fs)"
  note fits = honest_fits [OF st len c]
  obtain fs' dat' bm' where save: "saveChunk f fs c = (Inr (), fs')" "remote_state f fs' dat' bm'"
    "remote_view f fs' = save_spec (unat (f_size f)) (unat (fc_idx c)) (fc_data c) (remote_view f fs)"
    using saveChunk_spec [OF st fits(1)] by metis
  have "is_FileRemote f" using st by (simp add: remote_state_def)
  then have "snd ?run = fs'" using saveChunk_actions [of f fs c] save(1) by (simp add: numeral_3_eq_3)
  moreover obtain fs1 where one: "save_act f c S_Start fs = (S_Written, fs1)"
    "remote_state f fs1 (write_at dat (unat (fc_idx c) * CHUNK) (chunk_at src (unat (fc_idx c)))) bm"
    using save_act_steps(1) [OF st len c] by blast
  then have "fst ?run = [\<lparr>sv_chunk = c, sv_phase = S_Done\<rparr>]"
    using save_act_steps(2) [OF one(2) len c] by (simp add: save_run_def save_turn_def start_saver_def numeral_3_eq_3)
  moreover have "unat (fc_idx c) < chunk_count (unat (f_size f))" using c len by (simp add: honest_def)
  ultimately show thesis
    using that [OF _ save(2)] run_saver [OF k, of f 3 fs] save(3) fits(2,3) by (simp add: save_spec_def)
qed

section \<open>Properties of opening a file\<close>




text \<open>
  C34.  Two workers that open a new file at the same time can destroy a chunk: both find no data
  file, one creates it, a third worker saves a chunk and marks it, and then the second one
  creates the data file again, which empties it.  All are done, the chunk is marked as received,
  but the data file has only zeros; the chunk is not requested again, and when it is the only one
  the upload stalls like that of a changed file.
\<close>

theorem creators_destroy_chunk:
  assumes "entry_path e p w" and "unat sz < 2 ^ 32" and "length h = HASH_SIZE"
    and "FileMetadata_new e sz CHUNK_SIZE h = Inr m" and "create_directories fs p = (Inr u, fs1)"
    and "node_at fs1 (canon (metadata_path e)) = None" and "node_at fs1 (canon e) = None"
    and "length src = unat sz" and "honest src c"
  shows "let f = FileRemote pth h sz e m;
      (ts, fs') = task_run f (replicate 5 0 @ replicate 4 1 @ [0] @ replicate 7 2 @ [1])
        ([Opening M_Dirs None, Opening M_Dirs None, Opening M_Dirs (Some c)], fs)
    in ts = [Opening M_Done None, Opening M_Done None, Saving \<lparr>sv_chunk = c, sv_phase = S_Done\<rparr>] \<and>
       remote_view f fs' = (replicate (length src) 0, {unat (fc_idx c)})"
proof -
  let ?f = "FileRemote pth h sz e m" and ?n = "unat (fm_bitmap_size m)"
  let ?fs2 = "fs1(canon (metadata_path e) \<mapsto> Regular (meta_header m @ replicate ?n 0))"
  let ?fs3 = "?fs2(canon e \<mapsto> Regular (replicate (unat sz) 0))"
  let ?o = "\<lambda>ph. Opening ph None" and ?c = "Opening M_Dirs (Some c)"
  note ready = creators_ready [OF assms(1-7)]
  have st: "remote_state ?f ?fs3 (replicate (unat sz) 0) (replicate ?n 0)"
    by (rule blank_steps(5) [OF assms(1-4) create_directories_dirs_ok [OF assms(5)] blank_meta_absent [OF assms(6)] assms(7)]) simp
  have none: "snd (remote_view ?f ?fs3) = {}"
    using remote_state_parts(4) [OF st] by (auto simp: remote_view_state [OF st] chunk_bit_def)
  obtain fs4 dat4 bm4 where saved: "task_run ?f (replicate 3 2) ([?o M_Done, ?o M_Data_Write, Saving (start_saver c)], ?fs3) =
      ([?o M_Done, ?o M_Data_Write, Saving \<lparr>sv_chunk = c, sv_phase = S_Done\<rparr>], fs4)" "remote_state ?f fs4 dat4 bm4"
    "snd (remote_view ?f fs4) = insert (unat (fc_idx c)) {}"
    using run_whole_saver [OF st, of src c 2 "[?o M_Done, ?o M_Data_Write, Saving (start_saver c)]"] assms(8,9) none
    by (auto simp: numeral_2_eq_2)
  let ?fs5 = "create_data e sz fs4"
  have st5: "remote_state ?f ?fs5 (replicate (unat sz) 0) bm4" using create_data_again [OF saved(2)] by simp
  have seven: "replicate 7 (2 :: nat) = replicate 4 2 @ replicate 3 2" by (simp flip: replicate_add)
  have "task_run ?f (replicate 5 0 @ replicate 4 1 @ [0] @ replicate 7 2 @ [1]) ([?o M_Dirs, ?o M_Dirs, ?c], fs) =
      ([?o M_Done, ?o M_Done, Saving \<lparr>sv_chunk = c, sv_phase = S_Done\<rparr>], ?fs5)"
    using run_opener [of 0 "[?o M_Dirs, ?o M_Dirs, ?c]" M_Dirs ?f 5 fs] run_opener [of 1 "[?o M_Data_Write, ?o M_Dirs, ?c]" M_Dirs ?f 4 ?fs2]
      run_opener [of 0 "[?o M_Data_Write, ?o M_Data_Write, ?c]" M_Data_Write ?f 1 ?fs2] ready
      run_existing [OF st, of 2 "[?o M_Done, ?o M_Data_Write, ?c]" c] saved(1)
    by (simp add: task_run_append seven) (simp add: task_run_def task_turn_def)
  moreover have "remote_view ?f ?fs5 = (replicate (length src) 0, {unat (fc_idx c)})"
    using saved(3) by (simp add: remote_view_state [OF saved(2)] remote_view_state [OF st5] assms(8))
  ultimately show ?thesis by simp
qed

theorem creators_destroy_chunk_witness:
  "let c = \<lparr>fc_file = sample_file, fc_idx = 0, fc_data = [1, 2, 3, 4, 5], fc_hash = []\<rparr>;
      f = FileRemote (ascii ''d/f'') (replicate HASH_SIZE 0) 5 (ascii ''/d/f'') sample_new;
      (ts, fs') = task_run f (replicate 5 0 @ replicate 4 1 @ [0] @ replicate 7 2 @ [1])
        ([Opening M_Dirs None, Opening M_Dirs None, Opening M_Dirs (Some c)], Map.empty)
    in ts = [Opening M_Done None, Opening M_Done None, Saving \<lparr>sv_chunk = c, sv_phase = S_Done\<rparr>] \<and>
       remote_view f fs' = (replicate (length [1 :: byte, 2, 3, 4, 5]) 0, {unat (fc_idx c)})"
proof -
  have m: "FileMetadata_new (ascii ''/d/f'') 5 CHUNK_SIZE (replicate HASH_SIZE 0) = Inr sample_new"
    by (simp add: FileMetadata_new_def Let_def sample_new_def HASH_SIZE_def CHUNK_SIZE_def payload_size_value)
  have new: "node_at [[ascii ''d''] \<mapsto> Dir] (canon (ascii ''/d/f'')) = None"
    by (simp add: sample_keys node_at_def)
  have c: "honest [1, 2, 3, 4, 5] \<lparr>fc_file = sample_file, fc_idx = 0, fc_data = [1, 2, 3, 4, 5], fc_hash = []\<rparr>"
    by (simp add: honest_def chunk_count_def chunk_at_def read_at_def)
  show ?thesis
    unfolding Let_def
    by (rule creators_destroy_chunk [unfolded Let_def, OF sample_entry _ _ m sample_dirs sample_meta_absent new _ c])
      simp_all
qed

end
