(* ===== verification/FT_Stop.thy ===== *)
theory FT_Stop
  imports FT_Req_Brkr
begin

text \<open>
  The thread that calls \<open>RequestBroker::stopWorkers\<close> in \<open>src/request/ft_req_brkr.cpp\<close>, which is also
  all that the destructor of the broker does, beside the workers: it sets the flag under the
  mutex, joins the workers one after the other and forgets them.  Once the flag is set it
  returns after a bounded number of steps of all threads together, however they interleave.
  In both programs it is the thread of \<open>main\<close>, the only one that queues requests.
\<close>

section \<open>The stopping thread\<close>

text \<open>
  Where it is: about to acquire the mutex, about to join the worker of the given position, or
  returned.
\<close>

datatype stopper = St_Lock | St_Join nat | St_Done

text \<open>The destructor does nothing but call \<open>stopWorkers\<close>.\<close>

definition RequestBroker_destroy :: "broker \<Rightarrow> stopper \<times> broker" where
  "RequestBroker_destroy b = (St_Lock, b)"

text \<open>
  When \<open>RequestBrokerWorker::join\<close> of the worker at a position returns: it blocks until the thread
  has left \<open>run\<close>.  A thread that was started and not yet joined is joinable, so that
  \<open>std::thread::join\<close> throws nothing.
\<close>

definition join_returns :: "broker \<Rightarrow> nat \<Rightarrow> bool" where
  "join_returns b j \<longleftrightarrow> workers b ! j = W_Done"

inductive stop_step :: "stopper \<times> broker \<Rightarrow> stopper \<times> broker \<Rightarrow> bool" where
  signal: "sm_mutex b = None \<Longrightarrow> stop_step (St_Lock, b) (St_Join 0, signalTerminate b)"
| join: "j < length (workers b) \<Longrightarrow> join_returns b j \<Longrightarrow>
    stop_step (St_Join j, b) (St_Join (Suc j), b)"
| clear: "j = length (workers b) \<Longrightarrow> stop_step (St_Join j, b) (St_Done, clearWorkers b)"
| work: "worker_step i b b' \<Longrightarrow> stop_step (p, b) (p, b')"

inductive_cases stop_stepE: "stop_step s s'"
inductive_cases stop_lockE: "stop_step (St_Lock, b) (St_Join j, b')"

text \<open>Steps left after the signal, at most.\<close>

fun stop_left :: "stopper \<times> broker \<Rightarrow> nat" where
  "stop_left (St_Done, b) = 0"
| "stop_left (St_Join j, b) = Suc (stop_measure b + (length (workers b) - j))"
| "stop_left (St_Lock, b) = 0"

text \<open>
  What holds from the signal on: the joined threads have ended, and after the return there is
  no worker.
\<close>

fun stopping :: "stopper \<times> broker \<Rightarrow> bool" where
  "stopping (St_Join j, b) \<longleftrightarrow> sm_terminate b \<and> broker_inv b \<and> j \<le> length (workers b) \<and>
     (\<forall>i < j. workers b ! i = W_Done)"
| "stopping (St_Done, b) \<longleftrightarrow> sm_terminate b \<and> workers b = []"
| "stopping (St_Lock, b) \<longleftrightarrow> False"

definition requests :: "stopper \<times> broker \<Rightarrow> request list \<times> request list" where
  "requests s = (taken (snd s), sm_req_list (snd s))"

lemma worker_step_keeps_done:
  assumes "worker_step i b b'" and "workers b ! j = W_Done"
  shows "workers b' ! j = W_Done"
  using assms by (cases rule: worker_step.cases; cases "i = j") auto

lemma stopped_queue_kept:
  "worker_step i b b' \<Longrightarrow> sm_terminate b \<Longrightarrow> taken b' = taken b \<and> sm_req_list b' = sm_req_list b"
  using worker_step_queue worker_step_stopped by fastforce

lemma no_worker_no_step: "worker_step i b b' \<Longrightarrow> workers b \<noteq> []"
  by (cases rule: worker_step.cases) auto

lemma stopping_step:
  assumes "stop_step s s'" and "stopping s"
  shows "stopping s' \<and> stop_left s' < stop_left s \<and> requests s' = requests s"
  using assms
proof (cases rule: stop_step.cases)
  case (work i b b' p)
  note step = work(3)
  note facts = worker_step_stopped [OF step] broker_inv_work [OF step] worker_step_count [OF step]
    worker_step_decreases [OF step] worker_step_keeps_done [OF step] stopped_queue_kept [OF step]
    no_worker_no_step [OF step]
  show ?thesis using assms(2) facts work(1,2) by (cases p) (auto simp: requests_def)
qed (auto simp: clearWorkers_def requests_def join_returns_def less_Suc_eq)

text \<open>Until it has returned some thread can go on: the next worker is done, or some worker moves.\<close>

lemma stopping_goes_on:
  assumes "stopping (p, b)"
  shows "p = St_Done \<longleftrightarrow> (\<nexists>s. stop_step (p, b) s)"
proof (cases p)
  case (St_Join j)
  then have inv: "broker_inv b" "j \<le> length (workers b)" using assms by simp_all
  consider "j = length (workers b)" | "j < length (workers b)" "join_returns b j"
    | "j < length (workers b)" "workers b ! j \<noteq> W_Done" using inv(2) unfolding join_returns_def by linarith
  then have "\<exists>s. stop_step (p, b) s"
  proof cases
    case 3
    then show ?thesis using not_stuck [OF inv(1)] stop_step.work by blast
  qed (use St_Join stop_step.join stop_step.clear in blast)+
  then show ?thesis using St_Join by simp
next
  case St_Done
  then have "\<not> stop_step (p, b) s" for s
    using assms no_worker_no_step by (auto elim!: stop_stepE)
  then show ?thesis using St_Done by simp
qed (use assms in simp)

lemma stopping_path:
  assumes "(stop_step ^^ k) s s'" and "stopping s"
  shows "stopping s' \<and> k + stop_left s' \<le> stop_left s \<and> requests s' = requests s"
  using assms(1)
proof (induction k arbitrary: s')
  case 0
  then show ?case using assms(2) by simp
next
  case (Suc k)
  then obtain t where t: "(stop_step ^^ k) s t" "stop_step t s'" by (metis relpowp_Suc_E)
  show ?case using Suc.IH [OF t(1)] stopping_step [OF t(2)] by simp
qed

text \<open>Every state on the way has a way to the end.\<close>

lemma stopping_ends: "stopping s \<Longrightarrow> \<exists>m b. (stop_step ^^ m) s (St_Done, b)"
proof (induction "stop_left s" arbitrary: s rule: less_induct)
  case less
  obtain p b where s: "s = (p, b)" by (cases s)
  show ?case
  proof (cases "p = St_Done")
    case True
    then have "(stop_step ^^ 0) s (St_Done, b)" by (simp add: s)
    then show ?thesis by blast
  next
    case False
    then obtain t where t: "stop_step s t" using stopping_goes_on less.prems s by blast
    then obtain m c where "(stop_step ^^ m) t (St_Done, c)" using less stopping_step by blast
    then have "(stop_step ^^ Suc m) s (St_Done, c)" using t relpowp_Suc_I2 by metis
    then show ?thesis by blast
  qed
qed

lemma stopping_starts:
  assumes "broker_run n qs b" and "stop_step (RequestBroker_destroy b) (St_Join j, b1)"
  shows "stopping (St_Join j, b1) \<and> stop_left (St_Join j, b1) \<le> 5 * unat n + 1 \<and>
    requests (St_Join j, b1) = requests (RequestBroker_destroy b)"
proof -
  have j: "j = 0" "b1 = signalTerminate b" "sm_mutex b = None" using assms(2) by (auto simp: RequestBroker_destroy_def elim: stop_lockE)
  then have "broker_run n qs b1" using assms(1) broker_run.stop by blast
  then show ?thesis
    using broker_run_inv [of n qs b1] broker_run_count [of n qs b1] stop_measure_bound [of b1] j
    by (auto simp: requests_def signalTerminate_def RequestBroker_destroy_def)
qed

lemma stopper_can_lock:
  assumes "broker_run n qs b"
  shows "\<exists>s. stop_step (RequestBroker_destroy b) s"
proof (cases "sm_mutex b")
  case None
  then show ?thesis using stop_step.signal by (auto simp: RequestBroker_destroy_def)
next
  case (Some i)
  then show ?thesis
    using broker_run_inv [OF assms] critical_can_step [of i b] stop_step.work
    by (fastforce simp: broker_inv_def RequestBroker_destroy_def)
qed

section \<open>Properties of stopping\<close>

text \<open>
  C12.  \<open>stopWorkers\<close> and the destructor return.  The thread that calls it and the
  workers are never all stuck; from its signal on, they take at most five steps per worker and one
  more together, there is always a step until it has returned, and the return can still be
  reached.  It joins only threads that have ended, and no request is taken any more: those in the
  queue stay there.
\<close>

theorem stopWorkers_returns:
  assumes "broker_run n qs b" and "stop_step (RequestBroker_destroy b) (St_Join j, b1)"
    and "(stop_step ^^ k) (St_Join j, b1) (p, b')"
  shows "(\<exists>s. stop_step (RequestBroker_destroy b) s) \<and> k \<le> 5 * unat n + 1 \<and>
    (p = St_Done \<longleftrightarrow> (\<nexists>s. stop_step (p, b') s)) \<and> (\<exists>m b2. (stop_step ^^ m) (p, b') (St_Done, b2)) \<and>
    taken b' = taken b \<and> sm_req_list b' = sm_req_list b \<and> sm_terminate b' \<and>
    (case p of St_Done \<Rightarrow> workers b' = [] | St_Join i \<Rightarrow> take i (workers b') = replicate i W_Done | St_Lock \<Rightarrow> False)"
proof -
  note start = stopping_starts [OF assms(1,2)]
  note path = stopping_path [OF assms(3)]
  have st: "stopping (p, b')" and k: "k \<le> 5 * unat n + 1" and rs: "requests (p, b') = requests (RequestBroker_destroy b)"
    using start path by auto
  have "case p of St_Done \<Rightarrow> workers b' = [] | St_Join i \<Rightarrow> take i (workers b') = replicate i W_Done | St_Lock \<Rightarrow> False"
    and "sm_terminate b'"
    using st by (auto split: stopper.split intro!: nth_equalityI, cases p) auto
  then show ?thesis
    using stopper_can_lock [OF assms(1)] k stopping_goes_on [OF st] stopping_ends [OF st] rs
    by (auto simp: requests_def RequestBroker_destroy_def)
qed

text \<open>The broker with one worker that handles a request while another one is queued.\<close>

theorem stopWorkers_returns_witness:
  "let b1 = signalTerminate sample_broker; b2 = set_worker b1 0 W_Check in
    (\<exists>s. stop_step (RequestBroker_destroy sample_broker) s) \<and> 1 \<le> 5 * unat (1 :: u16) + 1 \<and>
    (St_Join 0 = St_Done \<longleftrightarrow> (\<nexists>s. stop_step (St_Join 0, b2) s)) \<and>
    (\<exists>m b3. (stop_step ^^ m) (St_Join 0, b2) (St_Done, b3)) \<and>
    taken b2 = taken sample_broker \<and> sm_req_list b2 = sm_req_list sample_broker \<and> sm_terminate b2 \<and>
    (case St_Join 0 of St_Done \<Rightarrow> workers b2 = [] | St_Join i \<Rightarrow> take i (workers b2) = replicate i W_Done
      | St_Lock \<Rightarrow> False)"
  unfolding Let_def
proof (rule stopWorkers_returns [OF sample_broker_run])
  show "stop_step (RequestBroker_destroy sample_broker) (St_Join 0, signalTerminate sample_broker)"
    unfolding RequestBroker_destroy_def by (rule stop_step.signal) (simp add: sample_broker_def)
  have "worker_step 0 (signalTerminate sample_broker) (set_worker (signalTerminate sample_broker) 0 W_Check)"
    by (rule worker_step.handled [where r = "sample_request 0"])
      (simp_all add: sample_broker_def signalTerminate_def notify_all_def)
  then show "(stop_step ^^ 1) (St_Join 0, signalTerminate sample_broker)
      (St_Join 0, set_worker (signalTerminate sample_broker) 0 W_Check)"
    unfolding relpowp_1 by (rule stop_step.work)
qed

end
