(* ===== verification/FT_Utils.thy ===== *)
theory FT_Utils
  imports FT_Fs
begin

text \<open>
  \<open>getClientUUID\<close> of \<open>src/ft_utils.cpp\<close>: the client's identity, kept in a file.  Boost's UUID
  library is not part of the sources: its printing, its parsing and the number it generates are
  the parameters \<open>ustr\<close>, \<open>parse\<close> and \<open>random\<close>.
\<close>

definition getClientUUID ::
    "(bytes \<Rightarrow> bytes) \<Rightarrow> (bytes \<Rightarrow> bytes) \<Rightarrow> bytes \<Rightarrow> fsys \<Rightarrow> path \<Rightarrow> bytes result \<times> fsys" where
  "getClientUUID ustr parse random fs uuid_file =
     (if fs_exists fs uuid_file \<and> \<not> is_regular_file fs uuid_file
      then (Inl (Runtime_error ''UIID file is not a regular file''), fs)
      else if fs_exists fs uuid_file
      then (Inr (parse (stream_data fs (open_in fs uuid_file))), fs)
      else
        (case create_directories fs (parent_path uuid_file) of
           (Inl e, fs) \<Rightarrow> (Inl e, fs)
         | (Inr _, fs) \<Rightarrow>
             let (os, fs) = open_out fs uuid_file;
                 (os, fs) = st_write fs os (ustr random)
             in (Inr random, fs)))"

text \<open>
  A client keeps its identity: the first call generates a UUID and stores it, and every
  later call returns that UUID and changes nothing, provided Boost parses what it prints.
\<close>

theorem uuid_is_kept:
  assumes "parse (ustr u) = u" and "entry_path p d w" and "create_directories fs d = (Inr v, fs1)"
    and "node_at fs (canon p) = None" and "node_at fs1 (canon p) = None"
  shows "\<exists>fs'. getClientUUID ustr parse u fs p = (Inr u, fs') \<and>
    (\<forall>u'. getClientUUID ustr parse u' fs' p = (Inr u, fs'))"
proof -
  note parts = entry_path_parts [OF assms(2)]
  have key: "canon p \<noteq> []" using parts(3) by simp
  let ?fs = "fs1(canon p \<mapsto> Regular (ustr u))"
  have can: "can_create fs1 (canon p)"
    using create_directories_makes [OF assms(3)] assms(5) parts(3)
    by (auto simp: can_create_def node_at_def split: if_splits)
  have open_: "open_out fs1 p = (\<lparr>st_key = canon p, st_pos = length ([] :: bytes), st_ok = True\<rparr>,
      fs1(canon p \<mapsto> Regular []))" using can parts(4) by (simp add: open_out_def)
  have "getClientUUID ustr parse u fs p = (Inr u, ?fs)"
    using assms(3,4) parts(2)
    using st_write_append [OF key, of fs1 "[]" "ustr u"] open_
    by (simp add: getClientUUID_def fs_exists_def Let_def)
  moreover have "getClientUUID ustr parse u' ?fs p = (Inr u, ?fs)" for u'
    using key parts(4) assms(1)
    by (simp add: getClientUUID_def fs_exists_def is_regular_file_def file_data_update node_at_update
        stream_data_def open_in_def)
  ultimately show ?thesis by blast
qed

theorem uuid_is_kept_witness:
  "\<exists>fs'. getClientUUID (map (\<lambda>b. b + 1)) (map (\<lambda>b. b - 1)) [1, 2] Map.empty (ascii ''/.ft_client/.uuid'') =
      (Inr [1, 2], fs') \<and>
    (\<forall>u'. getClientUUID (map (\<lambda>b. b + 1)) (map (\<lambda>b. b - 1)) u' fs' (ascii ''/.ft_client/.uuid'') =
      (Inr [1, 2], fs'))"
proof (rule uuid_is_kept)
  show e: "entry_path (ascii ''/.ft_client/.uuid'') (ascii ''/.ft_client'') (ascii ''.uuid'')"
    by (simp add: entry_path_def simple_name_def ascii_def)
  have c: "canon (ascii ''/.ft_client'') = [ascii ''.ft_client'']" by (simp add: canon_def ascii_def)
  then have p: "canon (ascii ''/.ft_client/.uuid'') = [ascii ''.ft_client'', ascii ''.uuid'']"
    using entry_path_parts(3) [OF e] by simp
  have "ascii ''/.ft_client'' \<noteq> []" by (simp add: ascii_def)
  then show "create_directories Map.empty (ascii ''/.ft_client'') = (Inr (), [[ascii ''.ft_client''] \<mapsto> Dir])"
    by (simp add: create_directories_def c)
  show "node_at Map.empty (canon (ascii ''/.ft_client/.uuid'')) = None"
    "node_at [[ascii ''.ft_client''] \<mapsto> Dir] (canon (ascii ''/.ft_client/.uuid'')) = None"
    by (simp_all add: p node_at_def)
qed simp

end
