(* ===== verification/FT_Args.thy ===== *)
theory FT_Args
  imports FT_Utils
begin

text \<open>
  The command line of the client, the first half of \<open>main\<close> in \<open>src/ft_client.cpp\<close>: \<open>getopt\<close> with the
  option string \<open>hd:p:u:\<close>, the conversion of the options, the checks of the file operand, the usage
  text and the exit codes.  Strings are byte lists.  \<open>getopt\<close> and \<open>atoi\<close> are the functions of the
  C library as POSIX and ISO C describe them (the image of the program is built on musl, whose
  \<open>getopt\<close> stops at the first operand); Boost's \<open>lexical_cast\<close> to a UUID is the parameter \<open>cast\<close>.
  The line \<open>getopt\<close> itself prints about an unknown option is left out: the outputs are those of \<open>main\<close>.
\<close>

section \<open>getopt and atoi\<close>

definition dash :: byte where "dash = 0x2D"
definition colon :: byte where "colon = 0x3A"

text \<open>Whether a letter is in the option string, and whether it takes an argument.\<close>

fun opt_spec :: "bytes \<Rightarrow> byte \<Rightarrow> bool option" where
  "opt_spec [] c = None"
| "opt_spec (x # xs) c =
     (if x = c \<and> c \<noteq> colon then Some (case xs of [] \<Rightarrow> False | y # _ \<Rightarrow> y = colon) else opt_spec xs c)"

text \<open>
  The scanner: the letters of the current word that are still to come, and the words after it
  (\<open>argv\<close> from \<open>optind\<close> on).  A result is the end, an option with its argument, or \<open>?\<close>.
\<close>

record scan =
  sc_word :: bytes
  sc_args :: "bytes list"

datatype opt_result = Opt_End | Opt_Letter byte "bytes option" | Opt_Unknown

definition getopt_letter :: "bytes \<Rightarrow> byte \<Rightarrow> bytes \<Rightarrow> bytes list \<Rightarrow> opt_result \<times> scan" where
  "getopt_letter optstring c cs args =
     (case opt_spec optstring c of
        None \<Rightarrow> (Opt_Unknown, \<lparr>sc_word = cs, sc_args = args\<rparr>)
      | Some False \<Rightarrow> (Opt_Letter c None, \<lparr>sc_word = cs, sc_args = args\<rparr>)
      | Some True \<Rightarrow>
          if cs \<noteq> [] then (Opt_Letter c (Some cs), \<lparr>sc_word = [], sc_args = args\<rparr>)
          else (case args of
                  [] \<Rightarrow> (Opt_Unknown, \<lparr>sc_word = [], sc_args = []\<rparr>)
                | a # as \<Rightarrow> (Opt_Letter c (Some a), \<lparr>sc_word = [], sc_args = as\<rparr>)))"

definition getopt :: "bytes \<Rightarrow> scan \<Rightarrow> opt_result \<times> scan" where
  "getopt optstring st =
     (case sc_word st of
        c # cs \<Rightarrow> getopt_letter optstring c cs (sc_args st)
      | [] \<Rightarrow>
         (case sc_args st of
            [] \<Rightarrow> (Opt_End, st)
          | a # as \<Rightarrow>
             if a = [dash, dash] then (Opt_End, st\<lparr>sc_args := as\<rparr>)
             else (case a of
                     x # c # cs \<Rightarrow> if x = dash then getopt_letter optstring c cs as else (Opt_End, st)
                   | _ \<Rightarrow> (Opt_End, st))))"

text \<open>
  \<open>atoi\<close>: white space, a sign, digits; 0 when there is no digit.  A value that is no \<open>int\<close> is
  undefined behaviour.
\<close>

definition is_space :: "byte \<Rightarrow> bool" where
  "is_space c \<longleftrightarrow> c = 0x20 \<or> (0x09 \<le> c \<and> c \<le> 0x0D)"

definition is_digit :: "byte \<Rightarrow> bool" where
  "is_digit c \<longleftrightarrow> 0x30 \<le> c \<and> c \<le> 0x39"

definition digits_value :: "bytes \<Rightarrow> int" where
  "digits_value s = foldl (\<lambda>n c. 10 * n + (uint c - 0x30)) 0 (takeWhile is_digit s)"

definition atoi :: "bytes \<Rightarrow> int result" where
  "atoi s =
     (let s = dropWhile is_space s;
          n = (case s of
                 [] \<Rightarrow> 0
               | c # cs \<Rightarrow> if c = dash then - digits_value cs
                           else if c = 0x2B then digits_value cs else digits_value s)
      in if - (2 ^ 31) \<le> n \<and> n < 2 ^ 31 then Inr n else Inl Undefined)"

section \<open>Options of the client\<close>

definition CLIENT_UUID_FILE :: path where "CLIENT_UUID_FILE = ascii ''/.ft_client/.uuid''"
definition DEFAULT_PORT :: u16 where "DEFAULT_PORT = 4444"

definition endl :: bytes where "endl = [0x0A]"

definition show_usage :: "bytes \<Rightarrow> bytes" where
  "show_usage app =
     ascii ''Usage: '' @ path_filename app @ ascii ''<option(s)> FILE'' @ endl @
     ascii ''Options:'' @ endl @
     [0x09] @ ascii ''-h'' @ [0x09, 0x09] @ ascii ''Show this help message'' @ endl @
     [0x09] @ ascii ''-d SERVER'' @ [0x09, 0x09] @ ascii ''Destination server'' @ endl @
     [0x09] @ ascii ''-p PORT'' @ [0x09, 0x09] @ ascii ''Destination port'' @ endl @
     [0x09] @ ascii ''-u UUID'' @ [0x09, 0x09] @ ascii ''Client UUID'' @ endl"

text \<open>A path on a stream is quoted: in double quotes, with a backslash before quotes and backslashes.\<close>

definition quoted :: "bytes \<Rightarrow> bytes" where
  "quoted p = [0x22] @ concat (map (\<lambda>c. if c = 0x22 \<or> c = 0x5C then [0x5C, c] else [c]) p) @ [0x22]"

text \<open>How \<open>main\<close> can end: a call of \<open>exit\<close> with what it printed, or an exception nobody catches.\<close>

datatype main_end =
    Exit (exit_code: nat) (exit_out: bytes) (exit_err: bytes)
  | Abort ft_exn

record client_params =
  prm_host :: bytes
  prm_port :: u16
  prm_uuid :: bytes

text \<open>The effect of one option.\<close>

definition apply_opt ::
    "(bytes \<Rightarrow> bytes result) \<Rightarrow> bytes \<Rightarrow> byte \<Rightarrow> bytes option \<Rightarrow> client_params \<Rightarrow> main_end + client_params" where
  "apply_opt cast app c optarg p =
     (case optarg of
        None \<Rightarrow>
          if c = 0x68 then Inl (Exit 0 (show_usage app) []) else Inl (Exit 1 [] (show_usage app))
      | Some a \<Rightarrow>
          if c = 0x64 then Inr (p\<lparr>prm_host := a\<rparr>)
          else if c = 0x70 then
            (case atoi a of Inl e \<Rightarrow> Inl (Abort e) | Inr n \<Rightarrow> Inr (p\<lparr>prm_port := word_of_int n\<rparr>))
          else if c = 0x75 then
            (case cast a of Inl e \<Rightarrow> Inl (Abort e) | Inr u \<Rightarrow> Inr (p\<lparr>prm_uuid := u\<rparr>))
          else Inl (Exit 1 [] (show_usage app)))"

definition client_optstring :: bytes where "client_optstring = ascii ''hd:p:u:''"

definition scan_size :: "scan \<Rightarrow> nat" where
  "scan_size st = length (sc_word st) + sum_list (map (Suc \<circ> length) (sc_args st))"

lemma getopt_letter_size:
  "scan_size (snd (getopt_letter os c cs args)) \<le> length cs + sum_list (map (Suc \<circ> length) args)"
  by (auto simp: getopt_letter_def scan_size_def split: option.split bool.split list.split)

lemma getopt_decreases:
  assumes "getopt os st = (r, st')" and "r \<noteq> Opt_End"
  shows "scan_size st' < scan_size st"
proof (cases "sc_word st")
  case (Cons c cs)
  then show ?thesis
    using assms getopt_letter_size [of os c cs "sc_args st"] by (simp add: getopt_def scan_size_def)
next
  case Nil
  then obtain c cs as where "sc_args st = (dash # c # cs) # as" "getopt_letter os c cs as = (r, st')"
    using assms by (auto simp: getopt_def split: list.splits if_splits)
  then show ?thesis using Nil getopt_letter_size [of os c cs as] by (simp add: scan_size_def)
qed

text \<open>The loop over the options.\<close>

function client_opts ::
    "(bytes \<Rightarrow> bytes result) \<Rightarrow> bytes \<Rightarrow> scan \<Rightarrow> client_params \<Rightarrow> main_end + (client_params \<times> bytes list)" where
  "client_opts cast app st p =
     (case getopt client_optstring st of
        (Opt_End, st) \<Rightarrow> Inr (p, sc_args st)
      | (Opt_Unknown, st) \<Rightarrow> Inl (Exit 1 [] (show_usage app))
      | (Opt_Letter c optarg, st) \<Rightarrow>
          (case apply_opt cast app c optarg p of
             Inl e \<Rightarrow> Inl e
           | Inr p \<Rightarrow> client_opts cast app st p))"
  by pat_completeness auto
termination
  by (relation "measure (\<lambda>(cast, app, st, p). scan_size st)") (auto dest: getopt_decreases [OF sym])

declare client_opts.simps [simp del]

text \<open>
  \<open>main\<close> up to the first use of the network: the identity is looked up (or made) before the
  options are read.  \<open>parse\<close>, \<open>ustr\<close> and \<open>random\<close> are Boost's, as in \<open>getClientUUID\<close>.
\<close>

definition client_args ::
    "(bytes \<Rightarrow> bytes) \<Rightarrow> (bytes \<Rightarrow> bytes) \<Rightarrow> (bytes \<Rightarrow> bytes result) \<Rightarrow> bytes \<Rightarrow> fsys \<Rightarrow> bytes \<Rightarrow> bytes list \<Rightarrow>
     (main_end + (client_params \<times> path)) \<times> fsys" where
  "client_args ustr parse cast random fs app args =
     (case getClientUUID ustr parse random fs CLIENT_UUID_FILE of
        (Inl e, fs) \<Rightarrow> (Inl (Abort e), fs)
      | (Inr uuid, fs) \<Rightarrow>
         (case client_opts cast app \<lparr>sc_word = [], sc_args = args\<rparr>
                 \<lparr>prm_host = ascii ''localhost'', prm_port = DEFAULT_PORT, prm_uuid = uuid\<rparr> of
            Inl e \<Rightarrow> (Inl e, fs)
          | Inr (p, []) \<Rightarrow> (Inl (Exit 1 [] (ascii ''ERROR: File is missing'' @ endl @ show_usage app)), fs)
          | Inr (p, file # _) \<Rightarrow>
             if fs_exists fs file then (Inr (p, file), fs)
             else (Inl (Exit 1 [] (ascii ''ERROR: File '' @ [0x27] @ quoted file @ [0x27] @
                     ascii '' does not exist.'' @ endl @ show_usage app)), fs)))"

section \<open>Decimal numbers\<close>

text \<open>The decimal digits of a number, as a user types it.\<close>

definition digit :: "nat \<Rightarrow> byte" where
  "digit d = word_of_nat (48 + d)"

fun dec :: "nat \<Rightarrow> bytes" where
  "dec n = (if n < 10 then [digit n] else dec (n div 10) @ [digit (n mod 10)])"

declare dec.simps [simp del]

lemma digit_byte:
  assumes "d < 10"
  shows "is_digit (digit d)" and "uint (digit d) = 48 + int d" and "\<not> is_space (digit d)"
    and "digit d \<noteq> dash" and "digit d \<noteq> 0x2B"
proof -
  have u: "unat (digit d) = 48 + d" unfolding digit_def using assms by (intro unat_of_nat_simps(1)) simp
  then show "uint (digit d) = 48 + int d" by (simp only: uint_nat of_nat_add of_nat_numeral)
  show "is_digit (digit d)" using assms u by (simp add: is_digit_def word_le_nat_alt)
  have "unat (0x20 :: byte) \<noteq> unat (digit d)" "unat dash \<noteq> unat (digit d)" "unat (0x2B :: byte) \<noteq> unat (digit d)"
    unfolding u by (simp_all add: dash_def)
  then have "digit d \<noteq> 0x20" "digit d \<noteq> dash" "digit d \<noteq> 0x2B" by metis+
  then show "\<not> is_space (digit d)" "digit d \<noteq> dash" "digit d \<noteq> 0x2B"
    using u by (simp_all add: is_space_def word_le_nat_alt)
qed

lemma dec_digits: "list_all is_digit (dec n)"
proof (induction n rule: dec.induct)
  case (1 n)
  then show ?case by (subst dec.simps) (simp add: digit_byte(1))
qed

lemma dec_value: "digits_value (dec n) = int n"
proof -
  have "foldl (\<lambda>n c. 10 * n + (uint c - 0x30)) 0 (dec n) = int n"
  proof (induction n rule: dec.induct)
    case (1 n)
    have "10 * (int n div 10) + int (n mod 10) = int n" by (simp add: zmod_int)
    with 1 show ?case
      using digit_byte(2) [of n] digit_byte(2) [of "n mod 10"] by (subst dec.simps) (simp add: zdiv_int)
  qed
  moreover have "takeWhile is_digit (dec n) = dec n"
    using dec_digits [of n] by (simp add: takeWhile_eq_all_conv list_all_iff)
  ultimately show ?thesis unfolding digits_value_def by (simp only:)
qed

lemma dec_head: "\<exists>d cs. d < 10 \<and> dec n = digit d # cs"
proof (induction n rule: dec.induct)
  case (1 n)
  show ?case
  proof (cases "n < 10")
    case False
    with 1 obtain d cs where "d < 10" "dec (n div 10) = digit d # cs" by blast
    then show ?thesis using False by (subst dec.simps) auto
  qed (subst dec.simps, auto)
qed

lemma atoi_dec:
  assumes "n < 2 ^ 31"
  shows "atoi (dec n) = Inr (int n)"
proof -
  obtain d cs where d: "d < 10" "dec n = digit d # cs" using dec_head by blast
  then show ?thesis
    using assms digit_byte [OF d(1)] dec_value [of n] by (simp add: atoi_def Let_def)
qed

section \<open>Command lines\<close>

text \<open>The options a user means, how they are written, and what they set.\<close>

datatype cli_opt = Host bytes | Port nat | Uuid bytes

fun render :: "cli_opt \<Rightarrow> bytes list" where
  "render (Host h) = [[dash, 0x64], h]"
| "render (Port n) = [[dash, 0x70], dec n]"
| "render (Uuid s) = [[dash, 0x75], s]"

fun opt_ok :: "(bytes \<Rightarrow> bytes result) \<Rightarrow> cli_opt \<Rightarrow> bool" where
  "opt_ok cast (Host h) = True"
| "opt_ok cast (Port n) = (n < 2 ^ 31)"
| "opt_ok cast (Uuid s) = (\<exists>u. cast s = Inr u)"

fun set_opt :: "(bytes \<Rightarrow> bytes result) \<Rightarrow> cli_opt \<Rightarrow> client_params \<Rightarrow> client_params" where
  "set_opt cast (Host h) p = p\<lparr>prm_host := h\<rparr>"
| "set_opt cast (Port n) p = p\<lparr>prm_port := word_of_nat n\<rparr>"
| "set_opt cast (Uuid s) p = p\<lparr>prm_uuid := (case cast s of Inr u \<Rightarrow> u | Inl _ \<Rightarrow> prm_uuid p)\<rparr>"

lemma opt_specs:
  "opt_spec client_optstring 0x68 = Some False" "opt_spec client_optstring 0x64 = Some True"
  "opt_spec client_optstring 0x70 = Some True" "opt_spec client_optstring 0x75 = Some True"
  by (simp_all add: client_optstring_def ascii_def colon_def)

lemma opt_spec_other:
  "opt_spec client_optstring c = None \<longleftrightarrow> c \<notin> {0x68, 0x64, 0x70, 0x75}"
  by (auto simp: client_optstring_def ascii_def colon_def)

lemma client_opts_render:
  assumes "opt_ok cast x"
  shows "client_opts cast app \<lparr>sc_word = [], sc_args = render x @ args\<rparr> p =
    client_opts cast app \<lparr>sc_word = [], sc_args = args\<rparr> (set_opt cast x p)"
proof (cases x)
  case (Port n)
  then have "atoi (dec n) = Inr (int n)" using assms by (intro atoi_dec) simp
  then show ?thesis
    by (subst client_opts.simps)
      (simp add: Port getopt_def getopt_letter_def opt_specs apply_opt_def dash_def)
next
  case (Host h)
  then show ?thesis
    by (subst client_opts.simps)
      (simp add: Host getopt_def getopt_letter_def opt_specs apply_opt_def dash_def)
next
  case (Uuid s)
  then obtain u where "cast s = Inr u" using assms by auto
  then show ?thesis
    by (subst client_opts.simps)
      (simp add: Uuid getopt_def getopt_letter_def opt_specs apply_opt_def dash_def)
qed

lemma client_opts_renders:
  assumes "list_all (opt_ok cast) xs"
  shows "client_opts cast app \<lparr>sc_word = [], sc_args = concat (map render xs) @ args\<rparr> p =
    client_opts cast app \<lparr>sc_word = [], sc_args = args\<rparr> (fold (set_opt cast) xs p)"
  using assms by (induction xs arbitrary: p) (simp_all add: client_opts_render)

text \<open>What comes after the options: an operand, nothing, \<open>-h\<close>, or an unknown letter.\<close>

lemma client_opts_operand:
  assumes "file \<noteq> []" and "hd file \<noteq> dash"
  shows "client_opts cast app \<lparr>sc_word = [], sc_args = file # rest\<rparr> p = Inr (p, file # rest)"
  using assms by (subst client_opts.simps) (auto simp: getopt_def split: list.splits)

lemma client_opts_ends:
  "client_opts cast app \<lparr>sc_word = [], sc_args = []\<rparr> p = Inr (p, [])"
  "client_opts cast app \<lparr>sc_word = [], sc_args = (dash # 0x68 # cs) # rest\<rparr> p = Inl (Exit 0 (show_usage app) [])"
  by (subst client_opts.simps, simp add: getopt_def getopt_letter_def opt_specs apply_opt_def dash_def)+

lemma client_opts_unknown:
  assumes "c \<notin> {0x68, 0x64, 0x70, 0x75, dash}"
  shows "client_opts cast app \<lparr>sc_word = [], sc_args = (dash # c # cs) # rest\<rparr> p = Inl (Exit 1 [] (show_usage app))"
proof -
  have "opt_spec client_optstring c = None" using assms opt_spec_other [of c] by blast
  then show ?thesis using assms by (subst client_opts.simps) (simp add: getopt_def getopt_letter_def)
qed

section \<open>Properties of the command line\<close>

text \<open>
  C30.  What the user writes is what the client gets: any sequence of \<open>-d HOST\<close>, \<open>-p PORT\<close> and
  \<open>-u UUID\<close> before a file that exists sets the parameters in that order, over the defaults
  \<open>localhost\<close>, 4444 and the stored identity; a port number loses all but its low 16 bits, and
  whatever follows the file name is ignored.
\<close>

theorem client_args_understood:
  assumes "getClientUUID ustr parse random fs CLIENT_UUID_FILE = (Inr uuid, fs')"
    and "list_all (opt_ok cast) xs" and "file \<noteq> []" and "hd file \<noteq> dash" and "fs_exists fs' file"
  shows "client_args ustr parse cast random fs app (concat (map render xs) @ file # rest) =
    (Inr (fold (set_opt cast) xs
       \<lparr>prm_host = ascii ''localhost'', prm_port = 4444, prm_uuid = uuid\<rparr>, file), fs')"
  using assms by (simp add: client_args_def client_opts_renders client_opts_operand DEFAULT_PORT_def)

definition cli_fs :: fsys where
  "cli_fs = [[ascii ''.ft_client''] \<mapsto> Dir, [ascii ''.ft_client'', ascii ''.uuid''] \<mapsto> Regular [7],
     [ascii ''f''] \<mapsto> Regular [1, 2]]"

lemma cli_uuid: "getClientUUID id id [9] cli_fs CLIENT_UUID_FILE = (Inr [7], cli_fs)"
proof -
  have e: "entry_path (ascii ''/.ft_client/.uuid'') (ascii ''/.ft_client'') (ascii ''.uuid'')"
    by (simp add: entry_path_def simple_name_def ascii_def)
  have "canon (ascii ''/.ft_client'') = [ascii ''.ft_client'']" by (simp add: canon_def ascii_def)
  then have p: "canon (ascii ''/.ft_client/.uuid'') = [ascii ''.ft_client'', ascii ''.uuid'']"
    using entry_path_parts(3) [OF e] by simp
  have "ascii ''/.ft_client/.uuid'' \<noteq> []" by (simp add: ascii_def)
  then show ?thesis
    by (simp add: getClientUUID_def CLIENT_UUID_FILE_def fs_exists_def is_regular_file_def file_data_def
        node_at_def stream_data_def open_in_def p cli_fs_def)
qed

lemma cli_exists: "fs_exists cli_fs (ascii ''/f'')" "\<not> fs_exists cli_fs (ascii ''/g'')"
  by (simp_all add: fs_exists_def cli_fs_def node_at_def canon_def ascii_def)

theorem client_args_understood_witness:
  "client_args id id Inr [9] cli_fs (ascii ''/ft_client'')
      (concat (map render [Host (ascii ''h''), Port 69980, Uuid [5]]) @ ascii ''/f'' # [ascii ''-h'']) =
    (Inr (fold (set_opt Inr) [Host (ascii ''h''), Port 69980, Uuid [5]]
       \<lparr>prm_host = ascii ''localhost'', prm_port = 4444, prm_uuid = [7]\<rparr>, ascii ''/f''), cli_fs)"
  by (rule client_args_understood [OF cli_uuid])
    (simp_all add: cli_exists, simp_all add: ascii_def dash_def)

text \<open>
  The error exits, after any valid options: \<open>-h\<close> prints the usage text on the standard output
  and exits with 0; an unknown option, a missing operand and a file that does not exist print on
  the standard error and exit with 1.  In each case the file system is the one \<open>getClientUUID\<close>
  left: the identity has been created all the same.
\<close>

theorem client_args_rejected:
  assumes "getClientUUID ustr parse random fs CLIENT_UUID_FILE = (Inr uuid, fs')"
    and "list_all (opt_ok cast) xs" and "c \<notin> {0x68, 0x64, 0x70, 0x75, dash}"
    and "file \<noteq> []" and "hd file \<noteq> dash" and "\<not> fs_exists fs' file"
  shows "let run = (\<lambda>tl. client_args ustr parse cast random fs app (concat (map render xs) @ tl)) in
    run ((dash # 0x68 # cs) # rest) = (Inl (Exit 0 (show_usage app) []), fs') \<and>
    run ((dash # c # cs) # rest) = (Inl (Exit 1 [] (show_usage app)), fs') \<and>
    run [] = (Inl (Exit 1 [] (ascii ''ERROR: File is missing'' @ endl @ show_usage app)), fs') \<and>
    run (file # rest) = (Inl (Exit 1 [] (ascii ''ERROR: File '' @ [0x27] @ quoted file @ [0x27] @
      ascii '' does not exist.'' @ endl @ show_usage app)), fs')"
  using assms
  by (simp add: client_args_def client_opts_renders client_opts_operand client_opts_ends client_opts_unknown
      [where c = c])

theorem client_args_rejected_witness:
  "let run = (\<lambda>tl. client_args id id Inr [9] cli_fs (ascii ''/ft_client'') (concat (map render [Port 80]) @ tl)) in
    run ((dash # 0x68 # []) # []) = (Inl (Exit 0 (show_usage (ascii ''/ft_client'')) []), cli_fs) \<and>
    run ((dash # 0x78 # []) # []) = (Inl (Exit 1 [] (show_usage (ascii ''/ft_client''))), cli_fs) \<and>
    run [] = (Inl (Exit 1 [] (ascii ''ERROR: File is missing'' @ endl @ show_usage (ascii ''/ft_client''))), cli_fs) \<and>
    run (ascii ''/g'' # []) = (Inl (Exit 1 [] (ascii ''ERROR: File '' @ [0x27] @ quoted (ascii ''/g'') @ [0x27] @
      ascii '' does not exist.'' @ endl @ show_usage (ascii ''/ft_client''))), cli_fs)"
  by (rule client_args_rejected [OF cli_uuid])
    (simp_all add: cli_exists, simp_all add: ascii_def dash_def)

end
