(* ===== verification/FT_Poll_Grp.thy ===== *)
theory FT_Poll_Grp
  imports FT_Prelude
begin

text \<open>
  The set of pollables of \<open>src/loop/ft_poll_grp.hpp\<close> and \<open>src/loop/ft_poll_grp.cpp\<close>: a vector
  of pointers and, position by position, the \<open>pollfd\<close> array handed to \<open>poll\<close>.  Pointers are
  numbers; \<open>fd_of\<close> is \<open>getFD\<close> of the object behind a pointer.  \<open>pollAndHandle\<close>, which calls
  into the objects, is in \<open>FT_Loop\<close>.
\<close>

abbreviation (input) POLLIN :: u16 where "POLLIN \<equiv> 0x01"
abbreviation (input) POLLERR :: u16 where "POLLERR \<equiv> 0x08"
abbreviation (input) POLLHUP :: u16 where "POLLHUP \<equiv> 0x10"

record pollfd =
  pfd_fd :: int
  pfd_events :: u16
  pfd_revents :: u16

record poll_group =
  max_pollables :: size_t
  pollables :: "nat list"
  cached_pollfd :: "pollfd list"

definition PollGroup_new :: "u16 \<Rightarrow> poll_group" where
  "PollGroup_new n = \<lparr>max_pollables = ucast n, pollables = [], cached_pollfd = []\<rparr>"

text \<open>
  Resizing the array and rewriting \<open>fd\<close> and \<open>events\<close>: an entry that was there before keeps its
  \<open>revents\<close>, a new one has zero.
\<close>

definition rebuild :: "(nat \<Rightarrow> int) \<Rightarrow> nat list \<Rightarrow> pollfd list \<Rightarrow> pollfd list" where
  "rebuild fd_of ps cached =
     map (\<lambda>i. \<lparr>pfd_fd = fd_of (ps ! i), pfd_events = POLLIN,
               pfd_revents = (if i < length cached then pfd_revents (cached ! i) else 0)\<rparr>) [0..<length ps]"

definition PollGroup_add :: "(nat \<Rightarrow> int) \<Rightarrow> nat \<Rightarrow> poll_group \<Rightarrow> poll_group result" where
  "PollGroup_add fd_of p g =
     (if length (pollables g) \<ge> unat (max_pollables g)
      then Inl (Runtime_error ''Maximum pollable limit exceeded'')
      else let ps = pollables g @ [p]
           in Inr (g\<lparr>pollables := ps, cached_pollfd := rebuild fd_of ps (cached_pollfd g)\<rparr>))"

definition PollGroup_remove :: "(nat \<Rightarrow> int) \<Rightarrow> nat \<Rightarrow> poll_group \<Rightarrow> poll_group" where
  "PollGroup_remove fd_of p g =
     (if p \<in> set (pollables g)
      then let ps = remove1 p (pollables g)
           in g\<lparr>pollables := ps, cached_pollfd := rebuild fd_of ps (cached_pollfd g)\<rparr>
      else g)"

section \<open>The invariant\<close>

text \<open>As many entries as pollables, no pollable twice, and within the limit.\<close>

definition group_inv :: "poll_group \<Rightarrow> bool" where
  "group_inv g \<longleftrightarrow>
     length (cached_pollfd g) = length (pollables g) \<and> distinct (pollables g) \<and>
     length (pollables g) \<le> unat (max_pollables g)"

lemma rebuild_length [simp]: "length (rebuild fd_of ps cached) = length ps"
  by (simp add: rebuild_def)

lemma rebuild_nth:
  "i < length ps \<Longrightarrow> rebuild fd_of ps cached ! i = \<lparr>pfd_fd = fd_of (ps ! i), pfd_events = POLLIN,
     pfd_revents = (if i < length cached then pfd_revents (cached ! i) else 0)\<rparr>"
  by (simp add: rebuild_def)

lemma group_inv_new: "group_inv (PollGroup_new n)"
  by (simp add: group_inv_def PollGroup_new_def)

lemma group_inv_add:
  "group_inv g \<Longrightarrow> p \<notin> set (pollables g) \<Longrightarrow> PollGroup_add fd_of p g = Inr g' \<Longrightarrow> group_inv g'"
  by (auto simp: group_inv_def PollGroup_add_def Let_def split: if_splits)

lemma group_inv_remove: "group_inv g \<Longrightarrow> group_inv (PollGroup_remove fd_of p g)"
  by (auto simp: group_inv_def PollGroup_remove_def Let_def length_remove1)

text \<open>
  Removing the pollable at position \<open>i\<close> shifts the pollables behind it but not their \<open>revents\<close>:
  each of them now sits on the events reported for its predecessor.
\<close>

lemma remove1_nth:
  assumes "distinct xs" and "i < length xs"
  shows "remove1 (xs ! i) xs = take i xs @ drop (Suc i) xs"
proof -
  have xs: "xs = take i xs @ xs ! i # drop (Suc i) xs" using assms(2) by (rule id_take_nth_drop)
  have "xs ! i \<notin> set (take i xs)"
    using assms by (metis distinct.simps(2) distinct_append disjoint_iff list.set_intros(1) xs)
  then show ?thesis by (subst xs) (simp add: remove1_append)
qed

lemma remove_shifts:
  fixes fd_of :: "nat \<Rightarrow> int"
  assumes "group_inv g" and "i < length (pollables g)"
  defines "g' \<equiv> PollGroup_remove fd_of (pollables g ! i) g"
  shows "pollables g' = take i (pollables g) @ drop (Suc i) (pollables g)"
    and "j < length (pollables g') \<Longrightarrow>
      pfd_revents (cached_pollfd g' ! j) = pfd_revents (cached_pollfd g ! j)"
    and "max_pollables g' = max_pollables g"
proof -
  have d: "distinct (pollables g)" and len: "length (cached_pollfd g) = length (pollables g)"
    using assms(1) by (simp_all add: group_inv_def)
  have rem: "g' = g\<lparr>pollables := take i (pollables g) @ drop (Suc i) (pollables g),
      cached_pollfd := rebuild fd_of (take i (pollables g) @ drop (Suc i) (pollables g)) (cached_pollfd g)\<rparr>"
    using assms(2) remove1_nth [OF d assms(2)] by (simp add: g'_def PollGroup_remove_def Let_def)
  show "pollables g' = take i (pollables g) @ drop (Suc i) (pollables g)"
    "max_pollables g' = max_pollables g" by (simp_all add: rem)
  show "pfd_revents (cached_pollfd g' ! j) = pfd_revents (cached_pollfd g ! j)"
    if "j < length (pollables g')" using that assms(2) len by (auto simp: rem rebuild_nth)
qed

end
