(* ===== verification/FT_Loop.thy ===== *)
theory FT_Loop
  imports FT_Conn FT_Poll_Grp
begin

text \<open>
  The event loop: signal handler (\<open>src/loop/ft_signal.cpp\<close>), connection listener
  (\<open>src/netwrk/ft_conn_listener.cpp\<close>), \<open>pollAndHandle\<close> of \<open>src/loop/ft_poll_grp.cpp\<close> and the
  main loop of the server.  The objects behind the pollables live in a store; what the
  operating system has for them (bytes to receive, connections to accept) is part of the state.
\<close>

section \<open>Signals\<close>

record signal_handler =
  sig_fd :: int
  terminate_signal :: bool

text \<open>\<open>mask_ret\<close> and \<open>sfd\<close> are the results of \<open>sigprocmask\<close> and \<open>signalfd\<close>.\<close>

definition SignalHandler_new :: "int \<times> errno \<Rightarrow> int \<times> errno \<Rightarrow> signal_handler result" where
  "SignalHandler_new mask_ret sfd =
     (if fst mask_ret < 0 then Inl (System_error (snd mask_ret) ''Failed to set SIG_BLOCK'')
      else if fst sfd < 0 then Inl (System_error (snd sfd) ''Failed to create signal fd'')
      else Inr \<lparr>sig_fd = fst sfd, terminate_signal = False\<rparr>)"

definition SignalHandler_destroy :: "signal_handler \<Rightarrow> int list" where
  "SignalHandler_destroy s = (if sig_fd s \<ge> 0 then [sig_fd s] else [])"

text \<open>The loop reads until nothing is left; the flag is set in any case.\<close>

definition SignalHandler_handleEvent :: "signal_handler \<Rightarrow> signal_handler" where
  "SignalHandler_handleEvent s = s\<lparr>terminate_signal := True\<rparr>"

definition receivedTermSignal :: "signal_handler \<Rightarrow> bool" where
  "receivedTermSignal s = terminate_signal s"

section \<open>The listener\<close>

record listener =
  lis_fd :: int
  listen_port :: int
  max_conn :: u16

datatype listen_call = L_REUSE | L_BIND int | L_LISTEN u16

text \<open>The constructor, with the descriptors it opened; none is closed on a failure.\<close>

definition ConnectionListener_new ::
    "sock_sys \<Rightarrow> (listen_call \<Rightarrow> int \<times> errno) \<Rightarrow> int \<times> errno \<Rightarrow> int \<Rightarrow> u16 \<Rightarrow> listener result \<times> int list" where
  "ConnectionListener_new sys lsys sck port max_c =
     (if fst sck < 0 then (Inl (System_error (snd sck) ''Failed to open listener socket''), [])
      else let tmpfd = fst sck
      in if fst (lsys L_REUSE) < 0
         then (Inl (System_error (snd (lsys L_REUSE)) ''Failed to set socket option''), [tmpfd])
      else case setup_socket_options sys tmpfd of
        (_, Inl e) \<Rightarrow> (Inl e, [tmpfd])
      | (_, Inr _) \<Rightarrow>
         if fst (lsys (L_BIND port)) < 0
         then (Inl (System_error (snd (lsys (L_BIND port)))
                ''Failed to bind socket to listen address/port''), [tmpfd])
         else if fst (lsys (L_LISTEN max_c)) < 0
         then (Inl (System_error (snd (lsys (L_LISTEN max_c)))
                ''Failed to start listening on address/port''), [tmpfd])
         else (Inr \<lparr>lis_fd = tmpfd, listen_port = port, max_conn = max_c\<rparr>, [tmpfd]))"

definition ConnectionListener_destroy :: "listener \<Rightarrow> int list" where
  "ConnectionListener_destroy l = (if lis_fd l \<ge> 0 then [lis_fd l] else [])"

text \<open>
  A constructor that fails after it has opened its socket leaves the socket open, and there is no
  object whose destructor would close it.
\<close>

lemma listener_failure_leaks:
  assumes "ConnectionListener_new sys lsys sck port max_c = (Inl x, left_open)" and "0 \<le> fst sck"
  shows "left_open = [fst sck]"
  using assms by (auto simp: ConnectionListener_new_def Let_def split: if_splits prod.splits sum.splits)

section \<open>The store and the loop's state\<close>

datatype pollable = P_Conn connection | P_Listener listener | P_Signal signal_handler

fun getFD :: "pollable \<Rightarrow> int" where
  "getFD (P_Conn c) = conn_fd c"
| "getFD (P_Listener l) = lis_fd l"
| "getFD (P_Signal s) = sig_fd s"

text \<open>A pending connection: its descriptor, and the first value of the new object's \<open>msg_len\<close>.\<close>

datatype accept_result = Accepted int size_t | AcceptError errno

record evloop =
  el_objs :: "nat \<rightharpoonup> pollable"
  el_next :: nat \<comment> \<open>the next fresh pointer\<close>
  el_held :: "nat set" \<comment> \<open>objects the main function holds besides the group\<close>
  el_group :: poll_group
  el_broker :: "broker option"
  el_errno :: errno
  el_recv :: "nat \<Rightarrow> recv_result list"
  el_accepts :: "accept_result list"
  el_closed :: "int list" \<comment> \<open>descriptors closed so far\<close>

definition fd_at :: "(nat \<rightharpoonup> pollable) \<Rightarrow> nat \<Rightarrow> int" where
  "fd_at objs p = (case objs p of Some x \<Rightarrow> getFD x | None \<Rightarrow> -1)"

text \<open>
  The listener accepts until there is nothing to accept, makes a connection of each socket and
  adds it to the group.  A connection that cannot be set up or added is closed, and the
  exception ends the loop.
\<close>

fun accept_loop :: "sock_sys \<Rightarrow> accept_result list \<Rightarrow> evloop \<Rightarrow> evloop \<times> ft_exn option" where
  "accept_loop sys [] s = (s\<lparr>el_accepts := [], el_errno := EAGAIN\<rparr>, None)"
| "accept_loop sys (AcceptError e # as) s =
     (s\<lparr>el_accepts := as, el_errno := e\<rparr>,
      if e \<noteq> EAGAIN then Some (System_error e ''Accept failed on socket listener'') else None)"
| "accept_loop sys (Accepted fd junk # as) s =
     (case Connection_accepted sys junk fd of
        (Inl e, closed) \<Rightarrow> (s\<lparr>el_accepts := as, el_closed := el_closed s @ closed\<rparr>, Some e)
      | (Inr c, _) \<Rightarrow>
          (let objs = (el_objs s)(el_next s \<mapsto> P_Conn c)
           in case PollGroup_add (fd_at objs) (el_next s) (el_group s) of
                Inl e \<Rightarrow> (s\<lparr>el_accepts := as, el_closed := el_closed s @ Connection_destroy c\<rparr>, Some e)
              | Inr g \<Rightarrow> accept_loop sys as
                  (s\<lparr>el_objs := objs, el_next := Suc (el_next s), el_group := g\<rparr>)))"

text \<open>The virtual call \<open>pollables.at(i)->handleEvent()\<close>.\<close>

definition dispatch :: "sock_sys \<Rightarrow> nat \<Rightarrow> evloop \<Rightarrow> evloop \<times> ft_exn option" where
  "dispatch sys p s =
     (case el_objs s p of
        None \<Rightarrow> (s, Some Undefined)
      | Some (P_Conn c) \<Rightarrow>
          (case handleEvent p (el_recv s p) \<lparr>rx_conn = c, rx_broker = el_broker s\<rparr> (el_errno s) of
             (rest, r, err, x) \<Rightarrow>
               (s\<lparr>el_objs := (el_objs s)(p \<mapsto> P_Conn (rx_conn r)), el_broker := rx_broker r,
                  el_errno := err, el_recv := (el_recv s)(p := rest)\<rparr>, x))
      | Some (P_Listener l) \<Rightarrow> accept_loop sys (el_accepts s) s
      | Some (P_Signal sg) \<Rightarrow>
          (s\<lparr>el_objs := (el_objs s)(p \<mapsto> P_Signal (SignalHandler_handleEvent sg))\<rparr>, None))"

text \<open>
  Dropping a pollable from the group: when nobody else holds the object it is destroyed, which
  closes its descriptor.
\<close>

fun destroy_pollable :: "pollable \<Rightarrow> int list" where
  "destroy_pollable (P_Conn c) = Connection_destroy c"
| "destroy_pollable (P_Listener l) = ConnectionListener_destroy l"
| "destroy_pollable (P_Signal s) = SignalHandler_destroy s"

definition drop_pollable :: "nat \<Rightarrow> evloop \<Rightarrow> evloop" where
  "drop_pollable p s =
     (let s = s\<lparr>el_group := PollGroup_remove (fd_at (el_objs s)) p (el_group s)\<rparr>
      in if p \<in> el_held s then s
         else s\<lparr>el_closed := el_closed s @ (case el_objs s p of Some x \<Rightarrow> destroy_pollable x | None \<Rightarrow> []),
                el_objs := (el_objs s)(p := None)\<rparr>)"

section \<open>Polling\<close>

datatype poll_result = PollFailed errno | Polled "nat \<Rightarrow> u16"

definition set_revents :: "(nat \<Rightarrow> u16) \<Rightarrow> poll_group \<Rightarrow> poll_group" where
  "set_revents revs g = g\<lparr>cached_pollfd :=
     map (\<lambda>i. (cached_pollfd g ! i)\<lparr>pfd_revents := revs i\<rparr>) [0..<length (cached_pollfd g)]\<rparr>"

text \<open>The body of the loop for index \<open>i\<close>: the new state and the next index.\<close>

definition poll_one :: "sock_sys \<Rightarrow> nat \<Rightarrow> evloop \<Rightarrow> nat \<times> evloop" where
  "poll_one sys i s =
     (let p = pollables (el_group s) ! i;
          revents = (\<lambda>s. pfd_revents (cached_pollfd (el_group s) ! i))
      in if revents s = 0 then (Suc i, s)
         else
           let s = (if revents s AND POLLIN \<noteq> 0 then fst (dispatch sys p s) else s)
           in if revents s AND POLLERR \<noteq> 0 \<or> revents s AND POLLHUP \<noteq> 0 \<or> fd_at (el_objs s) p = -1
              then (i, drop_pollable p s)
              else (Suc i, s))"

lemma accept_loop_grows:
  "\<exists>ys. pollables (el_group (fst (accept_loop sys as s))) = pollables (el_group s) @ ys \<and>
     length (el_accepts (fst (accept_loop sys as s))) + length ys \<le> length as"
proof (induction sys as s rule: accept_loop.induct)
  case (3 sys fd junk as s)
  obtain r closed where r: "Connection_accepted sys junk fd = (r, closed)" by fastforce
  show ?case
  proof (cases r)
    case c: (Inr c)
    let ?objs = "(el_objs s)(el_next s \<mapsto> P_Conn c)"
    show ?thesis
    proof (cases "PollGroup_add (fd_at ?objs) (el_next s) (el_group s)")
      case g: (Inr g)
      have "pollables g = pollables (el_group s) @ [el_next s]"
        using g by (auto simp: PollGroup_add_def Let_def split: if_splits)
      then show ?thesis using "3.IH" [OF r [symmetric] c refl g] r c g by fastforce
    qed (simp add: r c)
  qed (simp add: r)
qed simp_all

lemma dispatch_grows:
  "\<exists>ys. pollables (el_group (fst (dispatch sys p s))) = pollables (el_group s) @ ys \<and>
     length (el_accepts (fst (dispatch sys p s))) + length ys \<le> length (el_accepts s)"
  using accept_loop_grows [of sys "el_accepts s" s]
  by (auto simp: dispatch_def split: option.splits pollable.splits prod.splits)

lemma drop_pollable_group: "el_group (drop_pollable p s) = PollGroup_remove (fd_at (el_objs s)) p (el_group s)"
  "el_accepts (drop_pollable p s) = el_accepts s"
  by (simp_all add: drop_pollable_def Let_def)

lemma poll_one_decreases:
  assumes i: "i < length (pollables (el_group s))" and run: "poll_one sys i s = (j, s')"
  shows "length (el_accepts s') + length (pollables (el_group s')) - j <
    length (el_accepts s) + length (pollables (el_group s)) - i"
proof -
  let ?p = "pollables (el_group s) ! i"
  obtain t where t: "t = s \<or> t = fst (dispatch sys ?p s)"
    and st: "(j, s') = (Suc i, t) \<or> (j, s') = (i, drop_pollable ?p t)"
    using run by (auto simp: poll_one_def Let_def split: if_splits)
  obtain ys where ys: "pollables (el_group t) = pollables (el_group s) @ ys"
    "length (el_accepts t) + length ys \<le> length (el_accepts s)"
    using t dispatch_grows [of sys ?p s] by auto
  have "?p \<in> set (pollables (el_group t))" using i ys(1) by simp
  then have "length (pollables (el_group (drop_pollable ?p t))) = length (pollables (el_group t)) - 1"
    by (simp add: drop_pollable_group PollGroup_remove_def Let_def length_remove1)
  then show ?thesis using st ys i drop_pollable_group(2) [of ?p t] by auto
qed

text \<open>
  The loop over the positions.  A removed pollable leaves the index where it is; accepting adds
  positions, but each of them uses up a pending connection, so the loop ends.
\<close>

function poll_loop :: "sock_sys \<Rightarrow> nat \<Rightarrow> evloop \<Rightarrow> evloop" where
  "poll_loop sys i s =
     (if i < length (pollables (el_group s))
      then case poll_one sys i s of (j, s') \<Rightarrow> poll_loop sys j s'
      else s)"
  by pat_completeness auto
termination
proof (relation "measure (\<lambda>(sys, i, s). length (el_accepts s) + length (pollables (el_group s)) - i)")
  fix sys i s x y
  assume "i < length (pollables (el_group s))" and "(x, y) = poll_one sys i s"
  from poll_one_decreases [OF this(1) this(2) [symmetric]]
  show "((sys, x, y), sys, i, s) \<in>
      measure (\<lambda>(sys, i, s). length (el_accepts s) + length (pollables (el_group s)) - i)" by simp
qed simp

declare poll_loop.simps [simp del]

text \<open>\<open>pollAndHandle\<close>; a failing \<open>poll\<close> throws, and nothing is done when no event was reported.\<close>

definition pollAndHandle :: "sock_sys \<Rightarrow> poll_result \<Rightarrow> evloop \<Rightarrow> bool result \<times> evloop" where
  "pollAndHandle sys r s =
     (case r of
        PollFailed e \<Rightarrow> (Inl (System_error e ''Poll failed''), s)
      | Polled revs \<Rightarrow>
          (let s = s\<lparr>el_group := set_revents revs (el_group s)\<rparr>
           in if \<exists>i < length (cached_pollfd (el_group s)). revs i \<noteq> 0
              then (Inr True, poll_loop sys 0 s) else (Inr True, s)))"

text \<open>
  The server's main loop, on the results of successive calls of \<open>poll\<close>: it stops when the
  signal handler \<open>sg\<close> has seen a signal, and an exception of \<open>pollAndHandle\<close> ends the program.
  The last component tells whether the loop ended by itself.
\<close>

definition signalled :: "nat \<Rightarrow> evloop \<Rightarrow> bool" where
  "signalled sg s = (case el_objs s sg of Some (P_Signal h) \<Rightarrow> receivedTermSignal h | _ \<Rightarrow> False)"

fun server_main_loop :: "sock_sys \<Rightarrow> nat \<Rightarrow> poll_result list \<Rightarrow> evloop \<Rightarrow> evloop \<times> ft_exn option \<times> bool" where
  "server_main_loop sys sg [] s = (s, None, False)"
| "server_main_loop sys sg (r # rs) s =
     (case pollAndHandle sys r s of
        (Inl e, s) \<Rightarrow> (s, Some e, True)
      | (Inr b, s) \<Rightarrow> if b \<and> \<not> signalled sg s then server_main_loop sys sg rs s else (s, None, True))"

section \<open>The invariant of the loop\<close>

text \<open>Every pollable of the group is an object of the store, and the group is well-formed.\<close>

definition loop_inv :: "evloop \<Rightarrow> bool" where
  "loop_inv s \<longleftrightarrow>
     group_inv (el_group s) \<and>
     (\<forall>p \<in> set (pollables (el_group s)). p < el_next s \<and> el_objs s p \<noteq> None)"

lemma loop_inv_add:
  assumes "loop_inv s" and "PollGroup_add fd_of (el_next s) (el_group s) = Inr g"
  shows "loop_inv (s\<lparr>el_objs := (el_objs s)(el_next s \<mapsto> x), el_next := Suc (el_next s), el_group := g\<rparr>)"
proof -
  have "el_next s \<notin> set (pollables (el_group s))" using assms(1) by (auto simp: loop_inv_def)
  then have "group_inv g" using assms group_inv_add by (auto simp: loop_inv_def)
  moreover have "pollables g = pollables (el_group s) @ [el_next s]"
    using assms(2) by (auto simp: PollGroup_add_def Let_def split: if_splits)
  ultimately show ?thesis using assms(1) by (auto simp: loop_inv_def less_Suc_eq)
qed

lemma loop_inv_objs:
  "loop_inv s \<Longrightarrow> loop_inv (s\<lparr>el_objs := (el_objs s)(p \<mapsto> x), el_broker := b, el_errno := e, el_recv := r\<rparr>)"
  "loop_inv s \<Longrightarrow> loop_inv (s\<lparr>el_objs := (el_objs s)(p \<mapsto> x)\<rparr>)"
  "loop_inv s \<Longrightarrow> loop_inv (s\<lparr>el_accepts := a, el_errno := e\<rparr>)"
  "loop_inv s \<Longrightarrow> loop_inv (s\<lparr>el_accepts := a, el_closed := c\<rparr>)"
  by (auto simp: loop_inv_def)

lemma loop_inv_accept: "loop_inv s \<Longrightarrow> loop_inv (fst (accept_loop sys as s))"
  by (induction sys as s rule: accept_loop.induct)
    (auto simp: Let_def loop_inv_objs loop_inv_add split: prod.splits sum.splits)

lemma loop_inv_dispatch: "loop_inv s \<Longrightarrow> loop_inv (fst (dispatch sys p s))"
  by (auto simp: dispatch_def loop_inv_accept loop_inv_objs split: option.splits pollable.splits prod.splits)

lemma loop_inv_drop:
  assumes "loop_inv s" shows "loop_inv (drop_pollable p s)"
proof -
  let ?g = "PollGroup_remove (fd_at (el_objs s)) p (el_group s)"
  have inv: "group_inv (el_group s)" using assms by (simp add: loop_inv_def)
  have g: "group_inv ?g" using inv by (rule group_inv_remove)
  have d: "distinct (pollables (el_group s))" using inv by (simp add: group_inv_def)
  have "set (pollables ?g) = set (pollables (el_group s)) - {p}"
    using d by (auto simp: PollGroup_remove_def Let_def)
  then show ?thesis using assms g by (auto simp: loop_inv_def drop_pollable_def Let_def)
qed

lemma loop_inv_one: "loop_inv s \<Longrightarrow> poll_one sys i s = (j, s') \<Longrightarrow> loop_inv s'"
  by (auto simp: poll_one_def Let_def loop_inv_dispatch loop_inv_drop split: if_splits)

lemma loop_inv_loop: "loop_inv s \<Longrightarrow> loop_inv (poll_loop sys i s)"
proof (induction sys i s rule: poll_loop.induct)
  case (1 sys i s)
  obtain j s' where one: "poll_one sys i s = (j, s')" by fastforce
  show ?case
    using "1.IH" [OF _ one [symmetric]] "1.prems" loop_inv_one [OF "1.prems" one] one
    by (simp add: poll_loop.simps [of sys i s])
qed

lemma set_revents_pollables [simp]:
  "pollables (set_revents revs g) = pollables g"
  "length (cached_pollfd (set_revents revs g)) = length (cached_pollfd g)"
  "max_pollables (set_revents revs g) = max_pollables g"
  by (simp_all add: set_revents_def)

lemma set_revents_nth: "i < length (cached_pollfd g) \<Longrightarrow> pfd_revents (cached_pollfd (set_revents revs g) ! i) = revs i"
  by (simp add: set_revents_def)

lemma loop_inv_poll: "loop_inv s \<Longrightarrow> pollAndHandle sys r s = (b, s') \<Longrightarrow> loop_inv s'"
proof -
  assume inv: "loop_inv s" and run: "pollAndHandle sys r s = (b, s')"
  have "loop_inv (s\<lparr>el_group := set_revents revs (el_group s)\<rparr>)" for revs
    using inv by (auto simp: loop_inv_def group_inv_def)
  then show ?thesis
    using inv run by (auto simp: pollAndHandle_def Let_def loop_inv_loop split: poll_result.splits if_splits)
qed

section \<open>A hang-up in the middle\<close>

text \<open>
  After a removal the next pollable is looked at with the events of the removed one.  Once a
  position reports a hang-up without input, everything from there on is removed.
\<close>

definition hup_at :: "nat \<Rightarrow> evloop \<Rightarrow> bool" where
  "hup_at i s \<longleftrightarrow> (let r = pfd_revents (cached_pollfd (el_group s) ! i)
     in r AND POLLIN = 0 \<and> (r AND POLLERR \<noteq> 0 \<or> r AND POLLHUP \<noteq> 0))"

lemma hup_step:
  assumes "loop_inv s" and "i < length (pollables (el_group s))" and "hup_at i s"
  shows "poll_one sys i s = (i, drop_pollable (pollables (el_group s) ! i) s)"
proof -
  have "pfd_revents (cached_pollfd (el_group s) ! i) \<noteq> 0" using assms(3) by (auto simp: hup_at_def Let_def)
  then show ?thesis using assms(3) by (auto simp: poll_one_def Let_def hup_at_def)
qed

lemma hup_removes:
  assumes "loop_inv s" and "hup_at i s \<or> length (pollables (el_group s)) \<le> i"
  shows "pollables (el_group (poll_loop sys i s)) = take i (pollables (el_group s))"
  using assms
proof (induction "length (pollables (el_group s)) - i" arbitrary: s)
  case 0
  then show ?case by (simp add: poll_loop.simps [of sys i s])
next
  case (Suc n)
  then have i: "i < length (pollables (el_group s))" and hup: "hup_at i s" by auto
  let ?p = "pollables (el_group s) ! i"
  let ?s = "drop_pollable ?p s"
  have inv: "group_inv (el_group s)" using Suc.prems(1) by (simp add: loop_inv_def)
  note shift = remove_shifts [where fd_of = "fd_at (el_objs s)", OF inv i, folded drop_pollable_group(1)]
  have step: "poll_loop sys i s = poll_loop sys i ?s"
    using i hup_step [OF Suc.prems(1) i hup] by (simp add: poll_loop.simps [of sys i s])
  have n: "n = length (pollables (el_group ?s)) - i" using Suc.hyps(2) i by (simp add: shift(1))
  have "hup_at i ?s \<or> length (pollables (el_group ?s)) \<le> i"
    using hup shift(2) [of i] by (auto simp: hup_at_def not_le)
  from Suc.hyps(1) [OF n loop_inv_drop [OF Suc.prems(1)] this] step
  show ?case using i by (simp add: shift(1))
qed

lemma quiet_prefix:
  assumes "i \<le> length (pollables (el_group s))"
    and "\<And>j. j < i \<Longrightarrow> pfd_revents (cached_pollfd (el_group s) ! j) = 0"
  shows "poll_loop sys 0 s = poll_loop sys i s"
proof -
  have "poll_loop sys 0 s = poll_loop sys k s" if "k \<le> i" for k
    using that
  proof (induction k)
    case (Suc k)
    then have "poll_one sys k s = (Suc k, s)" using assms(2) by (simp add: poll_one_def)
    then show ?case using Suc assms(1) by (simp add: poll_loop.simps [of sys k s])
  qed simp
  then show ?thesis by simp
qed

section \<open>Properties of the event loop\<close>

text \<open>A server with its listener, its signal handler and two connections.\<close>

definition sample_loop :: evloop where
  "sample_loop =
     \<lparr>el_objs = [0 \<mapsto> P_Listener \<lparr>lis_fd = 3, listen_port = 4444, max_conn = 1024\<rparr>,
        1 \<mapsto> P_Signal \<lparr>sig_fd = 4, terminate_signal = False\<rparr>,
        2 \<mapsto> P_Conn \<lparr>conn_fd = 5, conn_msg_buf = [], conn_msg_len = 0\<rparr>,
        3 \<mapsto> P_Conn \<lparr>conn_fd = 6, conn_msg_buf = [], conn_msg_len = 0\<rparr>],
      el_next = 4, el_held = {0, 1},
      el_group = \<lparr>max_pollables = 1026, pollables = [0, 1, 2, 3],
        cached_pollfd = map (\<lambda>fd. \<lparr>pfd_fd = fd, pfd_events = POLLIN, pfd_revents = 0\<rparr>) [3, 4, 5, 6]\<rparr>,
      el_broker = None, el_errno = ENONE, el_recv = (\<lambda>_. []), el_accepts = [], el_closed = []\<rparr>"

lemma sample_loop_inv: "loop_inv sample_loop"
  by (simp add: loop_inv_def group_inv_def sample_loop_def)

text \<open>
  Whatever \<open>poll\<close> reports and whatever the objects do when called, including throwing and
  accepting new connections, \<open>pollAndHandle\<close> keeps the loop well-formed: as many \<open>pollfd\<close>
  entries as pollables, no pollable twice, not more than the limit, and every pollable an
  object that exists.
\<close>

theorem poll_keeps_group:
  assumes "loop_inv s" and "pollAndHandle sys r s = (b, s')"
  shows "length (cached_pollfd (el_group s')) = length (pollables (el_group s')) \<and>
    distinct (pollables (el_group s')) \<and>
    length (pollables (el_group s')) \<le> unat (max_pollables (el_group s')) \<and>
    set (pollables (el_group s')) \<subseteq> dom (el_objs s')"
  using loop_inv_poll [OF assms] by (auto simp: loop_inv_def group_inv_def)

theorem poll_keeps_group_witness:
  "length (cached_pollfd (el_group sample_loop)) = length (pollables (el_group sample_loop)) \<and>
    distinct (pollables (el_group sample_loop)) \<and>
    length (pollables (el_group sample_loop)) \<le> unat (max_pollables (el_group sample_loop)) \<and>
    set (pollables (el_group sample_loop)) \<subseteq> dom (el_objs sample_loop)"
  by (rule poll_keeps_group [OF sample_loop_inv, where r = "PollFailed EINTR"]) (simp add: pollAndHandle_def)

text \<open>
  A pollable for which \<open>poll\<close> reports a hang-up or an error, without input, takes all those
  behind it along: \<open>remove\<close> shifts the pollables but not the reported events, so each next one
  is judged by the events of the removed one, and the group is cut off at that position.
\<close>

theorem hangup_drops_rest:
  assumes "loop_inv s" and "i < length (pollables (el_group s))"
    and "\<And>j. j < i \<Longrightarrow> revs j = 0"
    and "revs i AND POLLIN = 0" and "revs i AND POLLERR \<noteq> 0 \<or> revs i AND POLLHUP \<noteq> 0"
  shows "\<exists>s'. pollAndHandle sys (Polled revs) s = (Inr True, s') \<and>
    pollables (el_group s') = take i (pollables (el_group s))"
proof -
  let ?s = "s\<lparr>el_group := set_revents revs (el_group s)\<rparr>"
  have len: "length (cached_pollfd (el_group s)) = length (pollables (el_group s))"
    using assms(1) by (simp add: loop_inv_def group_inv_def)
  have inv: "loop_inv ?s" using assms(1) by (auto simp: loop_inv_def group_inv_def)
  have ne: "revs i \<noteq> 0" using assms(5) by auto
  have "hup_at i ?s" using assms(2,4,5) len by (simp add: hup_at_def set_revents_nth)
  then have "pollables (el_group (poll_loop sys i ?s)) = take i (pollables (el_group s))"
    using hup_removes [OF inv] by simp
  moreover have "poll_loop sys 0 ?s = poll_loop sys i ?s"
    using assms(2,3) len by (intro quiet_prefix) (simp_all add: set_revents_nth)
  ultimately show ?thesis
    using ne assms(2) len by (intro exI [of _ "poll_loop sys 0 ?s"]) (auto simp: pollAndHandle_def Let_def)
qed

theorem hangup_drops_rest_witness:
  "\<exists>s'. pollAndHandle (\<lambda>_ _. (0, ENONE)) (Polled (\<lambda>i. if i = 2 then POLLHUP else 0)) sample_loop =
      (Inr True, s') \<and>
    pollables (el_group s') = take 2 (pollables (el_group sample_loop))"
  by (rule hangup_drops_rest [OF sample_loop_inv]) (simp_all add: sample_loop_def)

lemma signal_round:
  assumes "i < length (pollables (el_group s))" and "pollables (el_group s) ! i = sg"
    and "el_objs s sg = Some (P_Signal h)" and "sig_fd h \<noteq> -1"
    and "pfd_revents (cached_pollfd (el_group s) ! i) = POLLIN"
  shows "poll_one sys i s = (Suc i, s\<lparr>el_objs := (el_objs s)(sg \<mapsto> P_Signal (h\<lparr>terminate_signal := True\<rparr>))\<rparr>)"
  using assms by (simp add: poll_one_def Let_def dispatch_def SignalHandler_handleEvent_def fd_at_def)

lemma quiet_suffix:
  assumes "\<And>j. i \<le> j \<Longrightarrow> j < length (pollables (el_group s)) \<Longrightarrow> pfd_revents (cached_pollfd (el_group s) ! j) = 0"
  shows "poll_loop sys i s = s"
  using assms
proof (induction "length (pollables (el_group s)) - i" arbitrary: i)
  case 0
  then show ?case by (simp add: poll_loop.simps [of sys i s])
next
  case (Suc n)
  then have "poll_one sys i s = (Suc i, s)" by (simp add: poll_one_def)
  moreover have "poll_loop sys (Suc i) s = s" using Suc by (intro Suc.hyps(1)) simp_all
  ultimately show ?case by (simp add: poll_loop.simps [of sys i s])
qed



end
