(* ===== verification/FT_Main.thy ===== *)
theory FT_Main
  imports FT_Args FT_Loop FT_Client FT_Server
begin

text \<open>
  The two programs as a whole: how the \<open>main\<close> functions of \<open>src/ft_client.cpp\<close> and
  \<open>src/ft_server.cpp\<close> make and link their components, and how a process then runs, its main
  thread in the event loop and its workers taking requests from the broker.
\<close>

section \<open>The client process\<close>

text \<open>
  What the operating system answers while the client starts: \<open>sigprocmask\<close>, \<open>signalfd\<close>,
  \<open>getaddrinfo\<close> for a host and a port, \<open>socket\<close> and \<open>connect\<close> for an address, the socket options,
  \<open>send\<close>; the bytes that will arrive on the connection; \<open>errno\<close> and the first value of \<open>msg_len\<close>.
\<close>

record 'a client_os =
  co_mask :: "int \<times> errno"
  co_sfd :: "int \<times> errno"
  co_gai :: "bytes \<Rightarrow> u16 \<Rightarrow> int \<times> 'a list"
  co_sock :: "'a \<Rightarrow> int"
  co_cnct :: "'a \<Rightarrow> int \<Rightarrow> int"
  co_sys :: sock_sys
  co_sends :: sends
  co_recv :: "recv_result list"
  co_errno :: errno
  co_junk :: size_t

text \<open>
  The process: its event loop, the request handler, what was put on the connections and the
  exceptions the worker printed.
\<close>

record client_proc =
  cp_loop :: evloop
  cp_client :: client
  cp_sent :: outgoing
  cp_errors :: "ft_exn list"

definition loop_conns :: "evloop \<Rightarrow> conns" where
  "loop_conns s = (\<lambda>c. case el_objs s c of Some (P_Conn x) \<Rightarrow> Some x | _ \<Rightarrow> None)"

text \<open>
  The second half of the client's \<open>main\<close>: the signal handler is object 0, the connection object 1;
  both are held by \<open>main\<close> and by the group.
\<close>

definition client_start ::
    "'s blake2b \<Rightarrow> 'a client_os \<Rightarrow> fsys \<Rightarrow> client_params \<Rightarrow> path \<Rightarrow> client_proc result" where
  "client_start B os fs prm file =
     (let poll_group = PollGroup_new 2
      in rbind (SignalHandler_new (co_mask os) (co_sfd os)) (\<lambda>signals.
         case co_gai os (prm_host prm) (prm_port prm) of (ret, addrs) \<Rightarrow>
         rbind (fst (Connection_host (co_sys os) (co_sock os) (co_cnct os) (co_junk os) ret addrs)) (\<lambda>conn.
         let client_req_hndlr = \<lparr>cl_uuid = prm_uuid prm, client_files = Map.empty\<rparr>
         in rbind (makeLocalFile B [] fs file) (\<lambda>localFile.
         let req_broker = broker_init 1;
             objs = [0 \<mapsto> P_Signal signals, 1 \<mapsto> P_Conn conn]
         in rbind (PollGroup_add (fd_at objs) 0 poll_group) (\<lambda>poll_group.
            rbind (PollGroup_add (fd_at objs) 1 poll_group) (\<lambda>poll_group.
            let s = \<lparr>el_objs = objs, el_next = 2, el_held = {0, 1}, el_group = poll_group,
                  el_broker = Some req_broker, el_errno = co_errno os,
                  el_recv = (\<lambda>c. if c = 1 then co_recv os else []), el_accepts = [], el_closed = []\<rparr>
            in case Client_offer (loop_conns s) (co_sends os) client_req_hndlr 1 localFile of
                 (_, _, Some e) \<Rightarrow> Inl e
               | (cl, out, None) \<Rightarrow>
                   Inr \<lparr>cp_loop = s, cp_client = cl, cp_sent = out, cp_errors = []\<rparr>))))))"

text \<open>The worker handles the first \<open>k\<close> requests of the queue.\<close>

definition client_work :: "'s blake2b \<Rightarrow> fsys \<Rightarrow> sends \<Rightarrow> nat \<Rightarrow> client_proc \<Rightarrow> client_proc" where
  "client_work B fs snds k p =
     (case el_broker (cp_loop p) of
        None \<Rightarrow> p
      | Some b \<Rightarrow>
         (case handle_all (Client_handleRequest B fs (loop_conns (cp_loop p)) snds)
                 (take k (sm_req_list b)) (cp_client p) of
            (cl, outs, xs) \<Rightarrow>
              p\<lparr>cp_loop := (cp_loop p)\<lparr>el_broker := Some (b\<lparr>sm_req_list := drop k (sm_req_list b),
                   taken := taken b @ take k (sm_req_list b)\<rparr>)\<rparr>,
                cp_client := cl, cp_sent := cp_sent p @ outs, cp_errors := cp_errors p @ xs\<rparr>))"

text \<open>
  The main loop.  A round says how many requests the worker has handled when the uploads are
  looked at, and what \<open>poll\<close> returns.  The result has the exception that ended the program, if
  any, and whether the loop was left.
\<close>

fun client_run ::
    "'s blake2b \<Rightarrow> fsys \<Rightarrow> sock_sys \<Rightarrow> sends \<Rightarrow> (nat \<times> poll_result) list \<Rightarrow> client_proc \<Rightarrow>
     client_proc \<times> ft_exn option \<times> bool" where
  "client_run B fs sys snds [] p = (p, None, False)"
| "client_run B fs sys snds ((k, r) # rs) p =
     (let p = client_work B fs snds k p
      in if uploadsCompleted (cp_client p) then (p, None, True)
         else case pollAndHandle sys r (cp_loop p) of
           (Inl e, s) \<Rightarrow> (p\<lparr>cp_loop := s\<rparr>, Some e, True)
         | (Inr b, s) \<Rightarrow>
             if b \<and> \<not> signalled 0 s then client_run B fs sys snds rs (p\<lparr>cp_loop := s\<rparr>)
             else (p\<lparr>cp_loop := s\<rparr>, None, True))"

definition client_main ::
    "'s blake2b \<Rightarrow> (bytes \<Rightarrow> bytes) \<Rightarrow> (bytes \<Rightarrow> bytes) \<Rightarrow> (bytes \<Rightarrow> bytes result) \<Rightarrow> bytes \<Rightarrow> 'a client_os \<Rightarrow>
     fsys \<Rightarrow> bytes \<Rightarrow> bytes list \<Rightarrow> (nat \<times> poll_result) list \<Rightarrow>
     (main_end + (client_proc \<times> ft_exn option \<times> bool)) \<times> fsys" where
  "client_main B ustr parse cast random os fs app args rounds =
     (case client_args ustr parse cast random fs app args of
        (Inl e, fs) \<Rightarrow> (Inl e, fs)
      | (Inr (prm, file), fs) \<Rightarrow>
         (case client_start B os fs prm file of
            Inl e \<Rightarrow> (Inl (Abort e), fs)
          | Inr p \<Rightarrow> (Inr (client_run B fs (co_sys os) (co_sends os) rounds p), fs)))"

section \<open>The server process\<close>

definition MAX_CONNECTIONS :: u16 where "MAX_CONNECTIONS = 1024"
definition MAX_REQ_BROKER_THREADS :: u16 where "MAX_REQ_BROKER_THREADS = 16"

record server_os =
  so_mask :: "int \<times> errno"
  so_sfd :: "int \<times> errno"
  so_socket :: "int \<times> errno"
  so_listen :: "listen_call \<Rightarrow> int \<times> errno"
  so_sys :: sock_sys
  so_errno :: errno

text \<open>The listener is object 0 and the signal handler object 1.\<close>

definition server_start :: "server_os \<Rightarrow> evloop result" where
  "server_start os =
     (let poll_group = PollGroup_new (MAX_CONNECTIONS + 2)
      in rbind (SignalHandler_new (so_mask os) (so_sfd os)) (\<lambda>signals.
         rbind (fst (ConnectionListener_new (so_sys os) (so_listen os) (so_socket os)
            (int (unat DEFAULT_PORT)) MAX_CONNECTIONS)) (\<lambda>server.
         let req_broker = broker_init MAX_REQ_BROKER_THREADS;
             objs = [0 \<mapsto> P_Listener server, 1 \<mapsto> P_Signal signals]
         in rbind (PollGroup_add (fd_at objs) 0 poll_group) (\<lambda>poll_group.
            rbind (PollGroup_add (fd_at objs) 1 poll_group) (\<lambda>poll_group.
            Inr \<lparr>el_objs = objs, el_next = 2, el_held = {0, 1}, el_group = poll_group,
                 el_broker = Some req_broker, el_errno = so_errno os, el_recv = (\<lambda>_. []),
                 el_accepts = [], el_closed = []\<rparr>)))))"

definition server_main :: "server_os \<Rightarrow> poll_result list \<Rightarrow> main_end + (evloop \<times> ft_exn option \<times> bool)" where
  "server_main os rs =
     (case server_start os of
        Inl e \<Rightarrow> Inl (Abort e)
      | Inr s \<Rightarrow> Inr (server_main_loop (so_sys os) 1 rs s))"

text \<open>
  The server with its threads: the loop state and the file system.  Connections and bytes arrive
  at any time; the main thread runs a round of the event loop while no worker holds the mutex;
  a worker takes a step of \<open>RequestBrokerWorker::run\<close>, and when it is done with a request the file
  system is as the handler leaves it.
\<close>

record server_proc =
  sp_loop :: evloop
  sp_fs :: fsys

definition handled_fs ::
    "'s blake2b \<Rightarrow> (bytes \<Rightarrow> bytes) \<Rightarrow> sends \<Rightarrow> nat \<Rightarrow> broker \<Rightarrow> server_proc \<Rightarrow> fsys" where
  "handled_fs B ustr snds i b p =
     (case workers b ! i of
        W_Handling r \<Rightarrow>
          fst (Server_handleRequest B ustr SERVER_BASE_PATH (loop_conns (sp_loop p)) snds (sp_fs p) r)
      | _ \<Rightarrow> sp_fs p)"

inductive server_run ::
    "'s blake2b \<Rightarrow> (bytes \<Rightarrow> bytes) \<Rightarrow> sends \<Rightarrow> server_os \<Rightarrow> fsys \<Rightarrow> server_proc \<Rightarrow> bool"
  for B :: "'s blake2b" and ustr :: "bytes \<Rightarrow> bytes" and snds :: sends and os :: server_os and fs :: fsys
where
  start: "server_start os = Inr s \<Longrightarrow> server_run B ustr snds os fs \<lparr>sp_loop = s, sp_fs = fs\<rparr>"
| arrive: "server_run B ustr snds os fs p \<Longrightarrow>
    server_run B ustr snds os fs (p\<lparr>sp_loop := (sp_loop p)\<lparr>el_accepts := as, el_recv := rv\<rparr>\<rparr>)"
| poll: "server_run B ustr snds os fs p \<Longrightarrow> el_broker (sp_loop p) = Some b \<Longrightarrow> sm_mutex b = None \<Longrightarrow>
    pollAndHandle (so_sys os) r (sp_loop p) = (res, s) \<Longrightarrow>
    server_run B ustr snds os fs (p\<lparr>sp_loop := s\<rparr>)"
| work: "server_run B ustr snds os fs p \<Longrightarrow> el_broker (sp_loop p) = Some b \<Longrightarrow> worker_step i b b' \<Longrightarrow>
    server_run B ustr snds os fs
      (p\<lparr>sp_loop := (sp_loop p)\<lparr>el_broker := Some b'\<rparr>, sp_fs := handled_fs B ustr snds i b p\<rparr>)"

section \<open>The broker behind the event loop\<close>

text \<open>
  A round of the event loop does nothing to the broker but queue requests: it stays a broker its
  workers can have reached, with the mutex free.
\<close>

definition broker_free :: "u16 \<Rightarrow> broker option \<Rightarrow> bool" where
  "broker_free n ob \<longleftrightarrow> (\<exists>b qs. ob = Some b \<and> broker_run n qs b \<and> sm_mutex b = None)"

lemma broker_free_queue: "broker_free n (Some b) \<Longrightarrow> broker_free n (Some (queueRequest b r))"
  unfolding broker_free_def by (auto simp: queueRequest_def intro: broker_run.queue [unfolded queueRequest_def])

lemma broker_free_message:
  "broker_free n (rx_broker s) \<Longrightarrow> handleMessage self s = (s', x) \<Longrightarrow> broker_free n (rx_broker s')"
  by (auto simp: handleMessage_def broker_free_queue split: sum.splits option.splits)

lemma broker_free_byte:
  "broker_free n (rx_broker s) \<Longrightarrow> process_byte self b s = (s', x) \<Longrightarrow> broker_free n (rx_broker s')"
  using broker_free_message [of n "push_byte b s" self]
  by (auto simp: process_byte_def Let_def push_byte_def set_len_def clear_buf_def
      split: if_splits prod.splits option.splits)

lemma broker_free_recv:
  "broker_free n (rx_broker s) \<Longrightarrow> recv_loop self rs s err = (rest, s', err', x) \<Longrightarrow> broker_free n (rx_broker s')"
proof (induction self rs s err rule: recv_loop.induct)
  case (2 self b rs s err)
  obtain s1 y where one: "process_byte self b s = (s1, y)" by fastforce
  then have free: "broker_free n (rx_broker s1)" using 2 broker_free_byte by blast
  show ?case
  proof (cases y)
    case None
    show ?thesis using "2.IH" [OF one [symmetric] None free] "2.prems"(2) one None by simp
  next
    case (Some e)
    then show ?thesis using "2.prems"(2) one free by auto
  qed
qed auto

lemma broker_free_event:
  "broker_free n (rx_broker s) \<Longrightarrow> handleEvent self rs s err = (rest, s', err', x) \<Longrightarrow> broker_free n (rx_broker s')"
  by (auto simp: handleEvent_def split: prod.splits option.splits if_splits dest: broker_free_recv)

lemma accept_loop_broker: "el_broker (fst (accept_loop sys as s)) = el_broker s"
  by (induction sys as s rule: accept_loop.induct) (auto simp: Let_def split: prod.splits sum.splits)

lemma broker_free_dispatch: "broker_free n (el_broker s) \<Longrightarrow> broker_free n (el_broker (fst (dispatch sys p s)))"
  by (auto simp: dispatch_def accept_loop_broker split: option.splits pollable.splits prod.splits
      dest: broker_free_event [rotated])

lemma broker_free_one: "broker_free n (el_broker s) \<Longrightarrow> poll_one sys i s = (j, s') \<Longrightarrow> broker_free n (el_broker s')"
  by (auto simp: poll_one_def Let_def drop_pollable_def broker_free_dispatch split: if_splits)

lemma broker_free_loop: "broker_free n (el_broker s) \<Longrightarrow> broker_free n (el_broker (poll_loop sys i s))"
proof (induction sys i s rule: poll_loop.induct)
  case (1 sys i s)
  obtain j s' where one: "poll_one sys i s = (j, s')" by fastforce
  show ?case
    using "1.IH" [OF _ one [symmetric]] "1.prems" broker_free_one [OF "1.prems" one] one
    by (simp add: poll_loop.simps [of sys i s])
qed

lemma broker_free_poll:
  "broker_free n (el_broker s) \<Longrightarrow> pollAndHandle sys r s = (res, s') \<Longrightarrow> broker_free n (el_broker s')"
  by (auto simp: pollAndHandle_def Let_def broker_free_loop split: poll_result.splits if_splits)

section \<open>Every state the server can reach\<close>

lemma server_start_state:
  assumes "server_start os = Inr s"
  shows "loop_inv s" and "el_broker s = Some (broker_init 16)" and "pollables (el_group s) = [0, 1]"
    and "max_pollables (el_group s) = 1026"
proof -
  have "loop_inv s \<and> el_broker s = Some (broker_init 16) \<and> pollables (el_group s) = [0, 1] \<and>
      max_pollables (el_group s) = 1026"
    using assms
    by (auto simp: server_start_def Let_def rbind_Inr_iff PollGroup_add_def PollGroup_new_def loop_inv_def
        group_inv_def MAX_CONNECTIONS_def MAX_REQ_BROKER_THREADS_def split: if_splits)
  then show "loop_inv s" "el_broker s = Some (broker_init 16)" "pollables (el_group s) = [0, 1]"
    "max_pollables (el_group s) = 1026" by simp_all
qed

definition server_inv :: "fsys \<Rightarrow> server_proc \<Rightarrow> bool" where
  "server_inv fs p \<longleftrightarrow>
     loop_inv (sp_loop p) \<and> max_pollables (el_group (sp_loop p)) = 1026 \<and>
     (\<exists>b qs. el_broker (sp_loop p) = Some b \<and> broker_run 16 qs b) \<and> fs_keeps fs (sp_fs p)"

text \<open>The capacity of the group never changes.\<close>

lemma accept_loop_max: "max_pollables (el_group (fst (accept_loop sys as s))) = max_pollables (el_group s)"
  by (induction sys as s rule: accept_loop.induct)
    (auto simp: Let_def PollGroup_add_def split: prod.splits sum.splits if_splits)

lemma poll_one_max: "poll_one sys i s = (j, s') \<Longrightarrow> max_pollables (el_group s') = max_pollables (el_group s)"
  by (auto simp: poll_one_def Let_def drop_pollable_group PollGroup_remove_def dispatch_def accept_loop_max
      split: if_splits option.splits pollable.splits prod.splits)

lemma poll_loop_max: "max_pollables (el_group (poll_loop sys i s)) = max_pollables (el_group s)"
proof (induction sys i s rule: poll_loop.induct)
  case (1 sys i s)
  obtain j s' where one: "poll_one sys i s = (j, s')" by fastforce
  show ?case
    using "1.IH" [OF _ one [symmetric]] poll_one_max [OF one] one by (simp add: poll_loop.simps [of sys i s])
qed

lemma poll_max: "pollAndHandle sys r s = (res, s') \<Longrightarrow> max_pollables (el_group s') = max_pollables (el_group s)"
  by (auto simp: pollAndHandle_def Let_def poll_loop_max split: poll_result.splits if_splits)

lemma server_run_inv: "server_run B ustr snds os fs p \<Longrightarrow> server_inv fs p"
proof (induction rule: server_run.induct)
  case (start s)
  then show ?case
    using server_start_state [OF start] broker_run.init [of 16] by (auto simp: server_inv_def fs_keeps_def)
next
  case (arrive p as rv)
  then show ?case by (auto simp: server_inv_def loop_inv_def)
next
  case (poll p b r res s)
  have "broker_free 16 (el_broker (sp_loop p))"
    using poll.IH poll.hyps(2,3) by (auto simp: server_inv_def broker_free_def)
  then have "broker_free 16 (el_broker s)" using poll.hyps(4) by (rule broker_free_poll)
  then show ?case
    using poll.IH loop_inv_poll [OF _ poll.hyps(4)] poll_max [OF poll.hyps(4)]
    by (auto simp: server_inv_def broker_free_def)
next
  case (work p b i b')
  obtain qs where run: "broker_run 16 qs b" using work.IH work.hyps(2) by (auto simp: server_inv_def)
  have "fs_keeps fs (handled_fs B ustr snds i b p)"
  proof (cases "workers b ! i")
    case (W_Handling r)
    obtain fs' out x where "Server_handleRequest B ustr SERVER_BASE_PATH (loop_conns (sp_loop p)) snds (sp_fs p) r =
        (fs', out, x)" by (metis prod.collapse)
    then show ?thesis
      using W_Handling work.IH fs_keeps_touches [OF _ Server_touches] by (auto simp: handled_fs_def server_inv_def)
  qed (use work.IH in \<open>simp_all add: handled_fs_def server_inv_def\<close>)
  then show ?case
    using work.IH broker_run.work [OF run work.hyps(3)] by (auto simp: server_inv_def loop_inv_def)
qed

section \<open>Accepting connections\<close>

text \<open>
  With \<open>n\<close> free places in the group: the first \<open>n\<close> pending connections are added; one more makes
  \<open>PollGroup::add\<close> throw, and that connection is closed.
\<close>

lemma accept_loop_room:
  assumes "\<And>fd. snd (setup_socket_options sys fd) = Inr ()" and "\<forall>(fd, junk) \<in> set conns. 0 \<le> fd"
    and "length (pollables (el_group s)) + n = unat (max_pollables (el_group s))"
  shows "accept_loop sys (map (\<lambda>(fd, junk). Accepted fd junk) conns) s = (s', x) \<Longrightarrow>
    pollables (el_group s') = pollables (el_group s) @ [el_next s..<el_next s + min n (length conns)] \<and>
    el_accepts s' = map (\<lambda>(fd, junk). Accepted fd junk) (drop (Suc n) conns) \<and>
    el_closed s' = el_closed s @ map fst (take 1 (drop n conns)) \<and>
    x = (if length conns \<le> n then None else Some (Runtime_error ''Maximum pollable limit exceeded''))"
  using assms(2,3)
proof (induction conns arbitrary: s n)
  case Nil
  then show ?case by auto
next
  case (Cons a conns)
  obtain fd junk where a: "a = (fd, junk)" by fastforce
  let ?c = "\<lparr>conn_fd = fd, conn_msg_buf = [], conn_msg_len = junk\<rparr>"
  let ?objs = "(el_objs s)(el_next s \<mapsto> P_Conn ?c)"
  have acc: "Connection_accepted sys junk fd = (Inr ?c, [])"
    using assms(1) [of fd] by (auto simp: Connection_accepted_def split: prod.splits sum.splits)
  show ?case
  proof (cases n)
    case 0
    then have "PollGroup_add (fd_at ?objs) (el_next s) (el_group s) =
        Inl (Runtime_error ''Maximum pollable limit exceeded'')"
      using Cons.prems(3) by (simp add: PollGroup_add_def)
    then show ?thesis using Cons.prems(1,2) 0 a acc by (auto simp: Let_def Connection_destroy_def)
  next
    case (Suc m)
    then obtain g where g: "PollGroup_add (fd_at ?objs) (el_next s) (el_group s) = Inr g"
      "pollables g = pollables (el_group s) @ [el_next s]" "max_pollables g = max_pollables (el_group s)"
      using Cons.prems(3) by (auto simp: PollGroup_add_def Let_def)
    let ?s = "s\<lparr>el_objs := ?objs, el_next := Suc (el_next s), el_group := g\<rparr>"
    have "accept_loop sys (map (\<lambda>(fd, junk). Accepted fd junk) conns) ?s = (s', x)"
      using Cons.prems(1) a acc g(1) by (simp add: Let_def)
    moreover have "length (pollables (el_group ?s)) + m = unat (max_pollables (el_group ?s))"
      using Cons.prems(3) Suc g by simp
    moreover have "\<forall>(fd, junk) \<in> set conns. 0 \<le> fd" using Cons.prems(2) by simp
    moreover have "[el_next s..<el_next s + min n (length (a # conns))] =
        el_next s # [Suc (el_next s)..<Suc (el_next s) + min m (length conns)]"
      using Suc upt_conv_Cons [of "el_next s" "el_next s + Suc (min m (length conns))"] by (simp del: upt_Suc)
    ultimately show ?thesis using Cons.IH [of ?s m] Suc g(2) by simp
  qed
qed

section \<open>Rounds of the client\<close>

lemma client_start_state:
  assumes "client_start B os fs prm file = Inr p"
  shows "loop_inv (cp_loop p)" and "pollables (el_group (cp_loop p)) = [0, 1]"
    and "el_held (cp_loop p) = {0, 1}" and "\<not> signalled 0 (cp_loop p)"
    and "\<exists>c. el_objs (cp_loop p) 1 = Some (P_Conn c) \<and> conn_msg_buf c = [] \<and> 0 \<le> conn_fd c"
    and "el_broker (cp_loop p) = Some (broker_init 1)" and "el_recv (cp_loop p) 1 = co_recv os"
    and "\<exists>lf. cp_client p = \<lparr>cl_uuid = prm_uuid prm, client_files = [path_filename file \<mapsto> lf]\<rparr>"
    and "cp_errors p = []"
proof -
  obtain signals conn lf where sg: "SignalHandler_new (co_mask os) (co_sfd os) = Inr signals"
    and c: "fst (Connection_host (co_sys os) (co_sock os) (co_cnct os) (co_junk os)
      (fst (co_gai os (prm_host prm) (prm_port prm))) (snd (co_gai os (prm_host prm) (prm_port prm)))) = Inr conn"
    and lf: "makeLocalFile B [] fs file = Inr lf"
    using assms by (auto simp: client_start_def Let_def rbind_Inr_iff case_prod_unfold)
  have conn: "conn_msg_buf conn = [] \<and> 0 \<le> conn_fd conn"
    using c by (auto simp: Connection_host_def Let_def split: if_splits prod.splits sum.splits)
  have path: "f_path lf = file" using lf by (auto simp: makeLocalFile_def Let_def split: if_splits)
  have flag: "\<not> receivedTermSignal signals"
    using sg by (auto simp: SignalHandler_new_def receivedTermSignal_def split: if_splits)
  have "loop_inv (cp_loop p) \<and> pollables (el_group (cp_loop p)) = [0, 1] \<and> el_held (cp_loop p) = {0, 1} \<and>
      \<not> signalled 0 (cp_loop p) \<and> el_objs (cp_loop p) 1 = Some (P_Conn conn) \<and>
      el_broker (cp_loop p) = Some (broker_init 1) \<and> el_recv (cp_loop p) 1 = co_recv os \<and>
      cp_client p = \<lparr>cl_uuid = prm_uuid prm, client_files = [path_filename file \<mapsto> lf]\<rparr> \<and> cp_errors p = []"
    using assms sg c lf flag path
    by (auto simp: client_start_def Let_def rbind_Inr_iff PollGroup_add_def PollGroup_new_def loop_inv_def
        group_inv_def signalled_def Client_offer_def map_insert_def case_prod_unfold
        split: sum.splits option.splits)
  then show "loop_inv (cp_loop p)" "pollables (el_group (cp_loop p)) = [0, 1]"
    "el_held (cp_loop p) = {0, 1}" "\<not> signalled 0 (cp_loop p)"
    "\<exists>c. el_objs (cp_loop p) 1 = Some (P_Conn c) \<and> conn_msg_buf c = [] \<and> 0 \<le> conn_fd c"
    "el_broker (cp_loop p) = Some (broker_init 1)" "el_recv (cp_loop p) 1 = co_recv os"
    "\<exists>lf. cp_client p = \<lparr>cl_uuid = prm_uuid prm, client_files = [path_filename file \<mapsto> lf]\<rparr>"
    "cp_errors p = []"
    using conn by auto
qed

text \<open>A round in which only the connection has something to read.\<close>

definition only_conn :: poll_result where
  "only_conn = Polled (\<lambda>i. if i = 1 then POLLIN else 0)"

lemma poll_only_conn:
  assumes inv: "loop_inv s" and ps: "pollables (el_group s) = [0, 1]" and c: "el_objs s 1 = Some (P_Conn c)"
    and ev: "handleEvent 1 (el_recv s 1) \<lparr>rx_conn = c, rx_broker = el_broker s\<rparr> (el_errno s) = (rest, r, err, x)"
  defines "t \<equiv> s\<lparr>el_group := set_revents (\<lambda>i. if i = 1 then POLLIN else 0) (el_group s),
      el_objs := (el_objs s)(1 \<mapsto> P_Conn (rx_conn r)), el_broker := rx_broker r, el_errno := err,
      el_recv := (el_recv s)(1 := rest)\<rparr>"
  shows "pollAndHandle sys only_conn s = (Inr True, if conn_fd (rx_conn r) = - 1 then drop_pollable 1 t else t)"
proof -
  let ?revs = "\<lambda>i. if i = 1 then POLLIN else (0 :: u16)"
  let ?s = "s\<lparr>el_group := set_revents ?revs (el_group s)\<rparr>"
  have len: "length (cached_pollfd (el_group s)) = 2" using inv ps by (simp add: loop_inv_def group_inv_def)
  have rev: "pfd_revents (cached_pollfd (set_revents ?revs (el_group s)) ! i) = ?revs i" if "i < 2" for i
    using that len by (simp add: set_revents_nth)
  have t: "fst (dispatch sys 1 ?s) = t" using c ev by (simp add: dispatch_def t_def)
  have one: "poll_one sys 1 ?s = (if conn_fd (rx_conn r) = - 1 then (1, drop_pollable 1 t) else (2, t))"
    using rev [of 1] ps t by (simp add: poll_one_def Let_def t_def fd_at_def)
  have "poll_loop sys 0 ?s = poll_loop sys 1 ?s" using ps rev by (intro quiet_prefix) simp_all
  also have "\<dots> = (if conn_fd (rx_conn r) = - 1 then drop_pollable 1 t else t)"
  proof -
    have "poll_loop sys 1 ?s = (case poll_one sys 1 ?s of (j, s') \<Rightarrow> poll_loop sys j s')"
      by (subst poll_loop.simps) (simp add: ps)
    moreover have "poll_loop sys 1 (drop_pollable 1 t) = drop_pollable 1 t"
      by (subst poll_loop.simps) (simp add: drop_pollable_group PollGroup_remove_def Let_def t_def ps)
    moreover have "poll_loop sys 2 t = t" by (subst poll_loop.simps) (simp add: t_def ps)
    ultimately show ?thesis using one by simp
  qed
  finally show ?thesis using len by (auto simp: only_conn_def pollAndHandle_def Let_def intro!: exI [of _ 1])
qed

lemma client_work_idle:
  assumes "el_broker (cp_loop p) = Some b" and "sm_req_list b = []"
  shows "client_work B fs snds k p = p"
proof -
  have b: "b\<lparr>sm_req_list := [], taken := taken b\<rparr> = b" using assms(2) by (cases b) simp
  have "(cp_loop p)\<lparr>el_broker := Some b\<rparr> = cp_loop p" using assms(1) by (cases "cp_loop p") simp
  then show ?thesis using assms b by (cases p) (simp add: client_work_def)
qed

text \<open>The client has a file on offer, its worker has nothing to do, and no signal came.\<close>

definition pending :: "client_proc \<Rightarrow> bool" where
  "pending p \<longleftrightarrow>
     \<not> uploadsCompleted (cp_client p) \<and> \<not> signalled 0 (cp_loop p) \<and> loop_inv (cp_loop p) \<and>
     (\<exists>b. el_broker (cp_loop p) = Some b \<and> sm_req_list b = [])"

lemma client_run_pending:
  assumes "pending p" and "pollAndHandle sys r (cp_loop p) = (Inr True, s)" and "\<not> signalled 0 s"
  shows "client_run B fs sys snds ((k, r) # rs) p = client_run B fs sys snds rs (p\<lparr>cp_loop := s\<rparr>)"
  using assms client_work_idle [of p _ B fs snds k] by (auto simp: pending_def)

text \<open>Rounds in which \<open>poll\<close> reports nothing for the pollables of the group.\<close>

lemma poll_quiet:
  assumes "\<And>i. i < length (pollables (el_group s)) \<Longrightarrow> revs i = 0" and "loop_inv s"
  shows "pollAndHandle sys (Polled revs) s = (Inr True, s\<lparr>el_group := set_revents revs (el_group s)\<rparr>)"
proof -
  have "length (cached_pollfd (el_group s)) = length (pollables (el_group s))"
    using assms(2) by (simp add: loop_inv_def group_inv_def)
  then show ?thesis using assms(1) by (auto simp: pollAndHandle_def Let_def)
qed

lemma quiet_rounds:
  assumes "pending p" and "pollables (el_group (cp_loop p)) = ps"
    and "list_all (\<lambda>(k, r). \<exists>revs. r = Polled revs \<and> (\<forall>i < length ps. revs i = 0)) rounds"
  shows "\<exists>g. client_run B fs sys snds (rounds @ rest) p =
      client_run B fs sys snds rest (p\<lparr>cp_loop := (cp_loop p)\<lparr>el_group := g\<rparr>\<rparr>) \<and>
    pending (p\<lparr>cp_loop := (cp_loop p)\<lparr>el_group := g\<rparr>\<rparr>) \<and> pollables g = ps"
  using assms
proof (induction rounds arbitrary: p)
  case Nil
  then show ?case by (intro exI [of _ "el_group (cp_loop p)"]) simp
next
  case (Cons x rounds)
  obtain k revs where x: "x = (k, Polled revs)" "\<And>i. i < length ps \<Longrightarrow> revs i = 0"
    using Cons.prems(3) by auto
  let ?g = "set_revents revs (el_group (cp_loop p))"
  let ?p = "p\<lparr>cp_loop := (cp_loop p)\<lparr>el_group := ?g\<rparr>\<rparr>"
  have "loop_inv (cp_loop ?p)" using Cons.prems(1) by (auto simp: pending_def loop_inv_def group_inv_def)
  then have pend: "pending ?p" using Cons.prems(1) by (simp add: pending_def signalled_def)
  have poll: "pollAndHandle sys (Polled revs) (cp_loop p) = (Inr True, cp_loop ?p)"
    using poll_quiet [of "cp_loop p" revs sys] x(2) Cons.prems(1,2) by (simp add: pending_def)
  have "client_run B fs sys snds ((x # rounds) @ rest) p = client_run B fs sys snds (rounds @ rest) ?p"
    using client_run_pending [OF Cons.prems(1) poll] pend x(1) by (simp add: pending_def)
  then show ?case
    using Cons.IH [OF pend] Cons.prems(2,3) by simp
qed

lemma start_pending:
  assumes "client_start B os fs prm file = Inr p"
  shows "pending p"
proof -
  note st = client_start_state [OF assms]
  have "sm_req_list (broker_init 1) = []" by (simp add: broker_init_def startWorkers_def)
  then show ?thesis using st(1,4,6,8) by (auto simp: pending_def uploadsCompleted_def)
qed

lemma signalled_other: "x \<noteq> 0 \<Longrightarrow> signalled 0 (s\<lparr>el_objs := (el_objs s)(x := y)\<rparr>) = signalled 0 s"
  by (simp add: signalled_def)

text \<open>The worker handles a completion message for the only file on offer.\<close>

lemma client_work_complete:
  assumes "el_broker (cp_loop p) = Some b" and "sm_req_list b = [arrived 1 m buf]"
    and "msg_type m = MSGTYPE_FILE_COMPLETE" and "length (file_name m) \<le> UINT8_MAX"
    and "cp_client p = \<lparr>cl_uuid = client_uuid m, client_files = [file_name m \<mapsto> lf]\<rparr>"
  shows "uploadsCompleted (cp_client (client_work B fs snds (Suc k) p))"
    and "cp_errors (client_work B fs snds (Suc k) p) = cp_errors p"
proof -
  have "Client_handleRequest B fs (loop_conns (cp_loop p)) snds (cp_client p) (arrived 1 m buf) =
      (\<lparr>cl_uuid = client_uuid m, client_files = Map.empty\<rparr>, [], None)"
    using assms(3-5)
    by (simp add: Client_handleRequest_def getMessage_def arrived_def wire_view_def typed_fields_def Let_def
        MSGTYPE_FILE_COMPLETE_def MSGTYPE_FILE_CHUNK_REQ_def MSGTYPE_FILE_CHUNK_DATA_def MSGTYPE_FILE_OFFER_def
        MAGIC_def)
  then show "uploadsCompleted (cp_client (client_work B fs snds (Suc k) p))"
    "cp_errors (client_work B fs snds (Suc k) p) = cp_errors p"
    using assms(1,2) by (simp_all add: client_work_def uploadsCompleted_def)
qed

lemma client_run_complete:
  assumes "uploadsCompleted (cp_client (client_work B fs snds k p))"
  shows "client_run B fs sys snds ((k, r) # rs) p = (client_work B fs snds k p, None, True)"
  using assms by (simp add: Let_def)

section \<open>Properties of the processes\<close>


text \<open>An operating system that grants everything, and the file \<open>/f\<close> of \<open>cli_fs\<close> on offer.\<close>

definition easy_os :: "recv_result list \<Rightarrow> unit client_os" where
  "easy_os rs = \<lparr>co_mask = (0, ENONE), co_sfd = (4, ENONE), co_gai = (\<lambda>_ _. (0, [()])), co_sock = (\<lambda>_. 5),
     co_cnct = (\<lambda>_ _. 0), co_sys = (\<lambda>_ _. (0, ENONE)), co_sends = (\<lambda>_ buf. Sent (length buf)),
     co_recv = rs, co_errno = ENONE, co_junk = 0\<rparr>"

definition easy_prm :: client_params where
  "easy_prm = \<lparr>prm_host = ascii ''localhost'', prm_port = 4444, prm_uuid = replicate 16 1\<rparr>"

definition easy_args :: "bytes list" where
  "easy_args = concat (map render [Uuid (replicate 16 1)]) @ [ascii ''/f'']"

definition easy_proc :: "recv_result list \<Rightarrow> client_proc" where
  "easy_proc rs = projr (client_start b2_concat (easy_os rs) cli_fs easy_prm (ascii ''/f''))"

lemma easy_parsed:
  "client_args id id Inr [9] cli_fs (ascii ''/ft_client'') easy_args = (Inr (easy_prm, ascii ''/f''), cli_fs)"
proof -
  have "ascii ''/f'' \<noteq> []" "hd (ascii ''/f'') \<noteq> dash" by (simp_all add: ascii_def dash_def)
  then show ?thesis
    using cli_uuid cli_exists(1)
    by (simp add: easy_args_def client_args_def client_opts_render client_opts_operand DEFAULT_PORT_def easy_prm_def
        del: render.simps)
qed

lemma easy_started:
  "client_start b2_concat (easy_os rs) cli_fs easy_prm (ascii ''/f'') = Inr (easy_proc rs)"
proof -
  have f: "canon (ascii ''/f'') = [ascii ''f'']" "ascii ''/f'' \<noteq> []" by (simp_all add: canon_def ascii_def)
  obtain lf where lf: "makeLocalFile b2_concat [] cli_fs (ascii ''/f'') = Inr lf"
    "length (f_hash lf) = HASH_SIZE"
    using f calc_hash_file_eq [OF b2_concat_laws f(2), of cli_fs] calc_hash_buf_length [OF b2_concat_laws]
    by (simp add: makeLocalFile_def Let_def path_append_def is_regular_file_def fs_exists_def file_data_def
        node_at_def cli_fs_def HASH_SIZE_def)
  obtain buf where "serialize (buildMsgOffer 1 (prm_uuid easy_prm) lf) [] = Inr buf"
    using serialize_offer [OF lf(2)] by blast
  then have "\<exists>p. client_start b2_concat (easy_os rs) cli_fs easy_prm (ascii ''/f'') = Inr p"
    using lf(1)
    by (simp add: client_start_def Let_def easy_os_def SignalHandler_new_def Connection_host_def
        setup_socket_options_def PollGroup_add_def PollGroup_new_def Client_offer_def sendBuffer_def)
  then show ?thesis by (auto simp: easy_proc_def)
qed

definition easy_complete :: message where
  "easy_complete = message_init\<lparr>msg_type := MSGTYPE_FILE_COMPLETE, client_uuid := replicate 16 1,
     file_name := ascii ''f''\<rparr>"

definition easy_frame :: bytes where
  "easy_frame = projr (serialize easy_complete [])"

lemma easy_serialized: "serialize easy_complete [] = Inr easy_frame"
proof -
  have "\<exists>buf. serialize easy_complete [] = Inr buf"
    by (simp add: serialize_def payload_eq body_fields_def easy_complete_def)
  then show ?thesis by (auto simp: easy_frame_def)
qed




text \<open>
  C18.  In every state the server can reach, from its start through any arrivals, rounds of the event
  loop and steps of its workers: the sixteen workers exclude each other, none sleeps while a
  request is queued, the group is well-formed and within its 1026 places, and no file that was
  there at the start has been removed or replaced by a directory.
\<close>

theorem server_run_safe:
  assumes "server_run B ustr snds os fs p"
  shows "\<exists>b. el_broker (sp_loop p) = Some b \<and> length (workers b) = 16 \<and>
    (\<forall>i. sm_mutex b = Some i \<longleftrightarrow> i < 16 \<and> workers b ! i = W_Critical) \<and>
    \<not> (W_Waiting \<in> set (workers b) \<and> sm_req_list b \<noteq> []) \<and>
    distinct (pollables (el_group (sp_loop p))) \<and> length (pollables (el_group (sp_loop p))) \<le> 1026 \<and>
    length (cached_pollfd (el_group (sp_loop p))) = length (pollables (el_group (sp_loop p))) \<and>
    set (pollables (el_group (sp_loop p))) \<subseteq> dom (el_objs (sp_loop p)) \<and> fs_keeps fs (sp_fs p)"
proof -
  have inv: "server_inv fs p" using assms by (rule server_run_inv)
  then obtain b qs where b: "el_broker (sp_loop p) = Some b" "broker_run 16 qs b" by (auto simp: server_inv_def)
  have n: "length (workers b) = 16" using broker_run_count [OF b(2)] by simp
  have "broker_inv b" using b(2) by (rule broker_run_inv)
  then have "\<forall>i. sm_mutex b = Some i \<longleftrightarrow> i < 16 \<and> workers b ! i = W_Critical"
    "\<not> (W_Waiting \<in> set (workers b) \<and> sm_req_list b \<noteq> [])" unfolding broker_inv_def n by blast+
  moreover have "distinct (pollables (el_group (sp_loop p))) \<and> length (pollables (el_group (sp_loop p))) \<le> 1026 \<and>
      length (cached_pollfd (el_group (sp_loop p))) = length (pollables (el_group (sp_loop p))) \<and>
      set (pollables (el_group (sp_loop p))) \<subseteq> dom (el_objs (sp_loop p)) \<and> fs_keeps fs (sp_fs p)"
    using inv by (auto simp: server_inv_def loop_inv_def group_inv_def)
  ultimately show ?thesis using b(1) n by blast
qed

definition easy_server_os :: server_os where
  "easy_server_os = \<lparr>so_mask = (0, ENONE), so_sfd = (4, ENONE), so_socket = (3, ENONE), so_listen = (\<lambda>_. (0, ENONE)),
     so_sys = (\<lambda>_ _. (0, ENONE)), so_errno = ENONE\<rparr>"

definition easy_server :: evloop where
  "easy_server = projr (server_start easy_server_os)"

lemma easy_server_started: "server_start easy_server_os = Inr easy_server"
proof -
  have "\<exists>s. server_start easy_server_os = Inr s"
    by (simp add: server_start_def Let_def easy_server_os_def SignalHandler_new_def ConnectionListener_new_def
        setup_socket_options_def PollGroup_add_def PollGroup_new_def MAX_CONNECTIONS_def)
  then show ?thesis by (auto simp: easy_server_def)
qed

theorem server_run_safe_witness:
  "\<exists>b. el_broker (sp_loop \<lparr>sp_loop = easy_server, sp_fs = cli_fs\<rparr>) = Some b \<and> length (workers b) = 16 \<and>
    (\<forall>i. sm_mutex b = Some i \<longleftrightarrow> i < 16 \<and> workers b ! i = W_Critical) \<and>
    \<not> (W_Waiting \<in> set (workers b) \<and> sm_req_list b \<noteq> []) \<and>
    distinct (pollables (el_group (sp_loop \<lparr>sp_loop = easy_server, sp_fs = cli_fs\<rparr>))) \<and>
    length (pollables (el_group (sp_loop \<lparr>sp_loop = easy_server, sp_fs = cli_fs\<rparr>))) \<le> 1026 \<and>
    length (cached_pollfd (el_group (sp_loop \<lparr>sp_loop = easy_server, sp_fs = cli_fs\<rparr>))) =
      length (pollables (el_group (sp_loop \<lparr>sp_loop = easy_server, sp_fs = cli_fs\<rparr>))) \<and>
    set (pollables (el_group (sp_loop \<lparr>sp_loop = easy_server, sp_fs = cli_fs\<rparr>))) \<subseteq>
      dom (el_objs (sp_loop \<lparr>sp_loop = easy_server, sp_fs = cli_fs\<rparr>)) \<and>
    fs_keeps cli_fs (sp_fs \<lparr>sp_loop = easy_server, sp_fs = cli_fs\<rparr>)"
  by (rule server_run_safe [of b2_concat id "\<lambda>_ _. Sent 0" easy_server_os cli_fs,
        OF server_run.start [OF easy_server_started]])

text \<open>
  C29.  A server that has just started takes 1024 connections and no more: of the connections that
  are waiting when the listener is called the first 1024 join the group, in order; one more makes
  the listener throw, that connection is closed, and the others stay in the queue of the
  operating system.
\<close>

theorem server_accepts_up_to_limit:
  assumes "server_start os = Inr s" and "\<And>fd. snd (setup_socket_options sys fd) = Inr ()"
    and "\<forall>(fd, junk) \<in> set conns. 0 \<le> fd"
    and "accept_loop sys (map (\<lambda>(fd, junk). Accepted fd junk) conns) s = (s', x)"
  shows "pollables (el_group s') = [0, 1] @ [2..<2 + min 1024 (length conns)] \<and>
    el_accepts s' = map (\<lambda>(fd, junk). Accepted fd junk) (drop 1025 conns) \<and>
    el_closed s' = map fst (take 1 (drop 1024 conns)) \<and>
    x = (if length conns \<le> 1024 then None else Some (Runtime_error ''Maximum pollable limit exceeded''))"
proof -
  note st = server_start_state [OF assms(1)]
  have nx: "el_next s = 2" "el_closed s = []"
    using assms(1) by (auto simp: server_start_def Let_def rbind_Inr_iff)
  have "length (pollables (el_group s)) + 1024 = unat (max_pollables (el_group s))" by (simp add: st(3,4))
  from accept_loop_room [OF assms(2,3) this assms(4)] show ?thesis by (simp only: st(3) nx) simp
qed

theorem server_accepts_up_to_limit_witness:
  "let (s', x) = accept_loop (\<lambda>_ _. (0, ENONE)) (map (\<lambda>(fd, junk). Accepted fd junk) [(5, 0), (6, 0)]) easy_server in
    pollables (el_group s') = [0, 1] @ [2..<2 + min 1024 (length [(5 :: int, 0 :: size_t), (6, 0)])] \<and>
    el_accepts s' = map (\<lambda>(fd, junk). Accepted fd junk) (drop 1025 [(5, 0), (6, 0)]) \<and>
    el_closed s' = map fst (take 1 (drop 1024 [(5 :: int, 0 :: size_t), (6, 0)])) \<and>
    x = (if length [(5 :: int, 0 :: size_t), (6, 0)] \<le> 1024 then None
      else Some (Runtime_error ''Maximum pollable limit exceeded''))"
proof -
  obtain s' x where run: "accept_loop (\<lambda>_ _. (0, ENONE)) (map (\<lambda>(fd, junk). Accepted fd junk) [(5, 0), (6, 0)])
      easy_server = (s', x)" by fastforce
  have ok: "snd (setup_socket_options (\<lambda>_ _. (0, ENONE)) fd) = Inr ()" for fd
    by (simp add: setup_socket_options_def)
  have fds: "\<forall>(fd, junk) \<in> set [(5 :: int, 0 :: size_t), (6, 0)]. 0 \<le> fd" by simp
  show ?thesis
    using server_accepts_up_to_limit [OF easy_server_started ok fds run] unfolding run by simp
qed

end
