(* ===== verification/Spec2Isabelle.thy ===== *)
theory Spec2Isabelle
  imports FT_Crash FT_Create FT_Stop FT_Main
begin

text \<open>
  A verification development of \<open>file_transfer\<close>, a client and a server that copy files over TCP
  in chunks of 3968 bytes and can resume an interrupted upload.

  \<^bold>\<open>The program.\<close>  Both processes run the same machinery.  An event loop (\<open>src/loop\<close>) polls the
  descriptors of a listener, of connections and of a signal handler.  A connection (\<open>src/netwrk\<close>)
  cuts the incoming bytes into frames, parses each frame into a message (\<open>src/protocol\<close>) and
  queues it as a request with the broker (\<open>src/request\<close>), whose worker threads call the request
  handler.  The server's handler (\<open>src/ft_server.cpp\<close>) stores offered files and their chunks below
  \<open>/in/<client>/\<close>, with a metadata file per data file that holds size, chunk size, hash and one bit
  per received chunk (\<open>src/file\<close>), and answers with a request for the first missing chunk or with
  a completion message; the client's handler (\<open>src/ft_client.cpp\<close>) answers chunk requests and
  drops completed files.

  \<^bold>\<open>The theories.\<close>  \<open>FT_Prelude\<close>: machine types, exceptions, lists and words.  \<open>FT_Fs\<close>: paths, file
  system and file streams of the C++ library.  \<open>FT_Utils\<close>: \<open>ft_utils.cpp\<close>.  \<open>FT_Msg\<close>: \<open>ft_msg.hpp\<close>
  and \<open>ft_msg.cpp\<close>.  \<open>FT_File_Meta\<close>: \<open>ft_file_meta.hpp\<close> and \<open>.cpp\<close>.  \<open>FT_File\<close>: \<open>ft_file.hpp\<close> and \<open>.cpp\<close>.
  \<open>FT_Msg_Fctry\<close>: \<open>ft_msg_fctry.hpp\<close> and \<open>.cpp\<close>.  \<open>FT_Req_Brkr\<close>: \<open>ft_req.hpp\<close>, \<open>ft_req_brkr.hpp\<close> and \<open>.cpp\<close>.
  \<open>FT_Stop\<close>: the thread that stops the broker, \<open>stopWorkers\<close> and the destructor, beside its workers.
  \<open>FT_Conn\<close>: \<open>ft_conn.hpp\<close>, \<open>ft_conn.cpp\<close>, \<open>ft_conn_utils.cpp\<close>.  \<open>FT_Poll_Grp\<close> and \<open>FT_Loop\<close>: \<open>ft_poll_grp\<close>,
  \<open>ft_pollable\<close>, \<open>ft_signal\<close>, \<open>ft_conn_listener\<close> and the loop of the server's main function.
  \<open>FT_Req_Hndlr\<close>: \<open>ft_req_hndlr.hpp\<close> and the common end of both handlers.  \<open>FT_Server\<close> and
  \<open>FT_Client\<close>: the two handlers.  \<open>FT_Args\<close>: the command line of the client (first half of \<open>main\<close> in
  \<open>ft_client.cpp\<close>).  \<open>FT_Main\<close>: start-up, wiring and main loops of both programs, and the server as a
  process with its threads.  \<open>FT_Race\<close>: \<open>saveChunk\<close> and \<open>markChunk\<close> cut into their actions on the two
  files, for workers that save chunks of one file at once.  \<open>FT_Create\<close>: the constructor of
  \<open>FileRemote\<close> cut into its actions, for workers that open one file at once.  \<open>FT_Isolation\<close>: which requests cannot
  reach a file.  \<open>FT_Session\<close>: a client and a server joined by their byte streams.  \<open>FT_Multi\<close>: an upload
  while the server handles other requests.  \<open>FT_Net\<close>: a client and a server with the bytes on their
  way in each direction, under any schedule of reads and workers.  \<open>FT_Crash\<close>: what is on the disk when
  the server is killed in \<open>saveChunk\<close> or while it creates a file, and what a later upload makes of it.
  This theory holds the properties of whole uploads.

  \<^bold>\<open>How the code is modelled.\<close>  A class is a record or datatype and a method a function on it;
  what a method changes (the file system, the store of pollables, the broker) is passed in and
  returned.  Integers have their C++ width, so narrowing and wrap-around are in the definitions.
  An exception is a value of \<open>ft_exn\<close>; its constructor \<open>Undefined\<close> stands for undefined behaviour
  such as a read past the end of a buffer.  Answers of the operating system (\<open>recv\<close>, \<open>send\<close>,
  \<open>accept\<close>, \<open>poll\<close>, socket calls) are arguments or lists in the state.  BLAKE2b (Crypto++) and the
  UUID functions (Boost) are parameters; \<open>blake2b_laws\<close> states what is used of BLAKE2b.  The
  broker is a step relation with one rule per atomic action of a thread.  In the sessions and in
  \<open>FT_Main\<close> a request handler runs as one step; \<open>FT_Race\<close> and \<open>FT_Create\<close> have the interleavings of
  several workers inside \<open>saveChunk\<close> and the constructor of \<open>FileRemote\<close>, the two places where they
  write to shared files.  In \<open>FT_Net\<close> an event is a read of
  any number of bytes, or a worker that takes the first request and handles it; in \<open>FT_Crash\<close> bytes
  reach the disk in the order in which they are written, and a killed process has written any
  number of them.

  \<^bold>\<open>Interfaces.\<close>  \<open>wire_codec\<close>: the pairs of byte-order helpers, interpreted for 32, 16 and 8 bits.
  \<open>chunk_tracker\<close>: marking and searching chunks, interpreted on the metadata files.
  \<open>request_sink\<close>: queueing requests, interpreted on the broker.  \<open>guarded_handler\<close>: an invariant
  that the admitted requests keep, interpreted on the server for a file and the requests that do
  not touch it; \<open>request_handler\<close>, a sublocale of it: an invariant every request keeps, interpreted
  on both handlers.  \<open>ranked_simulation\<close>: a run that follows an abstract one, with a rank that
  bounds the steps that count, interpreted on the upload of \<open>FT_Net\<close> and the abstract \<open>transfer\<close>.

  \<^bold>\<open>What is shown.\<close>  Messages: parsing inverts serializing and conversely, the length of frames,
  exactly which buffers are read out of bounds.  Connections: any fragmentation of a stream of
  messages delivers exactly those messages; arbitrary bytes keep the buffer bounded; descriptors
  of the constructors.  Metadata and files: the bitmap operations, the header, saving chunks as a
  refinement of an abstract file, chunks in any order, the block-wise hash.  Broker: mutual
  exclusion, order and conservation of requests, no lost wake-up, and \<open>stopWorkers\<close>
  returns after at most five steps per worker and one more.  Loop: its invariant and the end on a signal.  Handlers: what each request does,
  what it cannot touch.  Parallel workers: whatever the schedule of opening and saving on a
  file that exists, a marked chunk has its bytes, and marks in different bytes of the bitmap are
  all kept.  Programs: the command line is read as
  written, every reachable state of the server process is well-formed, the server takes 1024
  connections, and the client ends when its file is complete.  Whole uploads: a new or interrupted
  upload of at most 65536 chunks ends with the server holding the client's bytes after one exchange
  per missing chunk, also while the server works for others.  On any schedule it throws nothing,
  follows an abstract transfer in which the received chunks grow one by one, and comes to its end
  after at most 8510 events that do something per round trip: two messages of at most 4254 bytes,
  read at least one byte at a time and handled.  Killed servers: whatever the workers were
  doing to the chunks of a file, a later upload goes on from the marks there were; so it does
  when the server was killed while creating the file, unless the metadata file was cut off.
  Loops over streams, options and
  pollables are total functions with a measure; no fuel is used, except that the main loops run
  on a finite list of \<open>poll\<close> results; that the client never ends without its server is stated for
  all such lists.

  \<^bold>\<open>Where the code falls short.\<close>  Chunk indices are cut to 16 bits, so a larger file never
  completes; a changed file of the same length stalls on old metadata; an absolute file name
  leaves the upload directory; frames shorter than their contents are read out of bounds; a
  closed peer's descriptor is not closed; a hang-up drops all pollables behind it; the client
  never ends when the server goes away first; two workers can lose a mark of the bitmap, and two
  that create a file at once can destroy a chunk that was saved in between; a file
  can be uploaded over another one's metadata; a metadata file that was cut off stops every later
  upload of its file; a short \<open>send\<close> loses the rest of the message; the
  length of the first frame is read before it is set.

  \<^bold>\<open>Not modelled.\<close>  Progress lines on the console, symbolic links, permissions and full disks, data
  races below the level of file accesses (the unlocked map of the client, the unlocked flag of the
  broker), and the destruction of static objects after \<open>main\<close>.  Of a killed server: a bitmap of which
  only a part was written, and writes that reach the disk in another order.  Of workers that
  create a file at once: two that write its metadata file together.  The schedules of \<open>FT_Net\<close> have one client with one
  file, as \<open>main\<close> offers it, and one worker at a time on that file, which is what one message on
  the way at a time gives; other clients are requests about other files.  The lines of the source
  that no definition translates are comments, includes and declarations of what is defined
  elsewhere.
\<close>

section \<open>Uploads from end to end\<close>

text \<open>
  C1.  Uploading a file the server does not have: the client opens the file and offers it; after
  one exchange for the offer and one per chunk, through serializing, framing, parsing, the
  brokers' queues and both handlers, the server's data file holds exactly the bytes of the
  client's file, the client has no upload left, and nothing was thrown.  The file may have up
  to 65536 chunks, and its name must be a plain file name of at most 255 bytes.
\<close>

theorem upload_completes:
  assumes "blake2b_laws B"
    and "makeLocalFile B [] (w_client_fs w) p = Inr lf"
    and "file_data (w_client_fs w) (canon p) = Some src"
    and "chunk_count (length src) \<le> 2 ^ 16"
    and "plain_world w (cl_uuid cl) (path_filename p)"
    and "client_files cl = Map.empty"
    and "Client_offer (w_client_conns w) (w_client_sends w) cl 0 lf = (cl', out, x)"
    and "rx_idle crx" and "rx_idle srx"
    and "create_directories fs (w_prefix w @ slash # w_uuid_str w (cl_uuid cl)) = (Inr u, fs1)"
    and "node_at fs1 (canon (w_prefix w) @ [w_uuid_str w (cl_uuid cl), path_filename p]) = None"
    and "node_at fs1 (canon (w_prefix w) @ [w_uuid_str w (cl_uuid cl), meta_name (path_filename p)]) = None"
  shows "let ss = (exchange B w ^^ Suc (chunk_count (length src))) (start_session cl' crx fs srx out)
    in file_data (ss_server_fs ss) (canon (w_prefix w) @ [w_uuid_str w (cl_uuid cl), path_filename p]) = Some src \<and>
       uploadsCompleted (ss_client ss) \<and> ss_errors ss = []"
proof -
  let ?name = "path_filename p" and ?uuid = "cl_uuid cl" and ?s0 = "start_session cl' crx fs srx out"
  note lf = local_file_ready [OF assms(1-5)]
  have none: "client_files cl ?name = None" using assms(6) by simp
  note start = offer_starts(1,2) [OF lf(1) refl none assms(7-9), of fs]
  note files = offer_starts(3) [OF lf(1) refl none assms(7-9)]
  obtain f fs' where f: "answered B w ?uuid f fs' ?s0" "server_file B w src ?uuid ?name f fs'"
    "missing src f fs' = {..<chunk_count (length src)}"
    using offer_fresh [OF lf(1) assms(1) start(2) lf(2) _ assms(11,12)] assms(10)
    by (auto simp: start_session_def)
  have key: "canon (path_append (w_prefix w) (path_append (w_uuid_str w ?uuid) ?name)) =
      canon (w_prefix w) @ [w_uuid_str w ?uuid, ?name]"
    using server_path(4) [OF upload_ok_parts(3-6) [OF lf(1)]] .
  show ?thesis
    using offer_run [OF lf(1) assms(1) start(1) f(1,2)] f(3) files assms(6) key
    by (simp add: Let_def uploaded_def uploadsCompleted_def start_session_def del: funpow.simps)
qed

theorem upload_completes_witness:
  "let ss = (exchange b2_concat sample_world ^^ Suc (chunk_count (length [7 :: byte, 8, 9])))
      (start_session (fst (Client_offer sample_conns sample_sends sample_new_client 0 sample_upload))
        sample_rx Map.empty sample_rx
        (fst (snd (Client_offer sample_conns sample_sends sample_new_client 0 sample_upload))))
   in file_data (ss_server_fs ss) (canon (w_prefix sample_world) @
        [w_uuid_str sample_world (cl_uuid sample_new_client), path_filename (ascii ''/f'')]) = Some [7, 8, 9] \<and>
      uploadsCompleted (ss_client ss) \<and> ss_errors ss = []"
proof (rule upload_completes [OF b2_concat_laws sample_made sample_src])
  show "plain_world sample_world (cl_uuid sample_new_client) (path_filename (ascii ''/f''))"
    using sample_plain by (simp add: sample_new_client_def)
  show "Client_offer (w_client_conns sample_world) (w_client_sends sample_world) sample_new_client 0 sample_upload =
      (fst (Client_offer sample_conns sample_sends sample_new_client 0 sample_upload),
       fst (snd (Client_offer sample_conns sample_sends sample_new_client 0 sample_upload)),
       snd (snd (Client_offer sample_conns sample_sends sample_new_client 0 sample_upload)))"
    by (simp add: sample_world_def)
  show "node_at [[ascii ''in''] \<mapsto> Dir, [ascii ''in'', ascii ''d''] \<mapsto> Dir]
      (canon (w_prefix sample_world) @ [w_uuid_str sample_world (cl_uuid sample_new_client),
        path_filename (ascii ''/f'')]) = None"
    by (simp add: node_at_def sample_prefix)
  show "node_at [[ascii ''in''] \<mapsto> Dir, [ascii ''in'', ascii ''d''] \<mapsto> Dir]
      (canon (w_prefix sample_world) @ [w_uuid_str sample_world (cl_uuid sample_new_client),
        meta_name (path_filename (ascii ''/f''))]) = None"
    by (simp add: node_at_def sample_prefix)
qed (simp_all add: chunk_count_def sample_new_client_def sample_rx_idle sample_server_dirs)

text \<open>
  Resuming an interrupted upload: when the server has some of the file's chunks, the offer
  and one exchange per chunk that is still missing complete it; the chunks that were there are
  not transferred again.
\<close>

theorem upload_resumes:
  assumes "blake2b_laws B"
    and "makeLocalFile B [] (w_client_fs w) p = Inr lf"
    and "file_data (w_client_fs w) (canon p) = Some src"
    and "chunk_count (length src) \<le> 2 ^ 16"
    and "plain_world w (cl_uuid cl) (path_filename p)"
    and "client_files cl = Map.empty"
    and "Client_offer (w_client_conns w) (w_client_sends w) cl 0 lf = (cl', out, x)"
    and "rx_idle crx" and "rx_idle srx"
    and "server_file B w src (cl_uuid cl) (path_filename p) f fs"
  shows "let ss = (exchange B w ^^ Suc (card (missing src f fs))) (start_session cl' crx fs srx out)
    in file_data (ss_server_fs ss) (canon (w_prefix w) @ [w_uuid_str w (cl_uuid cl), path_filename p]) = Some src \<and>
       uploadsCompleted (ss_client ss) \<and> ss_errors ss = []"
proof -
  let ?name = "path_filename p" and ?uuid = "cl_uuid cl" and ?s0 = "start_session cl' crx fs srx out"
  note lf = local_file_ready [OF assms(1-5)]
  have none: "client_files cl ?name = None" using assms(6) by simp
  note start = offer_starts(1,2) [OF lf(1) refl none assms(7-9), of fs]
  note files = offer_starts(3) [OF lf(1) refl none assms(7-9)]
  have fs: "ss_server_fs ?s0 = fs" by (simp add: start_session_def)
  have "answered B w ?uuid f fs ?s0"
    using offer_resumed [OF lf(1) assms(1) start(2) _ lf(2)] assms(10) by (simp add: fs)
  moreover have "canon (path_append (w_prefix w) (path_append (w_uuid_str w ?uuid) ?name)) =
      canon (w_prefix w) @ [w_uuid_str w ?uuid, ?name]"
    using server_path(4) [OF upload_ok_parts(3-6) [OF lf(1)]] .
  ultimately show ?thesis
    using offer_run [OF lf(1) assms(1) start(1) _ assms(10)] files assms(6)
    by (simp add: Let_def uploaded_def uploadsCompleted_def start_session_def del: funpow.simps)
qed

theorem upload_resumes_witness:
  "let h = calc_hash_buf b2_concat [7, 8, 9];
       ss = (exchange b2_concat sample_world ^^ Suc (card (missing [7, 8, 9] (stored h) (stored_fs h [0, 0, 0] [0]))))
        (start_session (fst (Client_offer sample_conns sample_sends sample_new_client 0 sample_upload))
          sample_rx (stored_fs h [0, 0, 0] [0]) sample_rx
          (fst (snd (Client_offer sample_conns sample_sends sample_new_client 0 sample_upload))))
   in file_data (ss_server_fs ss) (canon (w_prefix sample_world) @
        [w_uuid_str sample_world (cl_uuid sample_new_client), path_filename (ascii ''/f'')]) = Some [7, 8, 9] \<and>
      uploadsCompleted (ss_client ss) \<and> ss_errors ss = []"
  unfolding Let_def
  by (rule upload_resumes [unfolded Let_def, OF b2_concat_laws sample_made sample_src _ sample_plain_client _
        sample_offer_result sample_rx_idle sample_rx_idle stored_part])
    (simp_all add: chunk_count_def sample_new_client_def)

text \<open>
  C2.  Any schedule: however the bytes are cut into reads, whenever the workers of the two sides
  run, and whatever requests about other files the server handles in between, an upload throws
  nothing, and when the client takes it for complete the server's file has exactly the bytes of
  the client's.  The server may know the file with some of its chunks or not at all.
\<close>

theorem schedule_safe:
  assumes "blake2b_laws B" and "file_data (w_client_fs w) (canon p) = Some src"
    and "chunk_count (length src) \<le> 2 ^ 16" and "plain_world w (cl_uuid cl) (path_filename p)"
    and "client_files cl = Map.empty" and "rx_idle crx" and "rx_idle srx"
    and "place_ok B w src (cl_uuid cl) (path_filename p) S fs"
    and "begin_upload B w cl p crx fs srx = Inr n"
    and "list_all (net_admits w (cl_uuid cl) (path_filename p)) es"
  shows "let n' = fold (net_step B w) es n in nt_errors n' = [] \<and>
    (uploadsCompleted (nt_client n') \<longrightarrow>
     file_data (nt_fs n') (canon (w_prefix w) @ [w_uuid_str w (cl_uuid cl), path_filename p]) = Some src)"
proof -
  obtain lf S' d r where ok: "upload_ok w lf src (cl_uuid cl) (path_filename p)"
    and at: "net_at B w lf src (cl_uuid cl) (path_filename p) (fold (net_step B w) es n) (S', d) r"
    by (rule net_upload [OF assms])
  show ?thesis using net_at_state [OF at] place_complete [OF ok] at by (auto simp: Let_def)
qed

theorem schedule_safe_witness:
  "let n' = fold (net_step b2_concat sample_world) sample_schedule (sample_net Map.empty) in nt_errors n' = [] \<and>
    (if uploadsCompleted (nt_client n')
     then file_data (nt_fs n') (canon (w_prefix sample_world) @
       [w_uuid_str sample_world (cl_uuid sample_new_client), path_filename (ascii ''/f'')]) = Some [7, 8, 9]
     else True)"
  using schedule_safe [OF b2_concat_laws sample_src sample_small sample_plain_client sample_no_files sample_rx_idle
      sample_rx_idle sample_place sample_begins sample_schedule_admitted]
  by (simp add: Let_def)

text \<open>
  C3.  Every schedule comes to an end, and to the right one: at most 8510 events per round trip do
  something, one round trip for the offer and one per chunk; as long as the upload is not complete
  one of the two sides has bytes to read or a request to handle; and from every state the two
  sides alone can complete the upload.
\<close>

theorem schedule_terminates:
  assumes "blake2b_laws B" and "file_data (w_client_fs w) (canon p) = Some src"
    and "chunk_count (length src) \<le> 2 ^ 16" and "plain_world w (cl_uuid cl) (path_filename p)"
    and "client_files cl = Map.empty" and "rx_idle crx" and "rx_idle srx"
    and "place_ok B w src (cl_uuid cl) (path_filename p) S fs"
    and "begin_upload B w cl p crx fs srx = Inr n"
    and "list_all (net_admits w (cl_uuid cl) (path_filename p)) es"
  shows "let n' = fold (net_step B w) es n in
    counted (net_step B w) net_counts es n \<le> 8510 * Suc (chunk_count (length src)) \<and>
    (uploadsCompleted (nt_client n') \<or> (\<exists>e \<in> set net_turns. net_counts e n')) \<and>
    (\<exists>es'. set es' \<subseteq> set net_turns \<and> uploadsCompleted (nt_client (fold (net_step B w) es' n')))"
proof -
  obtain lf S' d r where ok: "upload_ok w lf src (cl_uuid cl) (path_filename p)"
      "f_hash lf = calc_hash_buf B src"
    and at: "net_at B w lf src (cl_uuid cl) (path_filename p) (fold (net_step B w) es n) (S', d) r"
    and bound: "r + counted (net_step B w) net_counts es n \<le> 8510 * Suc (chunk_count (length src))"
    by (rule net_upload [OF assms])
  obtain es' S'' r'' where "set es' \<subseteq> set net_turns"
    "net_at B w lf src (cl_uuid cl) (path_filename p) (fold (net_step B w) es' (fold (net_step B w) es n)) (S'', True) r''"
    using net_completes [OF ok(1) assms(1) ok(2) at] by blast
  then have "\<exists>es'. set es' \<subseteq> set net_turns \<and>
      uploadsCompleted (nt_client (fold (net_step B w) es' (fold (net_step B w) es n)))"
    using net_at_state(2) by blast
  moreover have "uploadsCompleted (nt_client (fold (net_step B w) es n)) \<or>
      (\<exists>e \<in> set net_turns. net_counts e (fold (net_step B w) es n))"
    using net_at_state(2) [OF at] net_progress at by (cases d) auto
  ultimately show ?thesis using bound by (simp add: Let_def)
qed

theorem schedule_terminates_witness:
  "let n' = fold (net_step b2_concat sample_world) sample_schedule (sample_net Map.empty) in
    counted (net_step b2_concat sample_world) net_counts sample_schedule (sample_net Map.empty) \<le>
      8510 * Suc (chunk_count (length [7 :: byte, 8, 9])) \<and>
    (uploadsCompleted (nt_client n') \<or> list_ex (\<lambda>e. net_counts e n') net_turns) \<and>
    (\<exists>es'. set es' \<subseteq> set net_turns \<and>
       uploadsCompleted (nt_client (fold (net_step b2_concat sample_world) es' n')))"
  using schedule_terminates [OF b2_concat_laws sample_src sample_small sample_plain_client sample_no_files sample_rx_idle
      sample_rx_idle sample_place sample_begins sample_schedule_admitted]
  by (simp add: Let_def list_ex_iff)

text \<open>
  C4.  Every schedule is a run of the abstract transfer: the chunks the server has, each with the
  bytes of the source, grow one missing chunk at a time from those it had, and the client takes
  the upload for complete only in a last step when none is missing.
\<close>

theorem schedule_refines:
  assumes "blake2b_laws B" and "file_data (w_client_fs w) (canon p) = Some src"
    and "chunk_count (length src) \<le> 2 ^ 16" and "plain_world w (cl_uuid cl) (path_filename p)"
    and "client_files cl = Map.empty" and "rx_idle crx" and "rx_idle srx"
    and "place_ok B w src (cl_uuid cl) (path_filename p) S fs"
    and "begin_upload B w cl p crx fs srx = Inr n"
    and "list_all (net_admits w (cl_uuid cl) (path_filename p)) es"
  shows "let n' = fold (net_step B w) es n in
    \<exists>S'. rtranclp (transfer (chunk_count (length src))) (S, False) (S', uploadsCompleted (nt_client n')) \<and>
      place_ok B w src (cl_uuid cl) (path_filename p) S' (nt_fs n')"
proof -
  obtain lf S' d r where
    at: "net_at B w lf src (cl_uuid cl) (path_filename p) (fold (net_step B w) es n) (S', d) r"
    and run: "rtranclp (transfer (chunk_count (length src))) (S, False) (S', d)"
    by (rule net_upload [OF assms])
  show ?thesis unfolding Let_def using run net_at_state(2,3) [OF at] by auto
qed

theorem schedule_refines_witness:
  "let n' = fold (net_step b2_concat sample_world) sample_schedule (sample_net Map.empty) in
    \<exists>S'. rtranclp (transfer (chunk_count (length [7 :: byte, 8, 9]))) ({}, False) (S', uploadsCompleted (nt_client n')) \<and>
      place_ok b2_concat sample_world [7, 8, 9] (cl_uuid sample_new_client) (path_filename (ascii ''/f'')) S' (nt_fs n')"
  using schedule_refines [OF b2_concat_laws sample_src sample_small sample_plain_client sample_no_files sample_rx_idle
      sample_rx_idle sample_place sample_begins sample_schedule_admitted]
  .

text \<open>
  An upload on a busy server: before each exchange the server handles any requests, valid or
  not, of any clients about other plain file names than the uploaded one and its metadata file.
  The upload, new on the client and known or partly stored on the server, still takes one exchange
  for the offer and one per missing chunk, ends with the server's file equal to the client's, and
  throws nothing.
\<close>

theorem upload_among_others:
  assumes "blake2b_laws B"
    and "makeLocalFile B [] (w_client_fs w) p = Inr lf"
    and "file_data (w_client_fs w) (canon p) = Some src"
    and "chunk_count (length src) \<le> 2 ^ 16"
    and "plain_world w (cl_uuid cl) (path_filename p)"
    and "client_files cl = Map.empty"
    and "Client_offer (w_client_conns w) (w_client_sends w) cl 0 lf = (cl', out, x)"
    and "rx_idle crx" and "rx_idle srx"
    and "server_file B w src (cl_uuid cl) (path_filename p) f fs"
    and "length rss = Suc (card (missing src f fs))"
    and "list_all (about_others w (cl_uuid cl) (path_filename p)) rss"
  shows "let ss = fold (busy_exchange B w) rss (start_session cl' crx fs srx out)
    in file_data (ss_server_fs ss) (canon (w_prefix w) @ [w_uuid_str w (cl_uuid cl), path_filename p]) = Some src \<and>
       uploadsCompleted (ss_client ss) \<and> ss_errors ss = []"
proof -
  let ?s0 = "start_session cl' crx fs srx out"
  note lf = local_file_ready [OF assms(1-5)]
  have none: "client_files cl (path_filename p) = None" using assms(6) by simp
  note start = offer_starts(1,2) [OF lf(1) refl none assms(7-9), of fs]
  note files = offer_starts(3) [OF lf(1) refl none assms(7-9)]
  have fs: "ss_server_fs ?s0 = fs" by (simp add: start_session_def)
  have "canon (path_append (w_prefix w) (path_append (w_uuid_str w (cl_uuid cl)) (path_filename p))) =
      canon (w_prefix w) @ [w_uuid_str w (cl_uuid cl), path_filename p]"
    using server_path(4) [OF upload_ok_parts(3-6) [OF lf(1)]] .
  then show ?thesis
    using busy_offer_run [OF lf(1) assms(1) start(1,2) _ lf(2) _ assms(12), of f] assms(10,11) files assms(6)
    by (simp add: fs Let_def uploaded_def uploadsCompleted_def) (simp add: start_session_def)
qed

theorem upload_among_others_witness:
  "let h = calc_hash_buf b2_concat [7, 8, 9];
       ss = fold (busy_exchange b2_concat sample_world)
        (replicate (Suc (card (missing [7, 8, 9] (stored h) (stored_fs h [0, 0, 0] [0])))) [sample_other_req])
        (start_session (fst (Client_offer sample_conns sample_sends sample_new_client 0 sample_upload))
          sample_rx (stored_fs h [0, 0, 0] [0]) sample_rx
          (fst (snd (Client_offer sample_conns sample_sends sample_new_client 0 sample_upload))))
   in file_data (ss_server_fs ss) (canon (w_prefix sample_world) @
        [w_uuid_str sample_world (cl_uuid sample_new_client), path_filename (ascii ''/f'')]) = Some [7, 8, 9] \<and>
      uploadsCompleted (ss_client ss) \<and> ss_errors ss = []"
  unfolding Let_def
  by (rule upload_among_others [unfolded Let_def, OF b2_concat_laws sample_made sample_src _ sample_plain_client _
        sample_offer_result sample_rx_idle sample_rx_idle stored_part])
    (simp_all add: chunk_count_def sample_new_client_def list_all_iff sample_others)

text \<open>
  C36.  An offer of a changed file of the same length, when the server already has all chunks of
  the old one: the stored metadata wins, so no chunk is missing although the hash differs.  The
  server asks for chunk 65535, the client fails with \<open>range_error\<close>, nothing more is sent, and the
  upload stays incomplete for good.
\<close>

theorem changed_file_stalls:
  assumes "blake2b_laws B"
    and "makeLocalFile B [] (w_client_fs w) p = Inr lf"
    and "file_data (w_client_fs w) (canon p) = Some src"
    and "length src < 65535 * CHUNK"
    and "plain_world w (cl_uuid cl) (path_filename p)"
    and "client_files cl = Map.empty"
    and "Client_offer (w_client_conns w) (w_client_sends w) cl 0 lf = (cl', out, x)"
    and "rx_idle crx" and "rx_idle srx"
    and "remote_state f fs dat bm"
    and "f_path f = path_append (w_uuid_str w (cl_uuid cl)) (path_filename p)"
    and "f_effective_path f = path_append (w_prefix w) (f_path f)"
    and "unat (f_size f) = length src"
    and "\<And>i. i < chunk_count (length src) \<Longrightarrow> chunk_bit bm i"
    and "calc_hash_buf B dat \<noteq> calc_hash_buf B src"
  shows "let ss = exchange B w (start_session cl' crx fs srx out)
    in ss_errors ss = [Range_error ''Chunk index outside file length range''] \<and> ss_up ss = [] \<and>
       \<not> uploadsCompleted (ss_client ss) \<and> ss_server_fs ss = fs"
proof -
  have "chunk_count (length src) \<le> 2 ^ 16"
    using assms(4) chunk_count_iff [of "2 ^ 16" "length src"] by simp
  note lf = local_file_ready [OF assms(1-3) this assms(5)]
  have none: "client_files cl (path_filename p) = None" using assms(6) by simp
  note start = offer_starts(1,2) [OF lf(1) refl none assms(7-9), of fs]
  note files = offer_starts(3) [OF lf(1) refl none assms(7-9)]
  have "remote_state f (ss_server_fs (start_session cl' crx fs srx out)) dat bm"
    "calc_hash_buf B dat \<noteq> f_hash lf" using assms(10,15) lf(2) by (simp_all add: start_session_def)
  from stale_exchange [OF lf(1) assms(1) start(2,1) this(1) assms(11-14) this(2) assms(4)]
  show ?thesis using files by (auto simp: Let_def start_session_def uploadsCompleted_def)
qed

theorem changed_file_stalls_witness:
  "let ss = exchange b2_concat sample_world
      (start_session (fst (Client_offer sample_conns sample_sends sample_new_client 0 sample_upload))
        sample_rx (stored_fs (replicate HASH_SIZE 0) [1, 2, 3] [0x80]) sample_rx
        (fst (snd (Client_offer sample_conns sample_sends sample_new_client 0 sample_upload))))
   in ss_errors ss = [Range_error ''Chunk index outside file length range''] \<and> ss_up ss = [] \<and>
      \<not> uploadsCompleted (ss_client ss) \<and>
      ss_server_fs ss = stored_fs (replicate HASH_SIZE 0) [1, 2, 3] [0x80]"
proof (rule changed_file_stalls [OF b2_concat_laws sample_made sample_src _ sample_plain_client _
      sample_offer_result sample_rx_idle sample_rx_idle stored_state _ stored_paths(2)])
  show "chunk_bit [0x80] i" if "i < chunk_count (length [7 :: byte, 8, 9])" for i
    using that by (simp add: chunk_count_def chunk_bit_def)
  show "calc_hash_buf b2_concat [1, 2, 3] \<noteq> calc_hash_buf b2_concat [7, 8, 9]"
    by (simp add: calc_hash_buf_def b2_concat_def)
  show "f_path (stored (replicate HASH_SIZE 0)) =
      path_append (w_uuid_str sample_world (cl_uuid sample_new_client)) (path_filename (ascii ''/f''))"
    by (rule stored_paths(1))
qed (simp_all add: sample_new_client_def stored_def)

end
